(* ===== verification/Gateway_Prelude.thy ===== *)
theory Gateway_Prelude
  imports Complex_Main "HOL-Library.Product_Lexorder"
begin

text \<open>
  What every component of the development shares: the type names of the model, results
  that carry an error, the decimal rendering of integers that the code gets from
  \<open>str\<close> and f-strings, the JSON values the read-model columns hold, and the generic
  facts on lists and options the component proofs use.

  Conventions. A Python \<open>int\<close> is \<open>int\<close>, a Python \<open>str\<close> is \<open>string\<close>, \<open>X | None\<close> is
  \<open>'x option\<close>; an exception is the left summand of a sum. A moment (\<open>datetime\<close>) is an
  integer number of microseconds since 1970 in UTC, the resolution of the source's type.
  Logging has no part in any model.
\<close>

section \<open>Names of types\<close>

type_synonym instant = int
type_synonym subject = string
type_synonym use_case = string
type_synonym model_name = string

abbreviation (input) micros_per_second :: int where
  "micros_per_second \<equiv> 1000000"

abbreviation (input) micros_per_minute :: int where
  "micros_per_minute \<equiv> 60000000"

named_theorems amounts_simps "the abelian group of counted amounts"
named_theorems scope_simps "which rows bind a caller"

section \<open>Results that carry an error\<close>

definition sum_bind :: "'e + 'a \<Rightarrow> ('a \<Rightarrow> 'e + 'b) \<Rightarrow> 'e + 'b" where
  "sum_bind r f = (case r of Inl e \<Rightarrow> Inl e | Inr a \<Rightarrow> f a)"

lemma sum_bind_simps [simp]:
  "sum_bind (Inl e) f = Inl e"
  "sum_bind (Inr a) f = f a"
  by (simp_all add: sum_bind_def)

lemma sum_bind_Inr_iff: "sum_bind r f = Inr b \<longleftrightarrow> (\<exists>a. r = Inr a \<and> f a = Inr b)"
  by (cases r) simp_all

lemma sum_bind_Inl_iff:
  "sum_bind r f = Inl e \<longleftrightarrow> r = Inl e \<or> (\<exists>a. r = Inr a \<and> f a = Inl e)"
  by (cases r) simp_all

lemma returnsE:
  assumes "case r of Inl e \<Rightarrow> False | Inr a \<Rightarrow> P a"
  obtains a where "r = Inr a" "P a"
  using assms by (cases r) simp_all

definition truthy :: "string option \<Rightarrow> bool" where
  \<comment> \<open>\<open>if name:\<close> on a \<open>str | None\<close>: neither absent nor empty.\<close>
  "truthy s = (case s of None \<Rightarrow> False | Some t \<Rightarrow> t \<noteq> [])"

lemma truthy_simps [simp]:
  "\<not> truthy None"
  "truthy (Some s) \<longleftrightarrow> s \<noteq> []"
  by (simp_all add: truthy_def)

lemma truthyE: "truthy s \<Longrightarrow> (\<And>t. s = Some t \<Longrightarrow> t \<noteq> [] \<Longrightarrow> P) \<Longrightarrow> P"
  by (cases s) simp_all

text \<open>\<open>str.strip()\<close> and \<open>str.upper()\<close> on the ASCII characters the names of the model are made of.\<close>

definition py_space :: "char \<Rightarrow> bool" where
  "py_space c = (c = CHR '' '' \<or> (9 \<le> (of_char c :: nat) \<and> (of_char c :: nat) \<le> 13)
     \<or> (28 \<le> (of_char c :: nat) \<and> (of_char c :: nat) \<le> 31))"

definition py_strip :: "string \<Rightarrow> string" where
  "py_strip s = rev (dropWhile py_space (rev (dropWhile py_space s)))"

definition ascii_upper :: "string \<Rightarrow> string" where
  "ascii_upper s = map (\<lambda>c. if 97 \<le> (of_char c :: nat) \<and> (of_char c :: nat) \<le> 122
     then char_of ((of_char c :: nat) - 32) else c) s"

definition ascii_lower :: "string \<Rightarrow> string" where
  "ascii_lower s = map (\<lambda>c. if 65 \<le> (of_char c :: nat) \<and> (of_char c :: nat) \<le> 90
     then char_of ((of_char c :: nat) + 32) else c) s"

section \<open>Decimal rendering\<close>

lemma replicate_numeral [simp]:
  "replicate (numeral k) x = x # replicate (pred_numeral k) x"
  by (simp add: numeral_eq_Suc)

definition digit :: "nat \<Rightarrow> char" where
  "digit d = ''0123456789'' ! d"

fun show_nat :: "nat \<Rightarrow> string" where
  "show_nat n = (if n < 10 then [digit n] else show_nat (n div 10) @ [digit (n mod 10)])"

declare show_nat.simps [simp del]

definition show_int :: "int \<Rightarrow> string" where
  "show_int i = (if i < 0 then CHR ''-'' # show_nat (nat (- i)) else show_nat (nat i))"

definition zero_padded :: "nat \<Rightarrow> nat \<Rightarrow> string" where
  \<comment> \<open>the \<open>%0<w>d\<close> of \<open>strftime\<close>\<close>
  "zero_padded w n = (let s = show_nat n in replicate (w - length s) CHR ''0'' @ s)"

lemma digit_inj: "a < 10 \<Longrightarrow> b < 10 \<Longrightarrow> digit a = digit b \<longleftrightarrow> a = b"
proof -
  assume "a < 10" "b < 10"
  moreover have "distinct ''0123456789''" by simp
  moreover have "length ''0123456789'' = 10" by simp
  ultimately show ?thesis
    unfolding digit_def by (metis nth_eq_iff_index_eq)
qed

lemma show_nat_Nil [simp]: "show_nat n \<noteq> []" "[] \<noteq> show_nat n"
  by (subst show_nat.simps; simp)+

lemma show_nat_inj: "show_nat m = show_nat n \<longleftrightarrow> m = n"
proof
  show "show_nat m = show_nat n \<Longrightarrow> m = n"
  proof (induction m arbitrary: n rule: show_nat.induct)
    case (1 m)
    show ?case
    proof (cases "m < 10")
      case True
      with "1.prems" have "[digit m] = show_nat n" by (simp add: show_nat.simps [of m])
      with True show ?thesis
        by (subst (asm) show_nat.simps [of n])
           (auto simp: digit_inj append_eq_Cons_conv split: if_splits)
    next
      case False
      with "1.prems" have eq: "show_nat (m div 10) @ [digit (m mod 10)] = show_nat n"
        by (simp add: show_nat.simps [of m])
      show ?thesis
      proof (cases "n < 10")
        case True
        with eq show ?thesis
          by (subst (asm) (2) show_nat.simps) (simp add: append_eq_Cons_conv)
      next
        case False': False
        with eq have "show_nat (m div 10) = show_nat (n div 10)"
          and "digit (m mod 10) = digit (n mod 10)"
          by (simp_all add: show_nat.simps [of n])
        with "1.IH" \<open>\<not> m < 10\<close> have "m div 10 = n div 10" and "m mod 10 = n mod 10"
          by (simp_all add: digit_inj)
        then show ?thesis by (metis div_mult_mod_eq)
      qed
    qed
  qed
qed simp

lemma show_nat_digits: "set (show_nat n) \<subseteq> set ''0123456789''"
proof (induction n rule: show_nat.induct)
  case (1 n)
  have d: "digit k \<in> set ''0123456789''" if "k < 10" for k
    using that unfolding digit_def by (intro nth_mem) simp
  show ?case
  proof (cases "n < 10")
    case True
    with d [OF True] show ?thesis by (simp add: show_nat.simps [of n])
  next
    case False
    with "1.IH" d [of "n mod 10"] show ?thesis by (simp add: show_nat.simps [of n])
  qed
qed

lemma length_show_nat_bound: "n < 10 ^ k \<Longrightarrow> 0 < k \<Longrightarrow> length (show_nat n) \<le> k"
proof (induction k arbitrary: n)
  case 0
  then show ?case by simp
next
  case (Suc k)
  show ?case
  proof (cases "n < 10")
    case True
    then show ?thesis by (simp add: show_nat.simps [of n])
  next
    case False
    with Suc.prems have "0 < k" by (cases k) simp_all
    moreover from Suc.prems have "n div 10 < 10 ^ k"
      by (simp add: less_mult_imp_div_less mult.commute)
    ultimately have "length (show_nat (n div 10)) \<le> k" by (intro Suc.IH)
    with False show ?thesis by (simp add: show_nat.simps [of n])
  qed
qed

lemma length_zero_padded: "n < 10 ^ w \<Longrightarrow> 0 < w \<Longrightarrow> length (zero_padded w n) = w"
  using length_show_nat_bound [of n w] by (simp add: zero_padded_def Let_def)

lemma show_nat_leading_zero: "show_nat n = CHR ''0'' # s \<Longrightarrow> s = [] \<and> n = 0"
proof (induction n arbitrary: s rule: show_nat.induct)
  case (1 n)
  have zero: "digit 0 = CHR ''0''" by (simp add: digit_def)
  show ?case
  proof (cases "n < 10")
    case True
    with "1.prems" have "digit n = digit 0" "s = []" by (simp_all add: zero show_nat.simps [of n])
    with True show ?thesis by (simp add: digit_inj)
  next
    case False
    with "1.prems" have eq: "show_nat (n div 10) @ [digit (n mod 10)] = CHR ''0'' # s"
      by (simp add: show_nat.simps [of n])
    then obtain t where "show_nat (n div 10) = CHR ''0'' # t" by (auto simp: append_eq_Cons_conv)
    with "1.IH" False show ?thesis by auto
  qed
qed

lemma padded_inj:
  "replicate j CHR ''0'' @ show_nat m = replicate k CHR ''0'' @ show_nat n \<Longrightarrow> m = n"
proof (induction j arbitrary: k)
  case 0
  then show ?case
    by (cases k) (auto simp: show_nat_inj dest: show_nat_leading_zero)
next
  case (Suc j)
  then show ?case
  proof (cases k)
    case 0
    with Suc.prems show ?thesis using show_nat_leading_zero [of n] by (auto dest: sym)
  qed simp
qed

lemma zero_padded_inj: "zero_padded w m = zero_padded w n \<longleftrightarrow> m = n"
  by (auto simp: zero_padded_def Let_def dest: padded_inj)

section \<open>JSON values\<close>

text \<open>
  A JSON column or event body as Python's parser hands it over (a float as the rational it
  denotes). An object is the list of its
  entries; \<open>json_get\<close> is \<open>dict.get\<close>.
\<close>

datatype json =
    JNull
  | JBool bool
  | JInt int
  | JFloat rat
  | JStr string
  | JList "json list"
  | JObj "(string \<times> json) list"

fun json_get :: "(string \<times> json) list \<Rightarrow> string \<Rightarrow> json option" where
  "json_get entries key = map_of entries key"

fun is_jstr :: "json \<Rightarrow> bool" where
  "is_jstr (JStr _) = True"
| "is_jstr _ = False"

fun is_jobj :: "json \<Rightarrow> bool" where
  "is_jobj (JObj _) = True"
| "is_jobj _ = False"

type_synonym json_object = "(string \<times> json) list"

text \<open>\<open>isinstance(value, int) and not isinstance(value, bool)\<close>.\<close>

fun json_int :: "json option \<Rightarrow> int option" where
  "json_int (Some (JInt i)) = Some i"
| "json_int _ = None"

fun json_object_of :: "json option \<Rightarrow> json_object option" where
  "json_object_of (Some (JObj entries)) = Some entries"
| "json_object_of _ = None"

text \<open>Whether Python takes a value for true, and \<open>payload.get(key, dflt)\<close>.\<close>

fun json_truthy :: "json \<Rightarrow> bool" where
  "json_truthy JNull = False"
| "json_truthy (JBool b) = b"
| "json_truthy (JInt i) = (i \<noteq> 0)"
| "json_truthy (JFloat x) = (x \<noteq> 0)"
| "json_truthy (JStr s) = (s \<noteq> [])"
| "json_truthy (JList xs) = (xs \<noteq> [])"
| "json_truthy (JObj es) = (es \<noteq> [])"

definition got :: "json_object \<Rightarrow> string \<Rightarrow> json \<Rightarrow> json" where
  \<comment> \<open>\<open>payload.get(key, dflt)\<close>\<close>
  "got config key dflt = (case map_of config key of None \<Rightarrow> dflt | Some v \<Rightarrow> v)"

section \<open>Integers\<close>

lemma int_le_div_iff:
  fixes k n m :: int
  assumes "0 < k"
  shows "n \<le> m div k \<longleftrightarrow> n * k \<le> m"
proof
  assume "n \<le> m div k"
  with assms have "n * k \<le> m div k * k" by (simp add: mult_right_mono)
  also have "\<dots> \<le> m" using assms by (simp add: minus_mod_eq_div_mult [symmetric])
  finally show "n * k \<le> m" .
next
  assume "n * k \<le> m"
  then have "n * k div k \<le> m div k" using assms by (rule zdiv_mono1)
  with assms show "n \<le> m div k" by simp
qed

section \<open>Lists\<close>

fun keep_first :: "'a list \<Rightarrow> 'a list" where
  \<comment> \<open>the \<open>seen\<close> dictionary of the source: each value once, in the order of first appearance\<close>
  "keep_first [] = []"
| "keep_first (x # xs) = x # keep_first (List.filter (\<lambda>y. y \<noteq> x) xs)"

lemma set_keep_first [simp]: "set (keep_first xs) = set xs"
  by (induction xs rule: keep_first.induct) auto

lemma distinct_keep_first [simp]: "distinct (keep_first xs)"
  by (induction xs rule: keep_first.induct) auto

lemma keep_first_distinct_id: "distinct xs \<Longrightarrow> keep_first xs = xs"
proof (induction xs)
  case (Cons x xs)
  then have "List.filter (\<lambda>y. y \<noteq> x) xs = xs" by (auto intro!: filter_True)
  with Cons show ?case by simp
qed simp

end
