(* ===== verification/Read_Models.thy ===== *)
theory Read_Models
  imports Gateway_Prelude
begin

text \<open>
  The rows the gateway decides by (\<open>gateway/src/aira_gateway/db/models/\<close>): what Management
  published (use cases, budgets, rate limits, anomaly rules, the model catalogue) and what the
  gateway itself records (usage counters). One record per table, one field per column; a
  nullable column is an option, a JSON column is a \<open>json option\<close>. The prefix of a field is its
  table's. Presentation columns no decision reads (\<open>updated_at\<close>) have no field.
\<close>

section \<open>Published by Management\<close>

record use_case_read =
  uc_slug :: string
  uc_name :: string
  uc_deleted_at :: "instant option"
  uc_description :: string
  uc_processing_notes :: string
  uc_store_payloads :: bool
  uc_retention_days :: int
  uc_payload_visibility :: string
  uc_tools_enabled :: bool
  uc_include_reasoning :: bool
  uc_prompt_caching_enabled :: bool
  uc_prompt_cache_ttl :: string
  uc_allowed_models :: "string list option"
  uc_budget_mail_thresholds :: "int list option"
  uc_mail_admins_on_anomalies :: bool

record budget_read =
  b_id :: int
  b_use_case :: string
  b_scope :: string
  b_subject :: string
  b_period :: string
  b_limit_cost_nanos :: "int option"
  b_limit_tokens :: "int option"
  b_limit_requests :: "int option"
  b_enabled :: bool

record rate_limit_read =
  rl_id :: int
  rl_use_case :: string
  rl_scope :: string
  rl_subject :: string
  rl_limit_rpm :: int
  rl_burst :: int
  rl_enabled :: bool

record anomaly_rule_read =
  ar_id :: int
  ar_use_case :: "string option"
  ar_name :: string
  ar_kind :: string
  ar_window_minutes :: int
  ar_threshold :: int
  ar_parameter :: "int option"
  ar_min_sample :: int
  ar_action :: string
  ar_target :: string
  ar_action_minutes :: "int option"
  ar_throttle_rpm :: "int option"
  ar_enabled :: bool

record model_read =
  m_model :: string
  m_approved :: bool
  m_display_name :: string
  m_provider :: string
  m_input_price_per_million_nanos :: "int option"
  m_output_price_per_million_nanos :: "int option"
  m_cached_input_price_per_million_nanos :: "int option"
  m_cache_write_price_per_million_nanos :: "int option"
  m_long_context_threshold :: "int option"
  m_long_context_input_price_per_million_nanos :: "int option"
  m_long_context_output_price_per_million_nanos :: "int option"
  m_long_context_cached_input_price_per_million_nanos :: "int option"
  m_long_context_cache_write_price_per_million_nanos :: "int option"
  m_capabilities :: "json option"
  m_publisher :: string
  m_platform :: string
  m_addressing :: "json option"
  m_underlying_model :: string
  m_context_window :: "int option"
  m_max_output_tokens :: "int option"
  m_default_max_output_tokens :: "int option"
  m_thinking :: "json option"
  m_embedding :: "json option"
  m_attachments :: "json option"
  m_hosting :: string
  m_deprecated :: bool
  m_fixed_sampling :: bool
  m_default_sampling :: "json option"
  m_numeric_id :: "int option"

section \<open>Recorded by the gateway\<close>

text \<open>One row of \<open>budget_usage\<close>; its two key columns are the key of the table map.\<close>

record budget_usage =
  bu_tokens :: int
  bu_requests :: int
  bu_cost_nanos :: int
  bu_unpriced_requests :: int

type_synonym usage_table = "string \<times> string \<Rightarrow> budget_usage option"

text \<open>
  A row of \<open>request_logs\<close>, with the columns the model reads (not its payloads and technical detail),
  and what anomaly detection writes.
\<close>

record request_log =
  q_created_at :: instant
  q_subject :: string
  q_username :: "string option"
  q_use_case :: "string option"
  q_source_ip :: "string option"
  q_credential :: "string option"
  q_operation :: string
  q_outcome :: "string option"
  q_request_bytes :: "int option"
  q_cost_nanos :: "int option"

definition request_person :: "request_log \<Rightarrow> string" where
  "request_person row =
     (case q_username row of None \<Rightarrow> q_subject row | Some n \<Rightarrow> if n = [] then q_subject row else n)"

definition request_person_is :: "string \<Rightarrow> request_log \<Rightarrow> bool" where
  "request_person_is person row \<longleftrightarrow>
     q_username row = Some person
     \<or> (q_username row = None \<or> q_username row = Some []) \<and> q_subject row = person"

lemma request_person_is_iff:
  "person \<noteq> [] \<Longrightarrow> request_person_is person row \<longleftrightarrow> request_person row = person"
  by (auto simp: request_person_is_def request_person_def split: option.splits if_splits)

record anomaly_event =
  ev_created_at :: instant
  ev_rule_id :: int
  ev_rule_name :: string
  ev_kind :: string
  ev_use_case :: "string option"
  ev_target :: string
  ev_target_value :: string
  ev_observed :: int
  ev_threshold :: int
  ev_sample :: int
  ev_window_minutes :: int
  ev_action_taken :: string
  ev_detail :: string

end
