(* ===== verification/Money.thy ===== *)
theory Money
  imports Read_Models
begin

text \<open>
  Exact money (\<open>libs/src/aira_common/money.py\<close>) and what a request cost
  (\<open>gateway/src/aira_gateway/pricing.py\<close>). Amounts are integers in nano-units. The decimal
  arithmetic that money is rendered with is Python's \<open>decimal\<close> module at its default context:
  a sign, a coefficient and an exponent, at most 28 significant digits, \<open>None\<close> where it raises
  \<open>InvalidOperation\<close>. The lemmas show that pricing is monotone and loses less than a nano-unit
  per product, that amounts survive the trip through a decimal, and that an amount that is not
  zero is never rendered as zero.
\<close>

section \<open>Costs\<close>

definition nanos_per_unit :: int where
  "nanos_per_unit = 1000000000"

definition tokens_per_price_unit :: int where
  "tokens_per_price_unit = 1000000"

definition cost_nanos :: "int \<Rightarrow> int \<Rightarrow> int" where
  "cost_nanos tokens price_per_million_nanos =
     (if tokens \<le> 0 \<or> price_per_million_nanos \<le> 0 then 0
      else tokens * price_per_million_nanos div tokens_per_price_unit)"

definition request_cost_nanos :: "int \<Rightarrow> int \<Rightarrow> int \<Rightarrow> int \<Rightarrow> int" where
  "request_cost_nanos prompt_tokens completion_tokens input_price output_price =
     cost_nanos prompt_tokens input_price + cost_nanos completion_tokens output_price"

lemma cost_nanos_nonneg [simp]: "0 \<le> cost_nanos t p"
  by (simp add: cost_nanos_def tokens_per_price_unit_def pos_imp_zdiv_nonneg_iff)

lemma cost_nanos_mono:
  assumes "t \<le> t'" and "p \<le> p'"
  shows "cost_nanos t p \<le> cost_nanos t' p'"
proof (cases "t \<le> 0 \<or> p \<le> 0")
  case True
  then have "cost_nanos t p = 0" by (simp add: cost_nanos_def)
  then show ?thesis by simp
next
  case False
  with assms have "t * p \<le> t' * p'" by (intro mult_mono) auto
  with False assms show ?thesis
    by (auto simp: cost_nanos_def tokens_per_price_unit_def intro: zdiv_mono1)
qed

lemma cost_nanos_zero [simp]: "cost_nanos 0 p = 0" "cost_nanos t 0 = 0"
  by (simp_all add: cost_nanos_def)

lemma cost_nanos_truncates:
  assumes "0 \<le> t" and "0 \<le> p"
  shows "cost_nanos t p * 1000000 \<le> t * p \<and> t * p < (cost_nanos t p + 1) * 1000000"
proof -
  have q: "cost_nanos t p = t * p div 1000000"
    using assms by (auto simp: cost_nanos_def tokens_per_price_unit_def)
  have "x div 1000000 * 1000000 \<le> x \<and> x < (x div 1000000 + 1) * 1000000" for x :: int
    by presburger
  with q show ?thesis by simp
qed

lemma cost_nanos_split:
  assumes "0 \<le> a" and "0 \<le> b" and "0 \<le> p"
  shows "cost_nanos a p + cost_nanos b p \<le> cost_nanos (a + b) p"
    and "cost_nanos (a + b) p \<le> cost_nanos a p + cost_nanos b p + 1"
  using cost_nanos_truncates [of a p] cost_nanos_truncates [of b p]
    cost_nanos_truncates [of "a + b" p] assms
  by (auto simp: distrib_right)

section \<open>What the provider counted\<close>

record canonical_usage =
  prompt_tokens :: int
  completion_tokens :: int
  cached_input_tokens :: int
  cache_write_tokens :: int
  long_cache_write_tokens :: int
  reasoning_tokens :: int

definition uncached_input_tokens :: "canonical_usage \<Rightarrow> int" where
  "uncached_input_tokens u =
     max 0 (prompt_tokens u - cached_input_tokens u - cache_write_tokens u)"

definition total_tokens :: "canonical_usage \<Rightarrow> int" where
  "total_tokens u = prompt_tokens u + completion_tokens u"

definition long_writes :: "canonical_usage \<Rightarrow> int" where
  "long_writes u = min (max 0 (long_cache_write_tokens u)) (max 0 (cache_write_tokens u))"

lemma long_writes_bounds: "0 \<le> long_writes u" "long_writes u \<le> max 0 (cache_write_tokens u)"
  by (simp_all add: long_writes_def)

section \<open>Prices\<close>

record rates =
  input_per_million_nanos :: int
  output_per_million_nanos :: int
  cached_input_per_million_nanos :: "int option"
  cache_write_per_million_nanos :: "int option"

text \<open>\<open>class Price(Rates)\<close>: a price is a set of rates, extended.\<close>

record price = rates +
  long_context_threshold :: "int option"
  long_context :: "rates option"

definition cached_input_rate :: "'a rates_scheme \<Rightarrow> int" where
  "cached_input_rate r = (case cached_input_per_million_nanos r of
     Some p \<Rightarrow> p | None \<Rightarrow> input_per_million_nanos r)"

definition cache_write_rate :: "'a rates_scheme \<Rightarrow> int" where
  "cache_write_rate r = (case cache_write_per_million_nanos r of
     Some p \<Rightarrow> p | None \<Rightarrow> input_per_million_nanos r * 5 div 4)"

definition long_cache_write_rate :: "'a rates_scheme \<Rightarrow> int" where
  "long_cache_write_rate r = max (input_per_million_nanos r * 2) (cache_write_rate r)"

definition usage_cost :: "'a rates_scheme \<Rightarrow> canonical_usage \<Rightarrow> int" where
  "usage_cost r u =
     request_cost_nanos (uncached_input_tokens u) (completion_tokens u)
       (input_per_million_nanos r) (output_per_million_nanos r)
     + cost_nanos (cached_input_tokens u) (cached_input_rate r)
     + cost_nanos (cache_write_tokens u - long_writes u) (cache_write_rate r)
     + cost_nanos (long_writes u) (long_cache_write_rate r)"

definition rates_for :: "price \<Rightarrow> int \<Rightarrow> rates" where
  "rates_for p prompt =
     (case (long_context p, long_context_threshold p) of
        (Some l, Some threshold) \<Rightarrow> if prompt > threshold then l else rates.truncate p
      | _ \<Rightarrow> rates.truncate p)"

definition long_context_rates :: "model_read \<Rightarrow> rates option" where
  "long_context_rates m =
     (case (m_long_context_threshold m, m_long_context_input_price_per_million_nanos m,
            m_long_context_output_price_per_million_nanos m) of
        (Some _, Some i, Some o') \<Rightarrow>
          Some \<lparr>input_per_million_nanos = i, output_per_million_nanos = o',
                cached_input_per_million_nanos =
                  m_long_context_cached_input_price_per_million_nanos m,
                cache_write_per_million_nanos =
                  m_long_context_cache_write_price_per_million_nanos m\<rparr>
      | _ \<Rightarrow> None)"

definition price_for :: "(model_name \<Rightarrow> model_read option) \<Rightarrow> model_name \<Rightarrow> price option" where
  "price_for table model =
     (case table model of None \<Rightarrow> None
      | Some m \<Rightarrow>
          (case (m_input_price_per_million_nanos m, m_output_price_per_million_nanos m) of
             (Some i, Some o') \<Rightarrow>
               Some \<lparr>input_per_million_nanos = i, output_per_million_nanos = o',
                     cached_input_per_million_nanos = m_cached_input_price_per_million_nanos m,
                     cache_write_per_million_nanos = m_cache_write_price_per_million_nanos m,
                     long_context_threshold = m_long_context_threshold m,
                     long_context = long_context_rates m\<rparr>
           | _ \<Rightarrow> None))"

definition priced ::
  "(model_name \<Rightarrow> model_read option) \<Rightarrow> model_name \<Rightarrow> canonical_usage option \<Rightarrow> int option" where
  "priced table model usage =
     (case usage of None \<Rightarrow> None
      | Some u \<Rightarrow>
          (case price_for table model of None \<Rightarrow> None
           | Some p \<Rightarrow> Some (usage_cost (rates_for p (prompt_tokens u)) u)))"

lemma usage_cost_nonneg [simp]: "0 \<le> usage_cost r u"
  by (simp add: usage_cost_def request_cost_nanos_def)

text \<open>A request that reports no cache tokens is billed by direction alone.\<close>

lemma usage_cost_uncached:
  "cached_input_tokens u = 0 \<Longrightarrow> cache_write_tokens u = 0 \<Longrightarrow> 0 \<le> prompt_tokens u \<Longrightarrow>
   usage_cost r u = cost_nanos (prompt_tokens u) (input_per_million_nanos r)
     + cost_nanos (completion_tokens u) (output_per_million_nanos r)"
  by (simp add: usage_cost_def request_cost_nanos_def uncached_input_tokens_def long_writes_def)

section \<open>Amounts as decimals\<close>

text \<open>
  A finite \<open>Decimal\<close>: sign, coefficient and exponent. \<open>quantize\<close> at \<open>ROUND_HALF_UP\<close> rounds the
  magnitude, and raises (\<open>None\<close>) where the rounded coefficient has more than the 28 digits of the
  default context.
\<close>

datatype dec = Dec (dec_neg: bool) (dec_coeff: nat) (dec_exp: int)

definition decimal_precision :: nat where
  "decimal_precision = 28"

fun quantize_half_up :: "dec \<Rightarrow> nat \<Rightarrow> dec option" where
  "quantize_half_up (Dec s c e) places =
     (let shift = e + int places;
          c' = (if 0 \<le> shift then c * 10 ^ nat shift
                else (c + 10 ^ nat (- shift) div 2) div 10 ^ nat (- shift))
      in if c' < 10 ^ decimal_precision then Some (Dec s c' (- int places)) else None)"

text \<open>What \<open>Decimal(str(amount))\<close> can be: not a number at all, infinite or a NaN, or finite.\<close>

datatype parsed_amount = NotANumber | NotFinite | Finite dec

datatype amount_error = NotAValidAmount | AmountOutOfRange

text \<open>
  \<open>to_nanos\<close>. The product with \<open>NANOS_PER_UNIT\<close> is exact: a coefficient of at most 28 digits
  times a power of ten has no digit to round away.
\<close>

definition to_nanos :: "parsed_amount \<Rightarrow> amount_error + int" where
  "to_nanos amount =
     (case amount of
        NotANumber \<Rightarrow> Inl NotAValidAmount
      | NotFinite \<Rightarrow> Inl NotAValidAmount
      | Finite value \<Rightarrow>
          (case quantize_half_up value 9 of
             None \<Rightarrow> Inl AmountOutOfRange
           | Some d \<Rightarrow> Inr (if dec_neg d then - int (dec_coeff d) else int (dec_coeff d))))"

text \<open>
  \<open>from_nanos\<close>: the quotient by \<open>NANOS_PER_UNIT\<close>, at nine places. Beyond 28 digits the
  \<open>quantize\<close> raises; below, the quotient is exact.
\<close>

definition from_nanos :: "int \<Rightarrow> dec option" where
  "from_nanos nanos =
     (if nat \<bar>nanos\<bar> < 10 ^ decimal_precision
      then Some (Dec (nanos < 0) (nat \<bar>nanos\<bar>) (- 9)) else None)"

text \<open>\<open>str\<close> of a decimal: plain notation down to six leading zeros, scientific below.\<close>

definition dec_str :: "dec \<Rightarrow> string" where
  "dec_str d =
     (let digits = show_nat (dec_coeff d);
          leftdigits = dec_exp d + int (length digits);
          plain = (dec_exp d \<le> 0 \<and> - 6 < leftdigits);
          dotplace = (if plain then leftdigits else 1);
          body = (if dotplace \<le> 0 then ''0.'' @ replicate (nat (- dotplace)) CHR ''0'' @ digits
                  else if int (length digits) \<le> dotplace
                       then digits @ replicate (nat dotplace - length digits) CHR ''0''
                  else take (nat dotplace) digits @ ''.'' @ drop (nat dotplace) digits);
          exponent = (if leftdigits = dotplace then []
                      else ''E'' @ (if leftdigits < dotplace then [] else ''+'')
                        @ show_int (leftdigits - dotplace))
      in (if dec_neg d then ''-'' else []) @ body @ exponent)"

definition format_amount_dec :: "int \<Rightarrow> nat \<Rightarrow> dec option" where
  "format_amount_dec nanos places =
     Option.bind (from_nanos nanos) (\<lambda>d. quantize_half_up d places)"

definition format_amount :: "int \<Rightarrow> nat \<Rightarrow> string option" where
  "format_amount nanos places = map_option dec_str (format_amount_dec nanos places)"

text \<open>
  \<open>format_display\<close>. The source asks whether a rendering is zero by reading the rendered text back
  as a decimal, which gives the decimal it was rendered from; the model asks that decimal.
\<close>

fun first_nonzero :: "int \<Rightarrow> nat list \<Rightarrow> dec option" where
  "first_nonzero nanos [] = None"
| "first_nonzero nanos (extra # others) =
     (case format_amount_dec nanos extra of
        Some d \<Rightarrow> if dec_coeff d \<noteq> 0 then Some d else first_nonzero nanos others
      | None \<Rightarrow> None)"

definition display_dec :: "int \<Rightarrow> nat \<Rightarrow> dec option" where
  "display_dec nanos places =
     (case format_amount_dec nanos places of
        None \<Rightarrow> None
      | Some rendered \<Rightarrow>
          if nanos = 0 \<or> dec_coeff rendered \<noteq> 0 then Some rendered
          else (case first_nonzero nanos [4, 6, 9] of Some d \<Rightarrow> Some d | None \<Rightarrow> Some rendered))"

definition format_display :: "int \<Rightarrow> string option" where
  "format_display nanos = map_option dec_str (display_dec nanos 2)"

text \<open>An amount within the context's precision can be rendered at any of the places used.\<close>

lemma format_amount_dec_some:
  assumes "nat \<bar>n\<bar> < 10 ^ decimal_precision" and "places \<le> 9"
  shows "\<exists>c. format_amount_dec n places = Some (Dec (n < 0) c (- int places))
           \<and> c = (nat \<bar>n\<bar> + 10 ^ (9 - places) div 2) div 10 ^ (9 - places)"
proof -
  let ?k = "9 - places"
  let ?c = "(nat \<bar>n\<bar> + 10 ^ ?k div 2) div 10 ^ ?k"
  have shift: "- 9 + int places = - int ?k" using assms(2) by simp
  have nat_k: "nat (9 - int places) = ?k" using assms(2) by (simp add: nat_diff_distrib)
  have "?c < 10 ^ decimal_precision"
  proof (cases "?k = 0")
    case True
    then show ?thesis using assms(1) by simp
  next
    case False
    then have "(10::nat) ^ 1 \<le> 10 ^ ?k" by (intro power_increasing) simp_all
    then have ten: "10 \<le> (10::nat) ^ ?k" by simp
    have "?c \<le> (nat \<bar>n\<bar> + 10 ^ ?k) div 10 ^ ?k" by (intro div_le_mono) simp
    also have "\<dots> = nat \<bar>n\<bar> div 10 ^ ?k + 1" by simp
    also have "\<dots> \<le> nat \<bar>n\<bar> div 10 + 1" using ten by (simp add: div_le_mono2)
    also have "\<dots> < 10 ^ decimal_precision" using assms(1) by (simp add: decimal_precision_def)
    finally show ?thesis .
  qed
  moreover have "quantize_half_up (Dec (n < 0) (nat \<bar>n\<bar>) (- 9)) places =
      (if ?c < 10 ^ decimal_precision then Some (Dec (n < 0) ?c (- int places)) else None)"
    using assms(2) by (cases "places = 9") (simp_all add: shift nat_k Let_def)
  moreover have "format_amount_dec n places = quantize_half_up (Dec (n < 0) (nat \<bar>n\<bar>) (- 9)) places"
    using assms(1) by (simp only: format_amount_dec_def from_nanos_def if_True bind.bind_lunit)
  ultimately show ?thesis by simp
qed

text \<open>Nine places are all there are: nothing is rounded away.\<close>

lemma format_amount_dec_nine:
  "nat \<bar>n\<bar> < 10 ^ decimal_precision \<Longrightarrow>
   format_amount_dec n 9 = Some (Dec (n < 0) (nat \<bar>n\<bar>) (- 9))"
  using format_amount_dec_some [of n 9] by simp

lemma first_nonzero_display:
  assumes "nat \<bar>n\<bar> < 10 ^ decimal_precision" and "n \<noteq> 0"
  shows "\<exists>d. first_nonzero n [4, 6, 9] = Some d \<and> dec_coeff d \<noteq> 0 \<and> dec_neg d = (n < 0)"
proof -
  obtain c4 where 4: "format_amount_dec n 4 = Some (Dec (n < 0) c4 (- 4))"
    using format_amount_dec_some [OF assms(1), of 4] by auto
  obtain c6 where 6: "format_amount_dec n 6 = Some (Dec (n < 0) c6 (- 6))"
    using format_amount_dec_some [OF assms(1), of 6] by auto
  show ?thesis
    using assms(2) by (simp add: 4 6 format_amount_dec_nine [OF assms(1)])
qed

section \<open>Properties\<close>

text \<open>
  An amount in nano-units survives the decimal form it crosses service boundaries in: reading
  back what \<open>from_nanos\<close> states gives exactly the amount, for every amount \<open>from_nanos\<close> can state.
\<close>

theorem to_nanos_from_nanos:
  assumes "from_nanos n = Some d"
  shows "to_nanos (Finite d) = Inr n"
proof -
  from assms have d: "d = Dec (n < 0) (nat \<bar>n\<bar>) (- 9)"
    and bound: "nat \<bar>n\<bar> < 10 ^ decimal_precision"
    by (auto simp: from_nanos_def split: if_splits)
  have "quantize_half_up d 9 = Some d" using bound by (simp add: d)
  then show ?thesis by (simp add: to_nanos_def d)
qed

theorem to_nanos_from_nanos_witness:
  "from_nanos (-1500000000) = Some (Dec True 1500000000 (-9))
   \<and> to_nanos (Finite (Dec True 1500000000 (-9))) = Inr (-1500000000)"
proof -
  have h: "from_nanos (-1500000000) = Some (Dec True 1500000000 (-9))"
    by (simp add: from_nanos_def decimal_precision_def)
  then show ?thesis using to_nanos_from_nanos [OF h] by simp
qed

text \<open>
  \<open>format_display\<close> renders every amount of at most 28 digits, and the rendered decimal is zero
  exactly where the amount is: a small amount is never shown as nothing spent.
\<close>

theorem display_zero_only_for_zero:
  assumes "nat \<bar>n\<bar> < 10 ^ decimal_precision"
  shows "\<exists>d. display_dec n 2 = Some d \<and> format_display n = Some (dec_str d)
           \<and> (dec_coeff d = 0 \<longleftrightarrow> n = 0)"
proof -
  obtain c where c: "format_amount_dec n 2 = Some (Dec (n < 0) c (- 2))"
    and c_def: "c = (nat \<bar>n\<bar> + 10 ^ 7 div 2) div 10 ^ 7"
    using format_amount_dec_some [OF assms, of 2] by auto
  show ?thesis
  proof (cases "n = 0")
    case True
    then show ?thesis using c c_def by (simp add: format_display_def display_dec_def)
  next
    case False
    from first_nonzero_display [OF assms False]
    obtain d where "first_nonzero n [4, 6, 9] = Some d" "dec_coeff d \<noteq> 0" by blast
    with False c show ?thesis
      by (cases "c = 0") (simp_all add: format_display_def display_dec_def del: first_nonzero.simps)
  qed
qed

theorem display_zero_only_for_zero_witness:
  "\<exists>d. display_dec 4000000 2 = Some d \<and> format_display 4000000 = Some (dec_str d)
     \<and> (dec_coeff d = 0 \<longleftrightarrow> (4000000::int) = 0)"
  using display_zero_only_for_zero [of 4000000] by (simp add: decimal_precision_def)

text \<open>
  The rendering of an amount below half a millionth of a unit leaves plain notation: one
  nano-unit is shown as \<open>1E-9\<close> and 400 as \<open>4.00E-7\<close>, where 600 is shown as \<open>0.000001\<close>.
\<close>

theorem display_scientific_below_micro:
  "format_display 1 = Some ''1E-9'' \<and> format_display 400 = Some ''4.00E-7''
   \<and> format_display 600 = Some ''0.000001'' \<and> format_display 1234567890 = Some ''1.23''"
  by (intro conjI)
     (simp_all add: format_display_def display_dec_def format_amount_dec_def from_nanos_def
       dec_str_def Let_def show_nat.simps show_int_def digit_def decimal_precision_def)

text \<open>
  A request whose prompt, counted with its cached and cache-written tokens, is longer than the
  catalogue's threshold is priced at the long-context rates for all of its tokens, provided the
  catalogue states both directions of that set; in every other case at the ordinary rates. A model
  without both ordinary prices has no cost at all, which is not the cost zero.
\<close>

theorem priced_by_prompt_length:
  assumes "table model = Some m"
  shows "priced table model (Some u) =
    (case (m_input_price_per_million_nanos m, m_output_price_per_million_nanos m) of
       (Some i, Some o') \<Rightarrow>
         (case (m_long_context_threshold m, m_long_context_input_price_per_million_nanos m,
                m_long_context_output_price_per_million_nanos m) of
            (Some t, Some li, Some lo) \<Rightarrow>
              if prompt_tokens u > t
              then Some (usage_cost \<lparr>input_per_million_nanos = li, output_per_million_nanos = lo,
                cached_input_per_million_nanos = m_long_context_cached_input_price_per_million_nanos m,
                cache_write_per_million_nanos = m_long_context_cache_write_price_per_million_nanos m\<rparr> u)
              else Some (usage_cost \<lparr>input_per_million_nanos = i, output_per_million_nanos = o',
                cached_input_per_million_nanos = m_cached_input_price_per_million_nanos m,
                cache_write_per_million_nanos = m_cache_write_price_per_million_nanos m\<rparr> u)
          | _ \<Rightarrow> Some (usage_cost \<lparr>input_per_million_nanos = i, output_per_million_nanos = o',
                cached_input_per_million_nanos = m_cached_input_price_per_million_nanos m,
                cache_write_per_million_nanos = m_cache_write_price_per_million_nanos m\<rparr> u))
     | _ \<Rightarrow> None)"
  using assms
  by (auto simp: priced_def price_for_def rates_for_def long_context_rates_def rates.defs
      split: option.splits)

definition example_model :: model_read where
  "example_model = \<lparr>m_model = ''m'', m_approved = True, m_display_name = ''M'', m_provider = ''p'',
     m_input_price_per_million_nanos = Some 1000000, m_output_price_per_million_nanos = Some 2000000,
     m_cached_input_price_per_million_nanos = None, m_cache_write_price_per_million_nanos = None,
     m_long_context_threshold = Some 200,
     m_long_context_input_price_per_million_nanos = Some 3000000,
     m_long_context_output_price_per_million_nanos = Some 4000000,
     m_long_context_cached_input_price_per_million_nanos = None,
     m_long_context_cache_write_price_per_million_nanos = None,
     m_capabilities = None, m_publisher = '''', m_platform = '''', m_addressing = None,
     m_underlying_model = '''', m_context_window = None, m_max_output_tokens = None,
     m_default_max_output_tokens = None, m_thinking = None, m_embedding = None,
     m_attachments = None, m_hosting = '''', m_deprecated = False, m_fixed_sampling = False,
     m_default_sampling = None, m_numeric_id = None\<rparr>"

theorem priced_by_prompt_length_witness:
  "priced [''m'' \<mapsto> example_model] ''m'' (Some \<lparr>prompt_tokens = 201, completion_tokens = 10,
      cached_input_tokens = 0, cache_write_tokens = 0, long_cache_write_tokens = 0,
      reasoning_tokens = 0\<rparr>) = Some 643"
  using priced_by_prompt_length [of "[''m'' \<mapsto> example_model]" "''m''" example_model
    "\<lparr>prompt_tokens = 201, completion_tokens = 10,
      cached_input_tokens = 0, cache_write_tokens = 0, long_cache_write_tokens = 0,
      reasoning_tokens = 0\<rparr>"]
  by (simp add: example_model_def usage_cost_def request_cost_nanos_def cost_nanos_def
      uncached_input_tokens_def long_writes_def tokens_per_price_unit_def)

end
