(* ===== verification/Scopes.thy ===== *)
theory Scopes
  imports Read_Models
begin

text \<open>
  Who a budget or a rate limit applies to (\<open>gateway/src/aira_gateway/scopes.py\<close>): the resolved
  scope of a configured row, the keys its counters live under, and \<open>binding\<close>, the hierarchy that
  decides which of the rows of a use case bind a caller. Budgets and rate limits both follow
  \<open>binding\<close> through the interface \<open>scoped_rows\<close>, whose client lemma says that no counter is
  taken from twice on behalf of one caller.
\<close>

section \<open>Scopes and their keys\<close>

definition scope_use_case_word :: string where "scope_use_case_word = ''use_case''"
definition scope_installation_word :: string where "scope_installation_word = ''installation''"
definition scope_each_member_word :: string where "scope_each_member_word = ''each_member''"
definition scope_member_word :: string where "scope_member_word = ''member''"

lemmas scope_words [simp] =
  scope_use_case_word_def scope_installation_word_def scope_each_member_word_def
  scope_member_word_def

definition per_person :: "string \<Rightarrow> bool" where
  "per_person scope = (scope = scope_each_member_word \<or> scope = scope_member_word)"

definition person :: "string option \<Rightarrow> string option \<Rightarrow> string option" where
  "person subject username = (if truthy username then username else subject)"

record scope =
  scope_use_case :: string
  scope_member :: "string option"

definition scope_applying ::
  "string \<Rightarrow> use_case \<Rightarrow> string option \<Rightarrow> string \<Rightarrow> scope option" where
  "scope_applying scope use_case caller named =
     (if scope = scope_installation_word then
        (if use_case = [] then Some \<lparr>scope_use_case = [], scope_member = None\<rparr> else None)
      else if scope = scope_use_case_word then
        Some \<lparr>scope_use_case = use_case, scope_member = None\<rparr>
      else if scope = scope_each_member_word \<and> truthy caller then
        Some \<lparr>scope_use_case = use_case, scope_member = caller\<rparr>
      else if scope = scope_member_word \<and> truthy caller \<and> Some named = caller then
        Some \<lparr>scope_use_case = use_case, scope_member = caller\<rparr>
      else None)"

definition usage_key :: "scope \<Rightarrow> string" where
  "usage_key s =
     (case scope_member s of
        None \<Rightarrow> if scope_use_case s = [] then ''installation:'' else ''uc:'' @ scope_use_case s
      | Some m \<Rightarrow> ''member:'' @ scope_use_case s @ '':'' @ m)"

definition bucket_key :: "scope \<Rightarrow> string" where
  "bucket_key s =
     (case scope_member s of
        None \<Rightarrow>
          if scope_use_case s = [] then ''rl:{installation}:all''
          else ''rl:{'' @ scope_use_case s @ ''}'' @ '':uc''
      | Some m \<Rightarrow> ''rl:{'' @ scope_use_case s @ ''}'' @ '':member:'' @ m)"

definition scope_label :: "scope \<Rightarrow> string" where
  "scope_label s =
     (case scope_member s of
        None \<Rightarrow> if scope_use_case s = [] then ''installation'' else ''use case''
      | Some m \<Rightarrow> ''member'')"

section \<open>The hierarchy\<close>

text \<open>What \<open>binding\<close> reads of a configured row: the protocol \<open>ScopedRow\<close>.\<close>

record scoped_row =
  sr_scope :: string
  sr_use_case :: string
  sr_subject :: string
  sr_enabled :: bool

definition applies :: "string option \<Rightarrow> scoped_row \<Rightarrow> bool" where
  "applies caller row =
     (scope_applying (sr_scope row) (sr_use_case row) caller (sr_subject row) \<noteq> None)"

definition precedence :: "scoped_row \<Rightarrow> bool \<times> bool" where
  "precedence row = (sr_enabled row, sr_scope row = scope_member_word)"

text \<open>
  The dictionary \<open>chosen\<close>: per slot, the row held so far. The source compares rows by identity
  (\<open>is\<close>), so the model numbers them and compares the numbers.
\<close>

definition choose_step ::
  "('r \<Rightarrow> scoped_row) \<Rightarrow> ('r \<Rightarrow> 's) \<Rightarrow> ('s \<Rightarrow> (nat \<times> 'r) option) \<Rightarrow> nat \<times> 'r
     \<Rightarrow> ('s \<Rightarrow> (nat \<times> 'r) option)" where
  "choose_step view slot chosen = (\<lambda>(i, row).
     if \<not> per_person (sr_scope (view row)) then chosen
     else
       (case chosen (slot row) of
          None \<Rightarrow> chosen(slot row \<mapsto> (i, row))
        | Some (_, held) \<Rightarrow>
            if precedence (view row) > precedence (view held)
            then chosen(slot row \<mapsto> (i, row))
            else chosen))"

definition applying_rows ::
  "('r \<Rightarrow> scoped_row) \<Rightarrow> string option \<Rightarrow> 'r list \<Rightarrow> (nat \<times> 'r) list" where
  "applying_rows view caller rows =
     List.filter (\<lambda>(_, row). applies caller (view row)) (List.enumerate 0 rows)"

definition binding ::
  "('r \<Rightarrow> scoped_row) \<Rightarrow> ('r \<Rightarrow> 's) \<Rightarrow> string option \<Rightarrow> 'r list \<Rightarrow> 'r list" where
  "binding view slot caller rows =
     (let applying = applying_rows view caller rows;
          chosen = foldl (choose_step view slot) Map.empty applying
      in map snd (List.filter
           (\<lambda>(i, row). \<not> per_person (sr_scope (view row))
              \<or> map_option fst (chosen (slot row)) = Some i) applying))"

lemma precedence_leD:
  assumes "precedence a \<le> precedence b"
  shows "(sr_enabled a \<longrightarrow> sr_enabled b) \<and>
    (sr_enabled a \<and> sr_scope a = ''member'' \<longrightarrow> sr_scope b = ''member'')"
  using assms by (cases "sr_enabled a"; cases "sr_enabled b")
    (simp_all add: precedence_def less_eq_prod_def)

section \<open>What the hierarchy guarantees\<close>

text \<open>
  The invariant of the loop over \<open>applying\<close>: each slot holds one of the rows seen, of that slot,
  with no lower precedence than any other seen.
\<close>

definition chosen_ok ::
  "('r \<Rightarrow> scoped_row) \<Rightarrow> ('r \<Rightarrow> 's) \<Rightarrow> (nat \<times> 'r) set \<Rightarrow> ('s \<Rightarrow> (nat \<times> 'r) option) \<Rightarrow> bool" where
  "chosen_ok view slot seen chosen \<longleftrightarrow>
     (\<forall>s i r. chosen s = Some (i, r) \<longrightarrow>
        (i, r) \<in> seen \<and> slot r = s \<and> per_person (sr_scope (view r))) \<and>
     (\<forall>(i, r) \<in> seen. per_person (sr_scope (view r)) \<longrightarrow>
        (\<exists>j held. chosen (slot r) = Some (j, held) \<and> precedence (view r) \<le> precedence (view held)))"

lemma chosen_okD:
  "chosen_ok view slot seen chosen \<Longrightarrow> chosen s = Some (i, r) \<Longrightarrow>
     (i, r) \<in> seen \<and> slot r = s \<and> per_person (sr_scope (view r))"
  by (simp add: chosen_ok_def)

lemma chosen_ok_heldE:
  assumes "chosen_ok view slot seen chosen" "(i, r) \<in> seen" "per_person (sr_scope (view r))"
  obtains j held where "chosen (slot r) = Some (j, held)"
    "precedence (view r) \<le> precedence (view held)"
  using assms by (fastforce simp: chosen_ok_def)

lemma chosen_ok_replace:
  assumes ok: "chosen_ok view slot seen chosen" and pp: "per_person (sr_scope (view row))"
    and higher: "\<And>j held. chosen (slot row) = Some (j, held) \<Longrightarrow>
      precedence (view held) \<le> precedence (view row)"
  shows "chosen_ok view slot (insert (i, row) seen) (chosen(slot row \<mapsto> (i, row)))"
  unfolding chosen_ok_def
proof (intro conjI allI impI ballI)
  fix s j r
  assume "(chosen(slot row \<mapsto> (i, row))) s = Some (j, r)"
  then show "(j, r) \<in> insert (i, row) seen" "slot r = s" "per_person (sr_scope (view r))"
    using chosen_okD [OF ok] pp by (auto split: if_splits)
next
  fix x assume x: "x \<in> insert (i, row) seen"
  obtain j r where xr: "x = (j, r)" by (cases x)
  show "case x of (j, r) \<Rightarrow> per_person (sr_scope (view r)) \<longrightarrow>
    (\<exists>j held. (chosen(slot row \<mapsto> (i, row))) (slot r) = Some (j, held)
       \<and> precedence (view r) \<le> precedence (view held))"
  proof (cases "(j, r) \<in> seen \<and> per_person (sr_scope (view r))")
    case True
    then obtain k held where "chosen (slot r) = Some (k, held)"
      "precedence (view r) \<le> precedence (view held)"
      using chosen_ok_heldE [OF ok, of j r] by blast
    then show ?thesis using higher by (auto simp: xr intro: order_trans)
  next
    case False
    with x show ?thesis by (auto simp: xr)
  qed
qed

lemma choose_step_ok:
  assumes ok: "chosen_ok view slot seen chosen"
  shows "chosen_ok view slot (insert p seen) (choose_step view slot chosen p)"
proof -
  obtain i row where p: "p = (i, row)" by (cases p)
  show ?thesis
  proof (cases "per_person (sr_scope (view row))")
    case False
    with ok show ?thesis by (auto simp: p choose_step_def chosen_ok_def)
  next
    case pp: True
    show ?thesis
    proof (cases "\<exists>j held. chosen (slot row) = Some (j, held)
        \<and> precedence (view row) \<le> precedence (view held)")
      case True
      with ok pp show ?thesis
        by (auto simp: p choose_step_def chosen_ok_def split: option.splits)
    next
      case False
      with pp have "choose_step view slot chosen p = chosen(slot row \<mapsto> (i, row))"
        by (auto simp: p choose_step_def not_le split: option.splits)
      with False show ?thesis
        using chosen_ok_replace [OF ok pp, of i] by (force simp: p not_le)
    qed
  qed
qed

lemma foldl_choose_ok:
  "chosen_ok view slot seen chosen \<Longrightarrow>
   chosen_ok view slot (seen \<union> set rows) (foldl (choose_step view slot) chosen rows)"
proof (induction rows arbitrary: seen chosen)
  case Nil
  then show ?case by simp
next
  case (Cons r rows)
  from Cons.IH [OF choose_step_ok [OF Cons.prems, of r]] show ?case by simp
qed

lemma chosen_ok_binding:
  "chosen_ok view slot (set (applying_rows view caller rows))
     (foldl (choose_step view slot) Map.empty (applying_rows view caller rows))"
  using foldl_choose_ok [of view slot "{}" Map.empty] by (simp add: chosen_ok_def)

lemma distinct_map_const_length:
  assumes "distinct (map f xs)" "\<forall>x \<in> set xs. f x = c"
  shows "length xs \<le> 1"
proof (cases xs)
  case (Cons x ys)
  with assms show ?thesis by (cases ys) auto
qed simp

text \<open>The rows with their numbers, which \<open>binding\<close> then forgets.\<close>

definition bound_rows ::
  "('r \<Rightarrow> scoped_row) \<Rightarrow> ('r \<Rightarrow> 's) \<Rightarrow> string option \<Rightarrow> 'r list \<Rightarrow> (nat \<times> 'r) list" where
  "bound_rows view slot caller rows =
     List.filter (\<lambda>(i, row). \<not> per_person (sr_scope (view row))
       \<or> map_option fst (foldl (choose_step view slot) Map.empty
            (applying_rows view caller rows) (slot row)) = Some i)
       (applying_rows view caller rows)"

lemma binding_bound_rows: "binding view slot caller rows = map snd (bound_rows view slot caller rows)"
  by (simp add: binding_def bound_rows_def Let_def)

lemma distinct_applying_rows: "distinct (map fst (applying_rows view caller rows))"
  unfolding applying_rows_def by (rule distinct_map_filter) simp

lemma distinct_mapD: "distinct (map f xs) \<Longrightarrow> distinct xs"
  by (simp add: distinct_map)

lemma applying_rows_iff:
  "(i, r) \<in> set (applying_rows view caller rows) \<longleftrightarrow>
     i < length rows \<and> rows ! i = r \<and> applies caller (view r)"
  by (auto simp: applying_rows_def in_set_enumerate_eq)

lemma applying_rows_ex:
  assumes "r \<in> set rows" "applies caller (view r)"
  shows "\<exists>j. (j, r) \<in> set (applying_rows view caller rows)"
  using assms unfolding applying_rows_iff by (metis in_set_conv_nth)

lemma binding_subset:
  "r \<in> set (binding view slot caller rows) \<Longrightarrow> r \<in> set rows \<and> applies caller (view r)"
  by (auto simp: binding_bound_rows bound_rows_def applying_rows_iff)

lemma binding_shared:
  assumes "r \<in> set rows" "applies caller (view r)" "\<not> per_person (sr_scope (view r))"
  shows "r \<in> set (binding view slot caller rows)"
proof -
  from assms(1) obtain i where "i < length rows" "rows ! i = r" by (auto simp: in_set_conv_nth)
  with assms have "(i, r) \<in> set (bound_rows view slot caller rows)"
    by (simp add: bound_rows_def applying_rows_iff)
  then show ?thesis by (force simp: binding_bound_rows)
qed

text \<open>Per slot, one per-person row is bound: the one no applying row of the slot outranks.\<close>

lemma bound_rows_per_person:
  assumes "(i, r) \<in> set (bound_rows view slot caller rows)" "per_person (sr_scope (view r))"
  shows "foldl (choose_step view slot) Map.empty (applying_rows view caller rows) (slot r)
    = Some (i, r)"
proof -
  let ?app = "applying_rows view caller rows"
  let ?ch = "foldl (choose_step view slot) Map.empty ?app"
  from assms obtain q where "?ch (slot r) = Some (i, q)" and i: "(i, r) \<in> set ?app"
    by (auto simp: bound_rows_def)
  moreover from chosen_okD [OF chosen_ok_binding this(1)] have "(i, q) \<in> set ?app" by blast
  ultimately show ?thesis by (auto simp: applying_rows_iff)
qed

lemma binding_per_person_top:
  assumes "r \<in> set (binding view slot caller rows)" "per_person (sr_scope (view r))"
    and "r' \<in> set rows" "applies caller (view r')" "per_person (sr_scope (view r'))"
    and "slot r' = slot r"
  shows "precedence (view r') \<le> precedence (view r)"
proof -
  let ?app = "applying_rows view caller rows"
  from assms(1) obtain i where "(i, r) \<in> set (bound_rows view slot caller rows)"
    by (auto simp: binding_bound_rows)
  from bound_rows_per_person [OF this assms(2)]
  have ch: "foldl (choose_step view slot) Map.empty ?app (slot r) = Some (i, r)" .
  have "\<exists>j. (j, r') \<in> set ?app" using assms(3,4) by (rule applying_rows_ex)
  then obtain j where "(j, r') \<in> set ?app" by blast
  from chosen_ok_heldE [OF chosen_ok_binding this assms(5)]
  obtain k held where "foldl (choose_step view slot) Map.empty ?app (slot r') = Some (k, held)"
    and "precedence (view r') \<le> precedence (view held)" .
  with ch assms(6) show ?thesis by simp
qed

lemma binding_covers_slot:
  assumes "r' \<in> set rows" "applies caller (view r')" "per_person (sr_scope (view r'))"
  shows "\<exists>r \<in> set (binding view slot caller rows).
    per_person (sr_scope (view r)) \<and> slot r = slot r' \<and> precedence (view r') \<le> precedence (view r)"
proof -
  let ?app = "applying_rows view caller rows"
  let ?ch = "foldl (choose_step view slot) Map.empty ?app"
  have "\<exists>j. (j, r') \<in> set ?app" using assms(1,2) by (rule applying_rows_ex)
  then obtain j where j: "(j, r') \<in> set ?app" by blast
  from chosen_ok_heldE [OF chosen_ok_binding j assms(3)]
  obtain i r where held: "?ch (slot r') = Some (i, r)"
    and prec: "precedence (view r') \<le> precedence (view r)" by blast
  from chosen_okD [OF chosen_ok_binding held]
  have r: "(i, r) \<in> set ?app" "slot r = slot r'" "per_person (sr_scope (view r))" by auto
  with held have "(i, r) \<in> set (bound_rows view slot caller rows)"
    by (simp add: bound_rows_def)
  then have "r \<in> set (binding view slot caller rows)" by (force simp: binding_bound_rows)
  with r prec show ?thesis by blast
qed

lemma bound_slots_distinct:
  "distinct (map (\<lambda>p. slot (snd p))
     (List.filter (\<lambda>p. per_person (sr_scope (view (snd p)))) (bound_rows view slot caller rows)))"
proof -
  let ?bound = "List.filter (\<lambda>p. per_person (sr_scope (view (snd p)))) (bound_rows view slot caller rows)"
  let ?ch = "foldl (choose_step view slot) Map.empty (applying_rows view caller rows)"
  have "distinct (applying_rows view caller rows)"
    using distinct_applying_rows by (rule distinct_mapD)
  then have "distinct ?bound" by (simp add: bound_rows_def)
  moreover have "inj_on (\<lambda>p. slot (snd p)) (set ?bound)"
  proof (rule inj_onI)
    fix x y assume x: "x \<in> set ?bound" and y: "y \<in> set ?bound" and eq: "slot (snd x) = slot (snd y)"
    from x have "?ch (slot (snd x)) = Some (fst x, snd x)" by (intro bound_rows_per_person) auto
    moreover from y have "?ch (slot (snd y)) = Some (fst y, snd y)"
      by (intro bound_rows_per_person) auto
    ultimately show "x = y" using eq by (metis option.inject prod.collapse)
  qed
  ultimately show ?thesis by (simp add: distinct_map)
qed

lemma binding_slots_distinct:
  "distinct (map slot (List.filter (\<lambda>r. per_person (sr_scope (view r)))
     (binding view slot caller rows)))"
  using bound_slots_distinct [of slot view caller rows]
  by (simp add: binding_bound_rows filter_map comp_def)

section \<open>The interface the hierarchy is used through\<close>

text \<open>
  A kind of configured row, as the budgets and the rate limiter hold them: how its scope columns
  are read, the slot a per-person row holds, and the counter a row is kept under for a caller. The
  law: per-person rows of one use case that hold different slots keep different counters. The
  client gets that no counter is taken from twice on one caller's behalf.
\<close>

locale scoped_rows =
  fixes view :: "'r \<Rightarrow> scoped_row"
    and slot :: "'r \<Rightarrow> 's"
    and counter :: "string option \<Rightarrow> 'r \<Rightarrow> 'k"
    and valid :: "'r \<Rightarrow> bool"
  assumes slot_counter:
    "valid r \<Longrightarrow> valid r' \<Longrightarrow> per_person (sr_scope (view r)) \<Longrightarrow> per_person (sr_scope (view r')) \<Longrightarrow>
     applies caller (view r) \<Longrightarrow> applies caller (view r') \<Longrightarrow>
     sr_use_case (view r) = sr_use_case (view r') \<Longrightarrow>
     counter caller r = counter caller r' \<Longrightarrow> slot r = slot r'"
begin

abbreviation bound :: "string option \<Rightarrow> 'r list \<Rightarrow> 'r list" where
  "bound caller rows \<equiv> binding view slot caller rows"

lemma personal_counters_distinct:
  assumes "\<forall>r \<in> set rows. valid r \<and> sr_use_case (view r) = u"
  shows "distinct (map (counter caller)
    (List.filter (\<lambda>r. per_person (sr_scope (view r))) (bound caller rows)))"
proof -
  let ?p = "List.filter (\<lambda>r. per_person (sr_scope (view r))) (bound caller rows)"
  have slots: "distinct (map slot ?p)" by (rule binding_slots_distinct)
  then have "distinct ?p" by (rule distinct_mapD)
  moreover have "inj_on (counter caller) (set ?p)"
  proof (rule inj_onI)
    fix r r' assume r: "r \<in> set ?p" and r': "r' \<in> set ?p" and eq: "counter caller r = counter caller r'"
    from r r' binding_subset [of r view slot caller rows] binding_subset [of r' view slot caller rows]
    have "r \<in> set rows" "r' \<in> set rows" "applies caller (view r)" "applies caller (view r')"
      and "per_person (sr_scope (view r))" "per_person (sr_scope (view r'))" by auto
    with assms eq have "slot r = slot r'" by (intro slot_counter) auto
    with slots r r' show "r = r'" by (auto simp: distinct_map dest: inj_onD)
  qed
  ultimately show ?thesis by (simp add: distinct_map)
qed

end

section \<open>Keys\<close>

lemma uc_prefix_neq: "''uc:'' @ x \<noteq> ''member:'' @ y" "''uc:'' @ x \<noteq> ''installation:''"
  "''member:'' @ y \<noteq> ''installation:''"
  by simp_all

lemma split_at_colon:
  assumes "CHR '':'' \<notin> set u" "CHR '':'' \<notin> set u'" "u @ '':'' @ m = u' @ '':'' @ m'"
  shows "u = u' \<and> m = m'"
  using assms
proof (induction u arbitrary: u')
  case Nil
  then show ?case by (cases u') auto
next
  case (Cons c u)
  then show ?case by (cases u') auto
qed

section \<open>Properties\<close>

text \<open>
  The counters of different scopes are different keys of \<open>budget_usage\<close>, for use case slugs
  without a colon: no budget can read or be charged another scope's consumption, and the sweep of a
  retired use case's counters cannot reach the installation's.
\<close>

theorem usage_key_inj:
  assumes "CHR '':'' \<notin> set (scope_use_case s)" and "CHR '':'' \<notin> set (scope_use_case t)"
    and "usage_key s = usage_key t"
  shows "s = t"
proof (cases "scope_member s")
  case None
  note sNone = None
  show ?thesis
  proof (cases "scope_member t")
    case None
    with sNone assms(3) show ?thesis
      by (cases s; cases t) (auto simp: usage_key_def split: if_splits)
  next
    case (Some m)
    with sNone assms(3) show ?thesis by (simp add: usage_key_def split: if_splits)
  qed
next
  case (Some m)
  note sSome = Some
  show ?thesis
  proof (cases "scope_member t")
    case None
    with sSome assms(3) show ?thesis by (simp add: usage_key_def split: if_splits)
  next
    case (Some m')
    with sSome assms have "scope_use_case s = scope_use_case t \<and> m = m'"
      by (intro split_at_colon) (simp_all add: usage_key_def)
    with Some sSome show ?thesis by (cases s; cases t) simp
  qed
qed

theorem usage_key_inj_witness:
  "usage_key \<lparr>scope_use_case = ''hr'', scope_member = Some ''a:b''\<rparr> = ''member:hr:a:b''
   \<and> \<lparr>scope_use_case = ''hr'', scope_member = Some ''a:b''\<rparr>
     = \<lparr>scope_use_case = ''hr'', scope_member = Some (''a'' @ '':b'')\<rparr>"
  using usage_key_inj [of "\<lparr>scope_use_case = ''hr'', scope_member = Some ''a:b''\<rparr>"
      "\<lparr>scope_use_case = ''hr'', scope_member = Some (''a'' @ '':b'')\<rparr>"]
  by (simp add: usage_key_def)

text \<open>
  A row that is not counted per person binds every caller it applies to, whatever other rows
  there are: nobody's own budget takes them out of the use case's shared pot.
\<close>

theorem shared_rows_always_bind:
  "set (List.filter (\<lambda>r. \<not> per_person (sr_scope (view r))) (binding view slot caller rows))
   = {r \<in> set rows. \<not> per_person (sr_scope (view r)) \<and> applies caller (view r)}"
  using binding_subset binding_shared by fastforce

text \<open>
  C28: Of the per-person rows of one slot, exactly one binds a caller any of them applies to, and
  it is one no other outranks: a row that is on before one that is off, a person's own before the
  one for everybody. So a person's own budget replaces the one for everybody while it is on, and
  one switched off hands them back to the one for everybody, never to no limit at all.
\<close>

theorem one_row_per_slot:
  assumes "r' \<in> set rows" and "applies caller (view r')" and "per_person (sr_scope (view r'))"
  shows "\<exists>r. List.filter (\<lambda>q. per_person (sr_scope (view q)) \<and> slot q = slot r')
               (binding view slot caller rows) = [r]
    \<and> (sr_enabled (view r') \<longrightarrow> sr_enabled (view r))
    \<and> (sr_enabled (view r') \<and> sr_scope (view r') = ''member'' \<longrightarrow> sr_scope (view r) = ''member'')"
proof -
  let ?f = "List.filter (\<lambda>q. per_person (sr_scope (view q)) \<and> slot q = slot r')
               (binding view slot caller rows)"
  have "\<exists>r \<in> set (binding view slot caller rows). per_person (sr_scope (view r))
      \<and> slot r = slot r' \<and> precedence (view r') \<le> precedence (view r)"
    using assms by (rule binding_covers_slot)
  then obtain r where r: "r \<in> set ?f"
    and prec: "precedence (view r') \<le> precedence (view r)" by auto
  have "distinct (map slot ?f)"
    using distinct_map_filter [OF binding_slots_distinct [of slot view caller rows],
        of "\<lambda>q. slot q = slot r'"] by (simp add: conj_commute)
  moreover have "\<forall>q \<in> set ?f. slot q = slot r'" by auto
  ultimately have "length ?f \<le> 1" by (rule distinct_map_const_length)
  with r have "?f = [r]" by (cases ?f) (auto simp: le_Suc_eq)
  with precedence_leD [OF prec] show ?thesis by (intro exI [of _ r] conjI) simp_all
qed

theorem one_row_per_slot_witness:
  "let everybody = \<lparr>sr_scope = ''each_member'', sr_use_case = ''hr'', sr_subject = '''', sr_enabled = True\<rparr>;
       own = \<lparr>sr_scope = ''member'', sr_use_case = ''hr'', sr_subject = ''ada'', sr_enabled = True\<rparr>;
       bound = binding id (\<lambda>_. ()) (Some ''ada'') [everybody, own]
   in (\<exists>r. List.filter (\<lambda>q. per_person (sr_scope q)) bound = [r] \<and> sr_scope r = ''member'')
      \<and> bound = [own]"
proof -
  let ?everybody = "\<lparr>sr_scope = ''each_member'', sr_use_case = ''hr'', sr_subject = '''', sr_enabled = True\<rparr>"
  let ?own = "\<lparr>sr_scope = ''member'', sr_use_case = ''hr'', sr_subject = ''ada'', sr_enabled = True\<rparr>"
  have "applies (Some ''ada'') ?own" by (simp add: applies_def scope_applying_def)
  then have "\<exists>r. List.filter (\<lambda>q. per_person (sr_scope q)) (binding id (\<lambda>_. ()) (Some ''ada'') [?everybody, ?own]) = [r]
      \<and> sr_scope r = ''member''"
    using one_row_per_slot [of ?own "[?everybody, ?own]" "Some ''ada''" id "\<lambda>_. ()"]
    by (auto simp: per_person_def)
  moreover have "binding id (\<lambda>_. ()) (Some ''ada'') [?everybody, ?own] = [?own]" by code_simp
  ultimately show ?thesis by (simp add: Let_def)
qed

end
