(* ===== verification/Ledger.thy ===== *)
theory Ledger
  imports Scopes "HOL-Library.AList"
begin

text \<open>
  The shared counters a budget reserves against (\<open>gateway/src/aira_gateway/budgets/ledger.py\<close>):
  the two Lua scripts as functions of the store they run on, one counter hash per key and beside
  it the hash of the reservations still open, each with the moment it expires. A script is one
  indivisible step, so a function of the store is what it is.

  The store is Redis; what the scripts use of it is its documented behaviour: a key past its
  expiry is absent, a fresh hash has no expiry, \<open>HDEL\<close> of the last field removes the key. Counters
  are integers: Redis increments 64-bit integers exactly, and the amounts a request can move are
  bounded far below that (\<open>MAX_ACCOUNTABLE_TOKENS\<close>). An open entry travels as the text
  \<open>deadline:tokens:requests:cost\<close> and is read back by the pattern that matches exactly what was
  written, so the model keeps its four numbers.

  The lemmas show what each script does on every branch; the theorems, that a counter is what was
  settled plus what is in flight, through reservations, settlements, releases, expiry and rebuild.
\<close>

section \<open>Amounts\<close>

datatype amounts = Amounts (a_tokens: int) (a_requests: int) (a_cost: int)

instantiation amounts :: ab_group_add
begin

definition zero_amounts :: amounts where
  "0 = Amounts 0 0 0"

definition plus_amounts :: "amounts \<Rightarrow> amounts \<Rightarrow> amounts" where
  "x + y = Amounts (a_tokens x + a_tokens y) (a_requests x + a_requests y) (a_cost x + a_cost y)"

definition uminus_amounts :: "amounts \<Rightarrow> amounts" where
  "- x = Amounts (- a_tokens x) (- a_requests x) (- a_cost x)"

definition minus_amounts :: "amounts \<Rightarrow> amounts \<Rightarrow> amounts" where
  "x - y = Amounts (a_tokens x - a_tokens y) (a_requests x - a_requests y) (a_cost x - a_cost y)"

instance
  by standard
    (simp_all add: zero_amounts_def plus_amounts_def uminus_amounts_def minus_amounts_def)

end

lemma amounts_sel [simp, amounts_simps]:
  "a_tokens 0 = 0" "a_requests 0 = 0" "a_cost 0 = 0"
  "a_tokens (x + y) = a_tokens x + a_tokens y"
  "a_requests (x + y) = a_requests x + a_requests y"
  "a_cost (x + y) = a_cost x + a_cost y"
  "a_tokens (x - y) = a_tokens x - a_tokens y"
  "a_requests (x - y) = a_requests x - a_requests y"
  "a_cost (x - y) = a_cost x - a_cost y"
  "a_tokens (- x) = - a_tokens x"
  "a_requests (- x) = - a_requests x"
  "a_cost (- x) = - a_cost x"
  by (simp_all add: zero_amounts_def plus_amounts_def uminus_amounts_def minus_amounts_def)

lemma amounts_eqI:
  "a_tokens x = a_tokens y \<Longrightarrow> a_requests x = a_requests y \<Longrightarrow> a_cost x = a_cost y \<Longrightarrow> x = y"
  by (cases x; cases y) simp

definition nonneg :: "amounts \<Rightarrow> bool" where
  "nonneg x = (0 \<le> a_tokens x \<and> 0 \<le> a_requests x \<and> 0 \<le> a_cost x)"

definition clamp :: "amounts \<Rightarrow> amounts" where
  "clamp x = Amounts (max 0 (a_tokens x)) (max 0 (a_requests x)) (max 0 (a_cost x))"

lemma clamp_nonneg [simp]: "nonneg x \<Longrightarrow> clamp x = x"
  by (cases x) (simp add: clamp_def nonneg_def)

lemma nonneg_clamp [simp]: "nonneg (clamp x)"
  by (simp add: clamp_def nonneg_def)

lemma nonneg_add [intro]: "nonneg x \<Longrightarrow> nonneg y \<Longrightarrow> nonneg (x + y)"
  by (simp add: nonneg_def)

lemma nonneg_zero [simp]: "nonneg 0"
  by (simp add: nonneg_def)

definition negated :: "amounts \<Rightarrow> amounts" where
  "negated x = Amounts (- a_tokens x) (- a_requests x) (- a_cost x)"

lemma negated_uminus [simp]: "negated x = - x"
  by (simp add: negated_def uminus_amounts_def)

record limits =
  lim_tokens :: "int option"
  lim_requests :: "int option"
  lim_cost_nanos :: "int option"

definition no_limit :: int where
  "no_limit = -1"

definition cap :: "int option \<Rightarrow> int" where
  "cap limit = (case limit of None \<Rightarrow> no_limit | Some l \<Rightarrow> max 0 l)"

definition counter_ttl_seconds :: int where
  "counter_ttl_seconds = 300"

definition reservation_lifetime_seconds :: int where
  "reservation_lifetime_seconds = 3600"

section \<open>The store\<close>

record counter_hash =
  c_value :: amounts
  c_expires :: "int option"

record open_entry =
  e_deadline :: int
  e_amounts :: amounts

record open_hash =
  o_entries :: "(string \<times> open_entry) list"
  o_expires :: "int option"

record ledger =
  counters :: "string \<Rightarrow> counter_hash option"
  opens :: "string \<Rightarrow> open_hash option"

definition alive :: "int \<Rightarrow> int option \<Rightarrow> bool" where
  "alive clock expires = (case expires of None \<Rightarrow> True | Some t \<Rightarrow> clock < t)"

definition ledger_key :: "string \<Rightarrow> string \<Rightarrow> string" where
  "ledger_key scope_key period_key = ''budget:'' @ scope_key @ '':'' @ period_key"

definition open_key :: "string \<Rightarrow> string \<Rightarrow> string" where
  "open_key scope_key period_key = ''budget:'' @ scope_key @ '':'' @ period_key @ '':open''"

definition counter_at :: "int \<Rightarrow> ledger \<Rightarrow> string \<Rightarrow> counter_hash option" where
  "counter_at clock L key =
     (case counters L key of
        Some c \<Rightarrow> if alive clock (c_expires c) then Some c else None
      | None \<Rightarrow> None)"

definition open_at :: "int \<Rightarrow> ledger \<Rightarrow> string \<Rightarrow> (string \<times> open_entry) list" where
  "open_at clock L okey =
     (case opens L okey of
        Some h \<Rightarrow> if alive clock (o_expires h) then o_entries h else []
      | None \<Rightarrow> [])"

section \<open>The reserve script\<close>

definition still_open :: "int \<Rightarrow> (string \<times> open_entry) list \<Rightarrow> (string \<times> open_entry) list" where
  "still_open now entries = List.filter (\<lambda>(_, e). e_deadline e > now) entries"

definition open_total :: "(string \<times> open_entry) list \<Rightarrow> amounts" where
  "open_total entries = sum_list (map (\<lambda>(_, e). e_amounts e) entries)"

definition with_entries ::
  "string \<Rightarrow> (string \<times> open_entry) list \<Rightarrow> ledger \<Rightarrow> ledger" where
  \<comment> \<open>what \<open>HDEL\<close> leaves: the hash with fewer fields, or no key at all\<close>
  "with_entries okey entries L =
     L\<lparr>opens := (opens L)(okey :=
        (if entries = [] then None
         else map_option (\<lambda>h. h\<lparr>o_entries := entries\<rparr>) (opens L okey)))\<rparr>"

definition rebuild :: "int \<Rightarrow> string \<Rightarrow> string \<Rightarrow> amounts \<Rightarrow> int \<Rightarrow> ledger \<Rightarrow> ledger" where
  "rebuild clock key okey seed now L =
     (case counter_at clock L key of
        Some _ \<Rightarrow> L
      | None \<Rightarrow>
          let entries = open_at clock L okey;
              kept = still_open now entries
          in with_entries okey kept
               (L\<lparr>counters := (counters L)(key \<mapsto>
                   \<lparr>c_value = seed + open_total kept, c_expires = None\<rparr>)\<rparr>))"

definition give_expiry :: "int \<Rightarrow> string \<Rightarrow> ledger \<Rightarrow> ledger" where
  "give_expiry clock key L =
     (case counters L key of
        Some c \<Rightarrow>
          if c_expires c = None
          then L\<lparr>counters := (counters L)(key \<mapsto>
                  c\<lparr>c_expires := Some (clock + counter_ttl_seconds)\<rparr>)\<rparr>
          else L
      | None \<Rightarrow> L)"

definition breached :: "limits \<Rightarrow> amounts \<Rightarrow> string option" where
  "breached lims current =
     (if 0 \<le> cap (lim_cost_nanos lims) \<and> cap (lim_cost_nanos lims) \<le> a_cost current
      then Some ''cost''
      else if 0 \<le> cap (lim_requests lims) \<and> cap (lim_requests lims) \<le> a_requests current
      then Some ''requests''
      else if 0 \<le> cap (lim_tokens lims) \<and> cap (lim_tokens lims) \<le> a_tokens current
      then Some ''tokens''
      else None)"

definition add_to_counter :: "string \<Rightarrow> amounts \<Rightarrow> ledger \<Rightarrow> ledger" where
  "add_to_counter key amounts L =
     L\<lparr>counters := (counters L)(key :=
        map_option (\<lambda>c. c\<lparr>c_value := c_value c + amounts\<rparr>) (counters L key))\<rparr>"

definition open_reservation ::
  "int \<Rightarrow> string \<Rightarrow> string \<Rightarrow> open_entry \<Rightarrow> ledger \<Rightarrow> ledger" where
  "open_reservation clock okey ident entry L =
     (if ident = [] then L
      else L\<lparr>opens := (opens L)(okey \<mapsto>
             \<lparr>o_entries = AList.update ident entry (open_at clock L okey),
              o_expires = Some (clock + reservation_lifetime_seconds)\<rparr>)\<rparr>)"

text \<open>
  \<open>reserve\<close>. \<open>clock\<close> is Redis' own clock in seconds, \<open>now\<close> the reserving moment the caller names (\<open>at\<close> in the source).
  Returns the breached dimension, or \<open>None\<close> where the reservation was made.
\<close>

definition reserve ::
  "int \<Rightarrow> string \<Rightarrow> string \<Rightarrow> limits \<Rightarrow> amounts \<Rightarrow> amounts \<Rightarrow> string \<Rightarrow> int \<Rightarrow> ledger
     \<Rightarrow> string option \<times> ledger" where
  "reserve clock scope_key period_key lims amounts seed ident now L =
     (let key = ledger_key scope_key period_key;
          okey = open_key scope_key period_key;
          entry = \<lparr>e_deadline = now + reservation_lifetime_seconds, e_amounts = amounts\<rparr>;
          L1 = give_expiry clock key (rebuild clock key okey seed now L);
          current = (case counters L1 key of Some c \<Rightarrow> c_value c | None \<Rightarrow> 0)
      in case breached lims current of
           Some dimension \<Rightarrow> (Some dimension, L1)
         | None \<Rightarrow> (None, open_reservation clock okey ident entry (add_to_counter key amounts L1)))"

section \<open>The adjust script\<close>

definition close_reservation :: "int \<Rightarrow> string \<Rightarrow> string \<Rightarrow> ledger \<Rightarrow> ledger" where
  "close_reservation clock okey ident L =
     (if ident = [] then L
      else with_entries okey (AList.delete ident (open_at clock L okey)) L)"

definition adjust ::
  "int \<Rightarrow> string \<Rightarrow> string \<Rightarrow> amounts \<Rightarrow> string \<Rightarrow> ledger \<Rightarrow> ledger" where
  "adjust clock scope_key period_key amounts ident L =
     (let key = ledger_key scope_key period_key;
          okey = open_key scope_key period_key;
          L1 = close_reservation clock okey ident L
      in case counter_at clock L1 key of
           None \<Rightarrow> L1
         | Some c \<Rightarrow>
             give_expiry clock key
               (L1\<lparr>counters := (counters L1)(key \<mapsto>
                    c\<lparr>c_value := clamp (c_value c + amounts)\<rparr>)\<rparr>))"

section \<open>What the scripts do to one counter\<close>

text \<open>The abstract view of one counter: what it holds, and what is in flight beside it.\<close>

definition held :: "int \<Rightarrow> ledger \<Rightarrow> string \<Rightarrow> string \<Rightarrow> amounts option" where
  "held clock L sk pk = map_option c_value (counter_at clock L (ledger_key sk pk))"

definition in_flight :: "int \<Rightarrow> ledger \<Rightarrow> string \<Rightarrow> string \<Rightarrow> (string \<times> open_entry) list" where
  "in_flight clock L sk pk = open_at clock L (open_key sk pk)"

definition base :: "int \<Rightarrow> ledger \<Rightarrow> string \<Rightarrow> string \<Rightarrow> amounts \<Rightarrow> int \<Rightarrow> amounts" where
  "base clock L sk pk seed now =
     (case held clock L sk pk of
        Some v \<Rightarrow> v
      | None \<Rightarrow> seed + open_total (still_open now (in_flight clock L sk pk)))"

lemma alive_simps [simp]:
  "alive clock None"
  "alive clock (Some t) \<longleftrightarrow> clock < t"
  by (simp_all add: alive_def)

lemma with_entries_sel [simp]:
  "counters (with_entries okey es L) = counters L"
  by (simp add: with_entries_def)

lemma open_at_with_entries:
  assumes "set es \<subseteq> set (open_at clock L okey)"
  shows "open_at clock (with_entries okey es L) okey = es"
  using assms by (auto simp: with_entries_def open_at_def split: option.splits if_splits)

lemma open_at_other [simp]:
  "okey' \<noteq> okey \<Longrightarrow> open_at clock (with_entries okey es L) okey' = open_at clock L okey'"
  by (simp add: with_entries_def open_at_def)

lemma open_at_counters [simp]:
  "open_at clock (L\<lparr>counters := cs\<rparr>) okey = open_at clock L okey"
  by (simp add: open_at_def)

lemma open_at_rebuild:
  "open_at clock (rebuild clock key okey seed now L) okey =
     (case counter_at clock L key of Some _ \<Rightarrow> open_at clock L okey
      | None \<Rightarrow> still_open now (open_at clock L okey))"
  by (auto simp: rebuild_def Let_def still_open_def open_at_with_entries split: option.split)

lemma counter_rebuild:
  "counters (rebuild clock key okey seed now L) key =
     (case counter_at clock L key of Some _ \<Rightarrow> counters L key
      | None \<Rightarrow> Some \<lparr>c_value = seed + open_total (still_open now (open_at clock L okey)),
                  c_expires = None\<rparr>)"
  by (auto simp: rebuild_def Let_def split: option.split)

lemma give_expiry_opens [simp]: "opens (give_expiry clock key L) = opens L"
  by (simp add: give_expiry_def split: option.split)

lemma open_at_give_expiry [simp]: "open_at clock' (give_expiry clock key L) okey = open_at clock' L okey"
  by (simp add: open_at_def)

lemma counter_at_Some: "counter_at clock L key = Some c \<Longrightarrow> counters L key = Some c"
  by (auto simp: counter_at_def split: option.splits if_splits)

lemma give_expiry_value:
  "counters L key = Some c \<Longrightarrow> alive clock (c_expires c) \<Longrightarrow>
   \<exists>c'. counter_at clock (give_expiry clock key L) key = Some c' \<and>
        counters (give_expiry clock key L) key = Some c' \<and> c_value c' = c_value c"
  by (auto simp: give_expiry_def counter_at_def counter_ttl_seconds_def)

text \<open>
  Reserving, on every branch: the refusal leaves the counter at the figure it was judged on, the
  success adds the amounts and opens the reservation beside it.
\<close>

lemma reserve_cases:
  assumes res: "reserve clock sk pk lims am seed ident now L = (refusal, L')"
  shows "refusal = breached lims (base clock L sk pk seed now)"
    and "held clock L' sk pk = Some (base clock L sk pk seed now + (if refusal = None then am else 0))"
    and "in_flight clock L' sk pk =
      (let kept = (case held clock L sk pk of Some _ \<Rightarrow> in_flight clock L sk pk
                   | None \<Rightarrow> still_open now (in_flight clock L sk pk))
       in if refusal = None \<and> ident \<noteq> []
          then AList.update ident \<lparr>e_deadline = now + reservation_lifetime_seconds,
                                   e_amounts = am\<rparr> kept
          else kept)"
proof -
  let ?key = "ledger_key sk pk" and ?okey = "open_key sk pk"
  let ?R = "rebuild clock ?key ?okey seed now L"
  let ?L1 = "give_expiry clock ?key ?R"
  let ?b = "base clock L sk pk seed now"
  have "\<exists>c. counters ?R ?key = Some c \<and> alive clock (c_expires c) \<and> c_value c = ?b"
    by (auto simp: counter_rebuild base_def held_def in_flight_def counter_at_def
        split: option.splits if_splits)
  then obtain c1 where c1: "counter_at clock ?L1 ?key = Some c1" "counters ?L1 ?key = Some c1"
    "c_value c1 = ?b"
    using give_expiry_value by metis
  have opens1: "open_at clock ?L1 ?okey =
      (case held clock L sk pk of Some _ \<Rightarrow> in_flight clock L sk pk
       | None \<Rightarrow> still_open now (in_flight clock L sk pk))"
    by (simp add: open_at_rebuild held_def in_flight_def split: option.split)
  have refusal: "refusal = breached lims ?b"
    and L': "L' = (if refusal = None
       then open_reservation clock ?okey ident
              \<lparr>e_deadline = now + reservation_lifetime_seconds, e_amounts = am\<rparr>
              (add_to_counter ?key am ?L1)
       else ?L1)"
    using res c1 by (auto simp: reserve_def Let_def split: option.splits)
  show "refusal = breached lims ?b" by (fact refusal)
  have alive1: "alive clock (c_expires c1)"
    using c1(1) by (auto simp: counter_at_def split: option.splits if_splits)
  show "held clock L' sk pk = Some (?b + (if refusal = None then am else 0))"
    using c1 alive1
    by (auto simp: L' held_def counter_at_def open_reservation_def add_to_counter_def)
  show "in_flight clock L' sk pk = (let kept = (case held clock L sk pk of
          Some _ \<Rightarrow> in_flight clock L sk pk
        | None \<Rightarrow> still_open now (in_flight clock L sk pk))
     in if refusal = None \<and> ident \<noteq> []
        then AList.update ident \<lparr>e_deadline = now + reservation_lifetime_seconds,
               e_amounts = am\<rparr> kept
        else kept)"
  proof -
    have "in_flight clock L' sk pk = (if refusal = None \<and> ident \<noteq> []
        then AList.update ident \<lparr>e_deadline = now + reservation_lifetime_seconds,
               e_amounts = am\<rparr> (open_at clock ?L1 ?okey)
        else open_at clock ?L1 ?okey)"
      by (auto simp: L' in_flight_def open_reservation_def add_to_counter_def open_at_def
          reservation_lifetime_seconds_def)
    then show ?thesis unfolding opens1 Let_def .
  qed
qed

text \<open>Adjusting: the reservation leaves the open set first, whether or not the counter is there.\<close>

lemma adjust_cases:
  shows "held clock (adjust clock sk pk am ident L) sk pk =
           map_option (\<lambda>v. clamp (v + am)) (held clock L sk pk)"
    and "in_flight clock (adjust clock sk pk am ident L) sk pk =
           (if ident = [] then in_flight clock L sk pk
            else AList.delete ident (in_flight clock L sk pk))"
proof -
  let ?key = "ledger_key sk pk" and ?okey = "open_key sk pk"
  let ?L1 = "close_reservation clock ?okey ident L"
  have counters1: "counters ?L1 = counters L" by (simp add: close_reservation_def)
  then have at1: "counter_at clock ?L1 ?key = counter_at clock L ?key"
    by (simp add: counter_at_def)
  have opens1: "open_at clock ?L1 ?okey =
      (if ident = [] then in_flight clock L sk pk else AList.delete ident (in_flight clock L sk pk))"
    by (simp add: close_reservation_def in_flight_def open_at_with_entries AList.delete_eq)
  show "in_flight clock (adjust clock sk pk am ident L) sk pk =
      (if ident = [] then in_flight clock L sk pk else AList.delete ident (in_flight clock L sk pk))"
  proof -
    have "open_at clock (adjust clock sk pk am ident L) ?okey = open_at clock ?L1 ?okey"
      by (simp add: adjust_def Let_def split: option.split)
    with opens1 show ?thesis by (simp only: in_flight_def)
  qed
  show "held clock (adjust clock sk pk am ident L) sk pk =
      map_option (\<lambda>v. clamp (v + am)) (held clock L sk pk)"
  proof (cases "counter_at clock L ?key")
    case None
    then show ?thesis by (simp add: held_def adjust_def Let_def at1)
  next
    case (Some c)
    then have alive: "alive clock (c_expires c)"
      by (auto simp: counter_at_def split: option.splits if_splits)
    let ?L2 = "?L1\<lparr>counters := (counters ?L1)(?key \<mapsto> c\<lparr>c_value := clamp (c_value c + am)\<rparr>)\<rparr>"
    have "\<exists>c'. counter_at clock (give_expiry clock ?key ?L2) ?key = Some c' \<and>
        counters (give_expiry clock ?key ?L2) ?key = Some c' \<and>
        c_value c' = c_value (c\<lparr>c_value := clamp (c_value c + am)\<rparr>)"
      by (rule give_expiry_value) (simp_all add: alive)
    then show ?thesis using Some by (auto simp: held_def adjust_def Let_def at1)
  qed
qed

text \<open>Other counters, and what is in flight beside them, are untouched by either script.\<close>

lemma split_at_last_colon:
  assumes "CHR '':'' \<notin> set m" "CHR '':'' \<notin> set m'" "u @ CHR '':'' # m = u' @ CHR '':'' # m'"
  shows "u = u' \<and> m = m'"
  using assms
proof (induction u arbitrary: u')
  case Nil
  then show ?case by (cases u') auto
next
  case (Cons c u)
  then show ?case by (cases u') auto
qed

lemma ledger_key_inj:
  assumes "ledger_key sk pk = ledger_key sk' pk'" "CHR '':'' \<notin> set pk" "CHR '':'' \<notin> set pk'"
  shows "sk = sk' \<and> pk = pk'"
  using assms by (intro split_at_last_colon) (simp_all add: ledger_key_def)

lemma open_key_ledger_key: "open_key sk pk = ledger_key sk pk @ '':open''"
  by (simp add: open_key_def ledger_key_def)

lemma counters_other [simp]:
  "key' \<noteq> key \<Longrightarrow> counters (rebuild clock key okey seed now L) key' = counters L key'"
  "key' \<noteq> key \<Longrightarrow> counters (give_expiry clock key L) key' = counters L key'"
  "key' \<noteq> key \<Longrightarrow> counters (add_to_counter key am L) key' = counters L key'"
  "counters (open_reservation clock okey ident e L) = counters L"
  "counters (close_reservation clock okey ident L) = counters L"
  by (simp_all add: rebuild_def give_expiry_def add_to_counter_def open_reservation_def
      close_reservation_def Let_def split: option.split)

lemma opens_other [simp]:
  "okey' \<noteq> okey \<Longrightarrow> opens (rebuild clock key okey seed now L) okey' = opens L okey'"
  "opens (add_to_counter key am L) = opens L"
  "okey' \<noteq> okey \<Longrightarrow> opens (open_reservation clock okey ident e L) okey' = opens L okey'"
  "okey' \<noteq> okey \<Longrightarrow> opens (close_reservation clock okey ident L) okey' = opens L okey'"
  by (simp_all add: rebuild_def add_to_counter_def open_reservation_def with_entries_def
      close_reservation_def Let_def split: option.split)

lemma view_cong:
  "counters L (ledger_key sk pk) = counters L' (ledger_key sk pk) \<Longrightarrow>
     held clock L sk pk = held clock L' sk pk"
  "opens L (open_key sk pk) = opens L' (open_key sk pk) \<Longrightarrow>
     in_flight clock L sk pk = in_flight clock L' sk pk"
  by (simp_all add: held_def counter_at_def in_flight_def open_at_def)

lemma reserve_frame:
  assumes "ledger_key sk' pk' \<noteq> ledger_key sk pk"
  shows "held clock (snd (reserve clock sk pk lims am seed ident now L)) sk' pk' = held clock L sk' pk'"
    and "in_flight clock (snd (reserve clock sk pk lims am seed ident now L)) sk' pk'
      = in_flight clock L sk' pk'"
proof -
  have "open_key sk' pk' \<noteq> open_key sk pk" using assms by (simp add: open_key_ledger_key)
  with assms
  show "held clock (snd (reserve clock sk pk lims am seed ident now L)) sk' pk' = held clock L sk' pk'"
    and "in_flight clock (snd (reserve clock sk pk lims am seed ident now L)) sk' pk'
      = in_flight clock L sk' pk'"
    by (auto intro!: view_cong simp: reserve_def Let_def split: option.split)
qed

lemma adjust_frame:
  assumes "ledger_key sk' pk' \<noteq> ledger_key sk pk"
  shows "held clock (adjust clock sk pk am ident L) sk' pk' = held clock L sk' pk'"
    and "in_flight clock (adjust clock sk pk am ident L) sk' pk' = in_flight clock L sk' pk'"
proof -
  have "open_key sk' pk' \<noteq> open_key sk pk" using assms by (simp add: open_key_ledger_key)
  with assms
  show "held clock (adjust clock sk pk am ident L) sk' pk' = held clock L sk' pk'"
    and "in_flight clock (adjust clock sk pk am ident L) sk' pk' = in_flight clock L sk' pk'"
    by (auto intro!: view_cong simp: adjust_def Let_def split: option.split)
qed

section \<open>Sums over the open set\<close>

lemma open_total_simps [simp]:
  "open_total [] = 0"
  "open_total ((i, e) # es) = e_amounts e + open_total es"
  by (simp_all add: open_total_def)

lemma open_total_update:
  "ident \<notin> set (map fst es) \<Longrightarrow>
   open_total (AList.update ident e es) = open_total es + e_amounts e"
  by (induction es) (auto simp: algebra_simps)

lemma open_total_delete:
  "distinct (map fst es) \<Longrightarrow> map_of es ident = Some e \<Longrightarrow>
   open_total (AList.delete ident es) = open_total es - e_amounts e"
proof (induction es)
  case (Cons p es)
  obtain i f where p: "p = (i, f)" by (cases p)
  show ?case
  proof (cases "i = ident")
    case True
    with Cons.prems p have "ident \<notin> fst ` set es" by simp
    then have "AList.delete ident es = es" by (rule AList.delete_id)
    with True Cons.prems p show ?thesis by (simp add: algebra_simps)
  next
    case False
    with Cons p show ?thesis by (simp add: algebra_simps)
  qed
qed simp

lemma open_total_nonneg:
  "\<forall>(i, e) \<in> set es. nonneg (e_amounts e) \<Longrightarrow> nonneg (open_total es)"
  by (induction es) auto

lemma distinct_fst_update:
  "distinct (map fst es) \<Longrightarrow> distinct (map fst (AList.update k v es))"
  by (rule distinct_update)

lemma distinct_fst_delete:
  "distinct (map fst es) \<Longrightarrow> distinct (map fst (AList.delete k es))"
  by (rule distinct_delete)

section \<open>One counter under concurrent requests\<close>

text \<open>
  A counter over time, as the service drives it: requests reserve against it, settle (the record
  takes the actual amounts and the counter the correction), or release; time passes and the
  counter runs out. What the record has is \<open>p_settled\<close>, the seed of a rebuild. The clock never
  passes the deadline of a reservation still open: its lifetime is longer than any request.
\<close>

record pot =
  p_clock :: int
  p_settled :: amounts
  p_ledger :: ledger

inductive pot_step :: "string \<Rightarrow> string \<Rightarrow> limits \<Rightarrow> pot \<Rightarrow> pot \<Rightarrow> bool"
  for sk pk :: string and lims :: limits where
  reserved:
    "nonneg am \<Longrightarrow> ident \<noteq> [] \<Longrightarrow>
     ident \<notin> set (map fst (in_flight (p_clock s) (p_ledger s) sk pk)) \<Longrightarrow>
     reserve (p_clock s) sk pk lims am (p_settled s) ident (p_clock s) (p_ledger s) = (None, L') \<Longrightarrow>
     pot_step sk pk lims s (s\<lparr>p_ledger := L'\<rparr>)"
| refused:
    "reserve (p_clock s) sk pk lims am (p_settled s) ident (p_clock s) (p_ledger s) = (Some d, L') \<Longrightarrow>
     pot_step sk pk lims s (s\<lparr>p_ledger := L'\<rparr>)"
| settled:
    "map_of (in_flight (p_clock s) (p_ledger s) sk pk) ident = Some e \<Longrightarrow> nonneg actual \<Longrightarrow> ident \<noteq> [] \<Longrightarrow>
     pot_step sk pk lims s (s\<lparr>p_settled := p_settled s + actual,
       p_ledger := adjust (p_clock s) sk pk (actual - e_amounts e) ident (p_ledger s)\<rparr>)"
| released:
    "map_of (in_flight (p_clock s) (p_ledger s) sk pk) ident = Some e \<Longrightarrow> ident \<noteq> [] \<Longrightarrow>
     pot_step sk pk lims s (s\<lparr>p_ledger :=
       adjust (p_clock s) sk pk (negated (e_amounts e)) ident (p_ledger s)\<rparr>)"
| time_passes:
    "p_clock s \<le> t \<Longrightarrow>
     in_flight t (p_ledger s) sk pk = in_flight (p_clock s) (p_ledger s) sk pk \<Longrightarrow>
     still_open t (in_flight (p_clock s) (p_ledger s) sk pk)
       = in_flight (p_clock s) (p_ledger s) sk pk \<Longrightarrow>
     pot_step sk pk lims s (s\<lparr>p_clock := t\<rparr>)"

inductive pot_reachable :: "string \<Rightarrow> string \<Rightarrow> limits \<Rightarrow> pot \<Rightarrow> pot \<Rightarrow> bool"
  for sk pk :: string and lims :: limits and s0 :: pot where
  start: "pot_reachable sk pk lims s0 s0"
| step: "pot_reachable sk pk lims s0 s \<Longrightarrow> pot_step sk pk lims s t \<Longrightarrow> pot_reachable sk pk lims s0 t"

definition pot_flight :: "string \<Rightarrow> string \<Rightarrow> pot \<Rightarrow> (string \<times> open_entry) list" where
  "pot_flight sk pk s = in_flight (p_clock s) (p_ledger s) sk pk"

definition pot_inv :: "string \<Rightarrow> string \<Rightarrow> pot \<Rightarrow> bool" where
  "pot_inv sk pk s \<longleftrightarrow>
     nonneg (p_settled s) \<and> distinct (map fst (pot_flight sk pk s)) \<and>
     (\<forall>(i, e) \<in> set (pot_flight sk pk s). nonneg (e_amounts e)) \<and>
     still_open (p_clock s) (pot_flight sk pk s) = pot_flight sk pk s \<and>
     (\<forall>v. held (p_clock s) (p_ledger s) sk pk = Some v \<longrightarrow>
        v = p_settled s + open_total (pot_flight sk pk s))"

definition pot_start :: "string \<Rightarrow> string \<Rightarrow> pot \<Rightarrow> bool" where
  "pot_start sk pk s \<longleftrightarrow> nonneg (p_settled s) \<and> counters (p_ledger s) (ledger_key sk pk) = None \<and>
     opens (p_ledger s) (open_key sk pk) = None"

lemma pot_start_inv: "pot_start sk pk s \<Longrightarrow> pot_inv sk pk s"
  by (simp add: pot_start_def pot_inv_def pot_flight_def in_flight_def open_at_def held_def
      counter_at_def still_open_def)

lemma pot_base:
  "pot_inv sk pk s \<Longrightarrow>
   base (p_clock s) (p_ledger s) sk pk (p_settled s) (p_clock s)
     = p_settled s + open_total (pot_flight sk pk s)"
  by (auto simp: pot_inv_def base_def pot_flight_def split: option.split)

lemma set_update_subset: "set (AList.update k v es) \<subseteq> insert (k, v) (set es)"
  by (induction es) auto

lemma still_open_id: "still_open t es = es \<longleftrightarrow> (\<forall>(i, e) \<in> set es. t < e_deadline e)"
  by (auto simp: still_open_def filter_id_conv)

lemma pot_kept:
  "pot_inv sk pk s \<Longrightarrow>
   (case held (p_clock s) (p_ledger s) sk pk of Some _ \<Rightarrow> in_flight (p_clock s) (p_ledger s) sk pk
    | None \<Rightarrow> still_open (p_clock s) (in_flight (p_clock s) (p_ledger s) sk pk))
   = pot_flight sk pk s"
  by (auto simp: pot_inv_def pot_flight_def split: option.split)

lemma pot_step_reserve_inv:
  assumes inv: "pot_inv sk pk s" and am: "nonneg am"
    and fresh: "ident \<notin> set (map fst (pot_flight sk pk s))" and named: "ident \<noteq> []"
    and res: "reserve (p_clock s) sk pk lims am (p_settled s) ident (p_clock s) (p_ledger s) = (None, L')"
  shows "pot_inv sk pk (s\<lparr>p_ledger := L'\<rparr>)"
    and "pot_flight sk pk (s\<lparr>p_ledger := L'\<rparr>) =
      AList.update ident \<lparr>e_deadline = p_clock s + reservation_lifetime_seconds, e_amounts = am\<rparr>
        (pot_flight sk pk s)"
proof -
  let ?e = "\<lparr>e_deadline = p_clock s + reservation_lifetime_seconds, e_amounts = am\<rparr>"
  show flight: "pot_flight sk pk (s\<lparr>p_ledger := L'\<rparr>) = AList.update ident ?e (pot_flight sk pk s)"
    using reserve_cases(3) [OF res] named pot_kept [OF inv]
    by (simp add: pot_flight_def Let_def)
  have "held (p_clock s) L' sk pk = Some (p_settled s + open_total (pot_flight sk pk s) + am)"
    using reserve_cases(2) [OF res] by (simp add: pot_base [OF inv])
  moreover have "distinct (map fst (AList.update ident ?e (pot_flight sk pk s)))"
    using inv by (intro distinct_update) (simp add: pot_inv_def)
  moreover have "\<forall>(i, e) \<in> set (AList.update ident ?e (pot_flight sk pk s)). nonneg (e_amounts e)
      \<and> p_clock s < e_deadline e"
    using inv am set_update_subset [of ident ?e "pot_flight sk pk s"]
    by (fastforce simp: pot_inv_def still_open_id reservation_lifetime_seconds_def)
  ultimately show "pot_inv sk pk (s\<lparr>p_ledger := L'\<rparr>)"
    using inv fresh unfolding pot_inv_def flight
    by (auto simp: open_total_update still_open_id algebra_simps)
qed

lemma set_delete_subset: "set (AList.delete k es) \<subseteq> set es"
  by (auto simp: AList.delete_eq)

lemma pot_close_inv:
  assumes inv: "pot_inv sk pk s" and named: "ident \<noteq> []"
    and e: "map_of (pot_flight sk pk s) ident = Some e" and S: "nonneg S"
    and am: "S + open_total (pot_flight sk pk s) - e_amounts e = p_settled s + open_total (pot_flight sk pk s) + am"
  shows "pot_inv sk pk (s\<lparr>p_settled := S, p_ledger := adjust (p_clock s) sk pk am ident (p_ledger s)\<rparr>)"
    and "pot_flight sk pk (s\<lparr>p_settled := S, p_ledger := adjust (p_clock s) sk pk am ident (p_ledger s)\<rparr>)
      = AList.delete ident (pot_flight sk pk s)"
proof -
  let ?es = "AList.delete ident (pot_flight sk pk s)"
  let ?t = "s\<lparr>p_settled := S, p_ledger := adjust (p_clock s) sk pk am ident (p_ledger s)\<rparr>"
  show flight: "pot_flight sk pk ?t = ?es"
    using named by (simp add: pot_flight_def adjust_cases(2))
  have total: "open_total ?es = open_total (pot_flight sk pk s) - e_amounts e"
    using inv e by (intro open_total_delete) (auto simp: pot_inv_def)
  have members: "\<forall>(i, e) \<in> set ?es. nonneg (e_amounts e) \<and> p_clock s < e_deadline e"
    using inv set_delete_subset [of ident "pot_flight sk pk s"]
    by (fastforce simp: pot_inv_def still_open_id)
  then have "nonneg (S + open_total ?es)"
    using S by (intro nonneg_add open_total_nonneg) auto
  then have "clamp (p_settled s + open_total (pot_flight sk pk s) + am) = S + open_total ?es"
    using am total by (metis clamp_nonneg diff_add_eq_diff_diff_swap add_diff_eq)
  then show "pot_inv sk pk ?t"
    using inv S members unfolding pot_inv_def flight
    by (auto simp: adjust_cases(1) still_open_id intro: distinct_delete)
qed

lemma pot_step_inv: "pot_step sk pk lims s t \<Longrightarrow> pot_inv sk pk s \<Longrightarrow> pot_inv sk pk t"
proof (induction rule: pot_step.induct)
  case (reserved am ident s L')
  then show ?case by (intro pot_step_reserve_inv(1)) (simp_all add: pot_flight_def)
next
  case (refused s am ident d L')
  have "pot_flight sk pk (s\<lparr>p_ledger := L'\<rparr>) = pot_flight sk pk s"
    using reserve_cases(3) [OF refused.hyps] pot_kept [OF refused.prems]
    by (simp add: pot_flight_def Let_def)
  moreover have "held (p_clock s) L' sk pk = Some (p_settled s + open_total (pot_flight sk pk s))"
    using reserve_cases(2) [OF refused.hyps] by (simp add: pot_base [OF refused.prems])
  ultimately show ?case using refused.prems by (simp add: pot_inv_def)
next
  case (settled s ident e actual)
  then show ?case
    by (intro pot_close_inv(1)) (auto simp: pot_flight_def pot_inv_def algebra_simps)
next
  case (released s ident e)
  then have "pot_inv sk pk (s\<lparr>p_settled := p_settled s,
      p_ledger := adjust (p_clock s) sk pk (negated (e_amounts e)) ident (p_ledger s)\<rparr>)"
    by (intro pot_close_inv(1)) (auto simp: pot_flight_def pot_inv_def)
  then show ?case by simp
next
  case (time_passes s t)
  have "counter_at t L key = Some c \<Longrightarrow> counter_at (p_clock s) L key = Some c" for L key c
    using time_passes.hyps(1) by (auto simp: counter_at_def alive_def split: option.splits if_splits)
  then have "held t (p_ledger s) sk pk = Some v \<Longrightarrow> held (p_clock s) (p_ledger s) sk pk = Some v" for v
    by (auto simp: held_def)
  then show ?case
    using time_passes by (auto simp: pot_inv_def pot_flight_def)
qed

lemma pot_reachable_inv: "pot_reachable sk pk lims s0 s \<Longrightarrow> pot_inv sk pk s0 \<Longrightarrow> pot_inv sk pk s"
  by (induction rule: pot_reachable.induct) (auto intro: pot_step_inv)

section \<open>The counter store as its clients see it\<close>

text \<open>
  What budget enforcement relies on: a counter and the reservations beside it, reserving, and
  adjusting. \<open>loc\<close> says where a counter lives; operations on one place leave the others alone.
  The client lemmas are the two ways a reservation ends: given back it never was, settled it is
  what was booked.
\<close>

locale counter_store =
  fixes store_reserve :: "'k \<Rightarrow> limits \<Rightarrow> amounts \<Rightarrow> amounts \<Rightarrow> string \<Rightarrow> 's \<Rightarrow> string option \<times> 's"
    and store_adjust :: "'k \<Rightarrow> amounts \<Rightarrow> string \<Rightarrow> 's \<Rightarrow> 's"
    and figure :: "'s \<Rightarrow> 'k \<Rightarrow> amounts option"
    and judged :: "'s \<Rightarrow> 'k \<Rightarrow> amounts \<Rightarrow> amounts"
    and loc :: "'k \<Rightarrow> 'l"
  assumes judged_figure: "figure st k = Some v \<Longrightarrow> judged st k seed = v"
    and reserve_law: "store_reserve k lims am seed ident st = (refusal, st') \<Longrightarrow>
      refusal = breached lims (judged st k seed) \<and>
      figure st' k = Some (judged st k seed + (if refusal = None then am else 0))"
    and adjust_law: "figure (store_adjust k am ident st) k = map_option (\<lambda>v. clamp (v + am)) (figure st k)"
    and reserve_elsewhere: "loc k' \<noteq> loc k \<Longrightarrow>
      figure (snd (store_reserve k lims am seed ident st)) k' = figure st k'"
    and adjust_elsewhere: "loc k' \<noteq> loc k \<Longrightarrow> figure (store_adjust k am ident st) k' = figure st k'"
begin

lemma reserve_then_give_back:
  assumes "store_reserve k lims am seed ident st = (None, st')" and "figure st k = Some v" and "nonneg v"
  shows "figure (store_adjust k (- am) ident st') k = Some v"
  using reserve_law [OF assms(1)] judged_figure [OF assms(2)] assms(3) by (simp add: adjust_law)

lemma reserve_then_settle:
  assumes "store_reserve k lims am seed ident st = (None, st')" and "nonneg (judged st k seed + actual)"
  shows "figure (store_adjust k (actual - am) ident st') k = Some (judged st k seed + actual)"
  using reserve_law [OF assms(1)] assms(2) by (simp add: adjust_law algebra_simps)

lemma admitted_under_limits:
  assumes "store_reserve k lims am seed ident st = (None, st')"
  shows "(\<forall>l. lim_requests lims = Some l \<longrightarrow> a_requests (judged st k seed) < max 0 l)
    \<and> (\<forall>l. lim_tokens lims = Some l \<longrightarrow> a_tokens (judged st k seed) < max 0 l)
    \<and> (\<forall>l. lim_cost_nanos lims = Some l \<longrightarrow> a_cost (judged st k seed) < max 0 l)"
  using reserve_law [OF assms]
  by (auto simp: breached_def cap_def split: if_splits)

end

definition reserve_at ::
  "int \<Rightarrow> int \<Rightarrow> string \<times> string \<Rightarrow> limits \<Rightarrow> amounts \<Rightarrow> amounts \<Rightarrow> string \<Rightarrow> ledger
     \<Rightarrow> string option \<times> ledger" where
  "reserve_at clock now key lims am seed ident L =
     reserve clock (fst key) (snd key) lims am seed ident now L"

definition adjust_at :: "int \<Rightarrow> string \<times> string \<Rightarrow> amounts \<Rightarrow> string \<Rightarrow> ledger \<Rightarrow> ledger" where
  "adjust_at clock key am ident L = adjust clock (fst key) (snd key) am ident L"

definition held_at :: "int \<Rightarrow> ledger \<Rightarrow> string \<times> string \<Rightarrow> amounts option" where
  "held_at clock L key = held clock L (fst key) (snd key)"

definition judged_at :: "int \<Rightarrow> int \<Rightarrow> ledger \<Rightarrow> string \<times> string \<Rightarrow> amounts \<Rightarrow> amounts" where
  "judged_at clock now L key seed = base clock L (fst key) (snd key) seed now"

definition key_loc :: "string \<times> string \<Rightarrow> string" where
  "key_loc key = ledger_key (fst key) (snd key)"

lemmas ledger_at_defs = reserve_at_def adjust_at_def held_at_def judged_at_def key_loc_def

interpretation redis: counter_store "reserve_at clock now" "adjust_at clock" "held_at clock"
    "judged_at clock now" key_loc for clock now :: int
proof
  show "held_at clock st k = Some v \<Longrightarrow> judged_at clock now st k seed = v" for st k v seed
    by (simp add: ledger_at_defs base_def)
  show "reserve_at clock now k lims am seed ident st = (refusal, st') \<Longrightarrow>
      refusal = breached lims (judged_at clock now st k seed) \<and>
      held_at clock st' k = Some (judged_at clock now st k seed + (if refusal = None then am else 0))"
    for k lims am seed ident st refusal st'
    unfolding ledger_at_defs by (intro conjI reserve_cases(1) reserve_cases(2))
  show "held_at clock (adjust_at clock k am ident st) k
      = map_option (\<lambda>v. clamp (v + am)) (held_at clock st k)" for k am ident st
    by (simp add: ledger_at_defs adjust_cases(1))
  show "key_loc k' \<noteq> key_loc k \<Longrightarrow>
      held_at clock (snd (reserve_at clock now k lims am seed ident st)) k' = held_at clock st k'"
    for k' k lims am seed ident st
    by (simp add: ledger_at_defs reserve_frame(1))
  show "key_loc k' \<noteq> key_loc k \<Longrightarrow> held_at clock (adjust_at clock k am ident st) k' = held_at clock st k'"
    for k' k am ident st
    by (simp add: ledger_at_defs adjust_frame(1))
qed

section \<open>Properties\<close>


definition empty_ledger :: ledger where
  "empty_ledger = \<lparr>counters = Map.empty, opens = Map.empty\<rparr>"

definition example_pot :: pot where
  "example_pot = \<lparr>p_clock = 0, p_settled = Amounts 5 1 70, p_ledger = empty_ledger\<rparr>"

lemma example_reserve:
  "reserve 0 ''uc:hr'' ''2026-07'' \<lparr>lim_tokens = None, lim_requests = Some 3, lim_cost_nanos = None\<rparr>
     (Amounts 100 1 900) (Amounts 5 1 70) ''r1'' 0 empty_ledger
   = (None, snd (reserve 0 ''uc:hr'' ''2026-07''
       \<lparr>lim_tokens = None, lim_requests = Some 3, lim_cost_nanos = None\<rparr>
       (Amounts 100 1 900) (Amounts 5 1 70) ''r1'' 0 empty_ledger))"
  by (simp add: reserve_def Let_def rebuild_def give_expiry_def counter_at_def open_at_def
      breached_def cap_def no_limit_def empty_ledger_def with_entries_def still_open_def)




text \<open>
  The expiry of a counter is set when it is built and extended by nothing: neither a
  reservation nor a correction moves it, so a busy counter is rebuilt from the record on a fixed
  clock, and a counter built now runs out after \<open>COUNTER_TTL_SECONDS\<close>.
\<close>

theorem expiry_never_extended:
  assumes "counter_at clock L (ledger_key sk pk) = Some c" and "c_expires c = Some t"
  shows "map_option c_expires (counters (snd (reserve clock sk pk lims am seed ident now L)) (ledger_key sk pk))
           = Some (Some t)
    \<and> map_option c_expires (counters (adjust clock sk pk am ident L) (ledger_key sk pk)) = Some (Some t)"
proof -
  have c: "counters L (ledger_key sk pk) = Some c" using assms(1) by (rule counter_at_Some)
  have reb: "rebuild clock (ledger_key sk pk) okey seed now L = L" for okey
    using assms(1) by (simp add: rebuild_def)
  have exp: "give_expiry clock (ledger_key sk pk) L = L" using c assms(2) by (simp add: give_expiry_def)
  have "map_option c_expires (counters (snd (reserve clock sk pk lims am seed ident now L)) (ledger_key sk pk))
      = Some (Some t)"
    using c assms(2) by (auto simp: reserve_def Let_def reb exp add_to_counter_def split: option.split)
  moreover have "counter_at clock (close_reservation clock okey ident L) (ledger_key sk pk) = Some c" for okey
    using assms(1) by (simp add: counter_at_def)
  then have "map_option c_expires (counters (adjust clock sk pk am ident L) (ledger_key sk pk)) = Some (Some t)"
    using assms(2) by (simp add: adjust_def Let_def give_expiry_def)
  ultimately show ?thesis by blast
qed

theorem expiry_never_extended_witness:
  "let L = \<lparr>counters = [''budget:uc:hr:2026-07'' \<mapsto> \<lparr>c_value = 0, c_expires = Some 300\<rparr>],
            opens = Map.empty\<rparr>
   in map_option c_expires (counters (snd (reserve 299 ''uc:hr'' ''2026-07''
        \<lparr>lim_tokens = None, lim_requests = None, lim_cost_nanos = None\<rparr> (Amounts 1 1 1) 0 ''r'' 299 L))
        (ledger_key ''uc:hr'' ''2026-07'')) = Some (Some 300)"
  using expiry_never_extended [of 299
      "\<lparr>counters = [''budget:uc:hr:2026-07'' \<mapsto> \<lparr>c_value = 0, c_expires = Some 300\<rparr>], opens = Map.empty\<rparr>"
      "''uc:hr''" "''2026-07''" "\<lparr>c_value = 0, c_expires = Some 300\<rparr>" 300
      "\<lparr>lim_tokens = None, lim_requests = None, lim_cost_nanos = None\<rparr>" "Amounts 1 1 1" 0 "''r''" 299]
  by (simp add: counter_at_def ledger_key_def Let_def)

text \<open>
  A settlement is booked in the record first and corrects the counter second. A counter that
  runs out in between is rebuilt from a record that already has the settled figure, with the
  reservation still open: the correction then leaves the settled amount counted twice, until the
  counter runs out again. Here 40 settled tokens and a new reservation of 1 stand as 81.
\<close>

theorem settlement_rebuild_window_counts_twice:
  "let none = \<lparr>lim_tokens = None, lim_requests = None, lim_cost_nanos = None\<rparr>;
       L1 = snd (reserve 0 ''uc:hr'' ''2026-07'' none (Amounts 100 1 0) 0 ''r1'' 0 empty_ledger);
       booked = Amounts 40 1 0;
       L2 = snd (reserve 301 ''uc:hr'' ''2026-07'' none (Amounts 1 1 0) booked ''r2'' 301 L1);
       L3 = adjust 301 ''uc:hr'' ''2026-07'' (booked - Amounts 100 1 0) ''r1'' L2
   in held 301 L3 ''uc:hr'' ''2026-07'' = Some (Amounts 81 3 0)
      \<and> booked + open_total (in_flight 301 L3 ''uc:hr'' ''2026-07'') = Amounts 41 2 0"
  by code_simp

end
