(* ===== verification/Clock.thy ===== *)
theory Clock
  imports Gateway_Prelude
begin

text \<open>
  The installation's clock (\<open>libs/src/aira_common/clock.py\<close>) and the periods a budget counts by
  (\<open>gateway/src/aira_gateway/budgets/keys.py\<close>): where days, weeks and months begin in a time zone.

  The calendar is that of Python's \<open>datetime.date\<close>, proleptic Gregorian, days numbered as
  \<open>toordinal\<close> numbers them. A time zone is data the program does not hold (the IANA database): a
  \<open>zone\<close> record gives its offset from UTC at a moment and the moment a local midnight falls on.
  What the boundaries rely on is the law of the locale \<open>time_zone\<close>: a local day has begun exactly
  when its midnight has passed. It is interpreted on the zones of a fixed offset, UTC among them.
  Python stops at the year 9999; the model does not.
\<close>

section \<open>The calendar\<close>

record date =
  d_year :: int
  d_month :: int
  d_day :: int

definition leap :: "int \<Rightarrow> bool" where
  "leap y = (y mod 4 = 0 \<and> (y mod 100 \<noteq> 0 \<or> y mod 400 = 0))"

definition leap_day :: "bool \<Rightarrow> int" where
  "leap_day l = (if l then 1 else 0)"

definition days_in_month :: "int \<Rightarrow> int \<Rightarrow> int" where
  "days_in_month y m =
     (if m = 2 then 28 + leap_day (leap y) else if m \<in> {4, 6, 9, 11} then 30 else 31)"

definition days_before_year :: "int \<Rightarrow> int" where
  "days_before_year y = (y - 1) * 365 + (y - 1) div 4 - (y - 1) div 100 + (y - 1) div 400"

definition days_before_month :: "bool \<Rightarrow> int \<Rightarrow> int" where
  "days_before_month l m =
     (if m \<le> 1 then 0 else if m = 2 then 31
      else leap_day l +
        (if m = 3 then 59 else if m = 4 then 90 else if m = 5 then 120 else if m = 6 then 151
         else if m = 7 then 181 else if m = 8 then 212 else if m = 9 then 243
         else if m = 10 then 273 else if m = 11 then 304 else 334))"

definition ordinal :: "date \<Rightarrow> int" where
  \<comment> \<open>\<open>date.toordinal\<close>: 1 is 0001-01-01\<close>
  "ordinal d = days_before_year (d_year d) + days_before_month (leap (d_year d)) (d_month d) + d_day d"

definition month_at :: "bool \<Rightarrow> int \<Rightarrow> int" where
  "month_at l n =
     (if n < 31 then 1 else if n < 59 + leap_day l then 2 else if n < 90 + leap_day l then 3
      else if n < 120 + leap_day l then 4 else if n < 151 + leap_day l then 5
      else if n < 181 + leap_day l then 6 else if n < 212 + leap_day l then 7
      else if n < 243 + leap_day l then 8 else if n < 273 + leap_day l then 9
      else if n < 304 + leap_day l then 10 else if n < 334 + leap_day l then 11 else 12)"

definition from_ordinal :: "int \<Rightarrow> date" where
  \<comment> \<open>\<open>date.fromordinal\<close>\<close>
  "from_ordinal n =
     (let a = (n - 1) div 146097; r400 = (n - 1) mod 146097;
          b = min 3 (r400 div 36524); r100 = r400 - b * 36524;
          c = r100 div 1461; r4 = r100 mod 1461;
          e = min 3 (r4 div 365); doy = r4 - e * 365;
          y = 400 * a + 100 * b + 4 * c + e + 1;
          m = month_at (leap y) doy
      in \<lparr>d_year = y, d_month = m, d_day = doy - days_before_month (leap y) m + 1\<rparr>)"

definition valid_date :: "date \<Rightarrow> bool" where
  "valid_date d \<longleftrightarrow> 1 \<le> d_month d \<and> d_month d \<le> 12 \<and>
     1 \<le> d_day d \<and> d_day d \<le> days_in_month (d_year d) (d_month d)"

definition add_days :: "date \<Rightarrow> int \<Rightarrow> date" where
  \<comment> \<open>\<open>day + timedelta(days=k)\<close>\<close>
  "add_days d k = from_ordinal (ordinal d + k)"

definition weekday :: "date \<Rightarrow> int" where
  \<comment> \<open>\<open>date.weekday\<close>: Monday is 0\<close>
  "weekday d = (ordinal d + 6) mod 7"

section \<open>The calendar is a calendar\<close>

lemma year_parts:
  fixes a b c e :: int
  assumes "0 \<le> b" "b \<le> 3" "0 \<le> c" "c \<le> 24" "0 \<le> e" "e \<le> 3"
  shows "(400 * a + 100 * b + 4 * c + e) div 4 = 100 * a + 25 * b + c"
    and "(400 * a + 100 * b + 4 * c + e) mod 4 = e"
    and "(400 * a + 100 * b + 4 * c + e) div 100 = 4 * a + b"
    and "(400 * a + 100 * b + 4 * c + e) mod 100 = 4 * c + e"
    and "(400 * a + 100 * b + 4 * c + e) div 400 = a"
    and "(400 * a + 100 * b + 4 * c + e) mod 400 = 100 * b + 4 * c + e"
  using assms
  by (intro int_div_pos_eq [where r = e] int_mod_pos_eq [where q = "100 * a + 25 * b + c"]
      int_div_pos_eq [where r = "4 * c + e"] int_mod_pos_eq [where q = "4 * a + b"]
      int_div_pos_eq [where r = "100 * b + 4 * c + e"] int_mod_pos_eq [where q = a]; simp)+

lemma days_before_year_parts:
  fixes a b c e :: int
  assumes "0 \<le> b" "b \<le> 3" "0 \<le> c" "c \<le> 24" "0 \<le> e" "e \<le> 3"
  shows "days_before_year (400 * a + 100 * b + 4 * c + e + 1)
    = 146097 * a + 36524 * b + 1461 * c + 365 * e"
  unfolding days_before_year_def using year_parts [OF assms, of a] by simp

lemma mod_Suc_parts:
  fixes y k :: int
  assumes "0 < k"
  shows "(y + 1) mod k = 0 \<longleftrightarrow> y mod k = k - 1"
    and "(y + 1) div k = y div k + (if y mod k = k - 1 then 1 else 0)"
proof -
  have y: "y = k * (y div k) + y mod k" by simp
  have r: "0 \<le> y mod k" "y mod k < k" using assms by simp_all
  have "(y + 1) mod k = (if y mod k = k - 1 then 0 else y mod k + 1)
    \<and> (y + 1) div k = y div k + (if y mod k = k - 1 then 1 else 0)"
  proof (cases "y mod k = k - 1")
    case True
    with y have y1: "y + 1 = k * (y div k + 1) + 0" by (simp add: distrib_left)
    have "(y + 1) div k = y div k + 1" using assms by (intro int_div_pos_eq [OF y1]) simp_all
    moreover have "(y + 1) mod k = 0" using assms by (intro int_mod_pos_eq [OF y1]) simp_all
    ultimately show ?thesis using True by simp
  next
    case False
    from y have y1: "y + 1 = k * (y div k) + (y mod k + 1)" by simp
    have "(y + 1) div k = y div k" using r False by (intro int_div_pos_eq [OF y1]) auto
    moreover have "(y + 1) mod k = y mod k + 1" using r False by (intro int_mod_pos_eq [OF y1]) auto
    ultimately show ?thesis using False by simp
  qed
  then show "(y + 1) mod k = 0 \<longleftrightarrow> y mod k = k - 1"
    and "(y + 1) div k = y div k + (if y mod k = k - 1 then 1 else 0)"
    using r by auto
qed

lemma leap_parts:
  fixes a b c e :: int
  assumes "0 \<le> b" "b \<le> 3" "0 \<le> c" "c \<le> 24" "0 \<le> e" "e \<le> 3"
  shows "leap (400 * a + 100 * b + 4 * c + e + 1) \<longleftrightarrow> e = 3 \<and> (c \<noteq> 24 \<or> b = 3)"
  unfolding leap_def using assms
  by (simp add: mod_Suc_parts(1) year_parts(2,4,6) [OF assms]) linarith

lemma days_before_year_Suc: "days_before_year (y + 1) = days_before_year y + 365 + leap_day (leap y)"
proof -
  have "y div k = (y - 1) div k + (if y mod k = 0 then 1 else 0)" if "0 < k" for k :: int
    using mod_Suc_parts [OF that, of "y - 1"] by simp
  then have d: "y div 4 = (y - 1) div 4 + (if y mod 4 = 0 then 1 else 0)"
    "y div 100 = (y - 1) div 100 + (if y mod 100 = 0 then 1 else 0)"
    "y div 400 = (y - 1) div 400 + (if y mod 400 = 0 then 1 else 0)" by simp_all
  have m: "y mod 400 = 0 \<Longrightarrow> y mod 100 = 0" "y mod 100 = 0 \<Longrightarrow> y mod 4 = 0"
    using dvd_trans [of 100 400 y] dvd_trans [of 4 100 y] by (simp_all add: dvd_eq_mod_eq_0)
  show ?thesis
    unfolding days_before_year_def leap_def leap_day_def add_diff_cancel_right' d
    using m by (cases "y mod 4 = 0"; cases "y mod 100 = 0"; cases "y mod 400 = 0") simp_all
qed

lemma month_at_range: "1 \<le> month_at l n \<and> month_at l n \<le> 12"
  by (simp add: month_at_def)

lemma month_at_day:
  assumes "0 \<le> n" "n < 365 + leap_day (leap y)"
  shows "0 \<le> n - days_before_month (leap y) (month_at (leap y) n)"
    and "n - days_before_month (leap y) (month_at (leap y) n) < days_in_month y (month_at (leap y) n)"
  using assms by (cases "leap y"; simp add: month_at_def days_before_month_def days_in_month_def leap_day_def)+

lemma from_ordinal_parts:
  fixes n :: int
  defines "a \<equiv> (n - 1) div 146097" and "r400 \<equiv> (n - 1) mod 146097"
  defines "b \<equiv> min 3 (r400 div 36524)"
  defines "r100 \<equiv> r400 - b * 36524"
  defines "c \<equiv> r100 div 1461" and "r4 \<equiv> r100 mod 1461"
  defines "e \<equiv> min 3 (r4 div 365)"
  shows "0 \<le> b" "b \<le> 3" "0 \<le> c" "c \<le> 24" "0 \<le> e" "e \<le> 3"
    and "n - 1 = 146097 * a + 36524 * b + 1461 * c + 365 * e + (r4 - e * 365)"
    and "0 \<le> r4 - e * 365"
    and "r4 - e * 365 < 365 + (if e = 3 \<and> (c \<noteq> 24 \<or> b = 3) then 1 else 0)"
proof -
  have n: "n - 1 = 146097 * a + r400" by (simp add: a_def r400_def)
  have r400: "0 \<le> r400" "r400 < 146097" by (simp_all add: r400_def)
  have q: "r400 = 36524 * (r400 div 36524) + r400 mod 36524"
    "0 \<le> r400 mod 36524" "r400 mod 36524 < 36524" by simp_all
  have r100: "0 \<le> r100" "r100 < 36524 + (if b = 3 then 1 else 0)"
    unfolding r100_def b_def using q r400 by (cases "3 \<le> r400 div 36524"; simp; linarith)+
  show b: "0 \<le> b" "b \<le> 3" using r400 by (simp_all add: b_def pos_imp_zdiv_nonneg_iff)
  have p: "r100 = 1461 * c + r4" "0 \<le> r4" "r4 < 1461" by (simp_all add: c_def r4_def)
  show c: "0 \<le> c" "c \<le> 24" using p r100 by (auto split: if_splits)
  have s: "r4 = 365 * (r4 div 365) + r4 mod 365" "0 \<le> r4 mod 365" "r4 mod 365 < 365" by simp_all
  show e: "0 \<le> e" "e \<le> 3" using p by (simp_all add: e_def pos_imp_zdiv_nonneg_iff)
  show "n - 1 = 146097 * a + 36524 * b + 1461 * c + 365 * e + (r4 - e * 365)"
    using n p by (simp add: r100_def)
  have u: "0 \<le> r4 - e * 365" "r4 - e * 365 < 365 + (if e = 3 then 1 else 0)"
    unfolding e_def using s p by (cases "3 \<le> r4 div 365"; simp; linarith)+
  then show "0 \<le> r4 - e * 365" by simp
  show "r4 - e * 365 < 365 + (if e = 3 \<and> (c \<noteq> 24 \<or> b = 3) then 1 else 0)"
    using u p r100 by (auto split: if_splits)
qed

lemma from_ordinal_correct: "valid_date (from_ordinal n) \<and> ordinal (from_ordinal n) = n"
proof -
  define a b where "a = (n - 1) div 146097" and "b = min 3 ((n - 1) mod 146097 div 36524)"
  define r100 where "r100 = (n - 1) mod 146097 - b * 36524"
  define c r4 where "c = r100 div 1461" and "r4 = r100 mod 1461"
  define e where "e = min 3 (r4 div 365)"
  define doy where "doy = r4 - e * 365"
  note defs = a_def b_def r100_def c_def r4_def e_def doy_def
  note parts = from_ordinal_parts [of n, folded defs]
  let ?y = "400 * a + 100 * b + 4 * c + e + 1"
  let ?m = "month_at (leap ?y) doy"
  have fr: "from_ordinal n = \<lparr>d_year = ?y, d_month = ?m,
      d_day = doy - days_before_month (leap ?y) ?m + 1\<rparr>"
    unfolding from_ordinal_def Let_def doy_def e_def r4_def c_def r100_def b_def a_def by (rule refl)
  have lp: "leap ?y \<longleftrightarrow> e = 3 \<and> (c \<noteq> 24 \<or> b = 3)" by (rule leap_parts [OF parts(1-6)])
  have doy: "0 \<le> doy" "doy < 365 + leap_day (leap ?y)"
    unfolding leap_day_def lp by (rule parts(8), rule parts(9))
  have "ordinal (from_ordinal n) = days_before_year ?y + doy + 1"
    unfolding fr ordinal_def by simp
  also have "\<dots> = n"
    unfolding days_before_year_parts [OF parts(1-6)] using parts(7) by simp
  finally show ?thesis
    using month_at_day [OF doy] month_at_range [of "leap ?y" doy]
    unfolding valid_date_def by (simp add: fr)
qed

lemmas from_ordinal_simps [simp] =
  conjunct1 [OF from_ordinal_correct] conjunct2 [OF from_ordinal_correct]

text \<open>Months, numbered: the first day of each, and that they follow one another.\<close>

definition month_index :: "date \<Rightarrow> int" where
  "month_index d = 12 * d_year d + d_month d - 1"

definition month_first :: "int \<Rightarrow> int" where
  "month_first k = ordinal \<lparr>d_year = k div 12, d_month = k mod 12 + 1, d_day = 1\<rparr>"

lemma days_before_month_next:
  assumes "1 \<le> m" "m < 12"
  shows "days_before_month (leap y) (m + 1) = days_before_month (leap y) m + days_in_month y m"
proof -
  from assms have "m \<in> {1, 2, 3, 4, 5, 6, 7, 8, 9, 10, 11}"
    unfolding insert_iff empty_iff by presburger
  then show ?thesis by (auto simp: days_before_month_def days_in_month_def leap_day_def)
qed

lemma days_in_month_pos: "0 < days_in_month y m"
  by (simp add: days_in_month_def leap_day_def)

lemma month_first_next:
  "month_first (k + 1) = month_first k + days_in_month (k div 12) (k mod 12 + 1)"
proof (cases "k mod 12 = 11")
  case True
  then have "(k + 1) div 12 = k div 12 + 1" "(k + 1) mod 12 = 0"
    using mod_Suc_parts [of 12 k] by simp_all
  with True show ?thesis
    by (simp add: month_first_def ordinal_def days_before_year_Suc days_before_month_def
        days_in_month_def)
next
  case False
  have k: "k = 12 * (k div 12) + k mod 12" by simp
  have r: "0 \<le> k mod 12" "k mod 12 < 12" by simp_all
  from k have k1: "k + 1 = 12 * (k div 12) + (k mod 12 + 1)" by simp
  have "(k + 1) div 12 = k div 12" using r False by (intro int_div_pos_eq [OF k1]) auto
  moreover have "(k + 1) mod 12 = k mod 12 + 1" using r False by (intro int_mod_pos_eq [OF k1]) auto
  moreover have "days_before_month (leap (k div 12)) (k mod 12 + 1 + 1)
      = days_before_month (leap (k div 12)) (k mod 12 + 1) + days_in_month (k div 12) (k mod 12 + 1)"
    using r False by (intro days_before_month_next) auto
  ultimately show ?thesis by (simp add: month_first_def ordinal_def add.commute)
qed

lemma month_first_mono: "i \<le> j \<Longrightarrow> month_first i \<le> month_first j"
proof (induction j rule: int_ge_induct)
  case (step j)
  then show ?case using days_in_month_pos [of "j div 12" "j mod 12 + 1"]
    by (simp add: month_first_next)
qed simp

lemma month_index_parts:
  assumes "valid_date d"
  shows "month_index d div 12 = d_year d" and "month_index d mod 12 + 1 = d_month d"
proof -
  have k: "month_index d = 12 * d_year d + (d_month d - 1)" by (simp add: month_index_def)
  show "month_index d div 12 = d_year d"
    using assms by (intro int_div_pos_eq [OF k]) (simp_all add: valid_date_def)
  have "month_index d mod 12 = d_month d - 1"
    using assms by (intro int_mod_pos_eq [OF k]) (simp_all add: valid_date_def)
  then show "month_index d mod 12 + 1 = d_month d" by simp
qed

lemma in_month:
  assumes "valid_date d"
  shows "month_first (month_index d) \<le> ordinal d \<and> ordinal d < month_first (month_index d + 1)"
proof -
  have "month_first (month_index d) = ordinal \<lparr>d_year = d_year d, d_month = d_month d, d_day = 1\<rparr>"
    by (simp add: month_first_def month_index_parts [OF assms])
  moreover have "month_first (month_index d + 1)
      = month_first (month_index d) + days_in_month (d_year d) (d_month d)"
    by (simp add: month_first_next month_index_parts [OF assms])
  ultimately show ?thesis using assms by (simp add: ordinal_def valid_date_def)
qed

lemma month_index_le_iff:
  assumes "valid_date d"
  shows "month_first k \<le> ordinal d \<longleftrightarrow> k \<le> month_index d"
proof
  assume "month_first k \<le> ordinal d"
  show "k \<le> month_index d"
  proof (rule ccontr)
    assume "\<not> k \<le> month_index d"
    then have "month_first (month_index d + 1) \<le> month_first k" by (intro month_first_mono) simp
    with \<open>month_first k \<le> ordinal d\<close> in_month [OF assms] show False by simp
  qed
next
  assume "k \<le> month_index d"
  then have "month_first k \<le> month_first (month_index d)" by (rule month_first_mono)
  with in_month [OF assms] show "month_first k \<le> ordinal d" by simp
qed

lemma ordinal_inj:
  assumes "valid_date d" "valid_date d'" "ordinal d = ordinal d'"
  shows "d = d'"
proof -
  have "month_index d = month_index d'"
    using month_index_le_iff [OF assms(1)] month_index_le_iff [OF assms(2)] assms(3)
    by (metis order_antisym order_refl)
  with month_index_parts [OF assms(1)] month_index_parts [OF assms(2)] assms(3)
  show ?thesis by (cases d; cases d') (simp add: ordinal_def)
qed

lemma from_ordinal_ordinal: "valid_date d \<Longrightarrow> from_ordinal (ordinal d) = d"
  by (rule ordinal_inj) simp_all

section \<open>Time zones\<close>

abbreviation (input) micros_per_hour :: int where
  "micros_per_hour \<equiv> 3600000000"

abbreviation (input) micros_per_day :: int where
  "micros_per_day \<equiv> 86400000000"

text \<open>The ordinal of 1970-01-01, where instants are counted from.\<close>

abbreviation (input) epoch_ordinal :: int where
  "epoch_ordinal \<equiv> 719163"

record zone =
  z_offset :: "instant \<Rightarrow> int"
  z_midnight :: "date \<Rightarrow> instant"

definition utc_midnight :: "date \<Rightarrow> instant" where
  "utc_midnight d = (ordinal d - epoch_ordinal) * micros_per_day"

definition fixed_zone :: "int \<Rightarrow> zone" where
  \<comment> \<open>\<open>datetime.timezone\<close>: the same offset at every moment\<close>
  "fixed_zone hours = \<lparr>z_offset = (\<lambda>_. hours * micros_per_hour),
     z_midnight = (\<lambda>d. utc_midnight d - hours * micros_per_hour)\<rparr>"

definition utc :: zone where
  "utc = fixed_zone 0"

definition checked_months :: "(int \<times> int) list" where
  "checked_months = List.product [2000..2050] [1..12]"

datatype clock_error =
    UnknownZone string
  | NotWholeHours string int int int

fun first_uneven :: "zone \<Rightarrow> (int \<times> int) list \<Rightarrow> (int \<times> int) option" where
  "first_uneven z [] = None"
| "first_uneven z ((y, m) # rest) =
     (if z_offset z (utc_midnight \<lparr>d_year = y, d_month = m, d_day = 15\<rparr>) mod micros_per_hour \<noteq> 0
      then Some (y, m) else first_uneven z rest)"

text \<open>\<open>zoneinfo\<close> is the system's time-zone database, \<open>None\<close> where it does not know the name.\<close>

definition zone_named :: "(string \<Rightarrow> zone option) \<Rightarrow> string \<Rightarrow> clock_error + zone" where
  "zone_named zoneinfo name =
     (let cleaned = py_strip name in
      if cleaned = [] \<or> ascii_upper cleaned = ''UTC'' then Inr utc
      else
        (case zoneinfo cleaned of
           None \<Rightarrow> Inl (UnknownZone name)
         | Some z \<Rightarrow>
             (case first_uneven z checked_months of
                Some (y, m) \<Rightarrow> Inl (NotWholeHours name
                  (z_offset z (utc_midnight \<lparr>d_year = y, d_month = m, d_day = 15\<rparr>)) y m)
              | None \<Rightarrow> Inr z)))"

definition local_ordinal :: "zone \<Rightarrow> instant \<Rightarrow> int" where
  "local_ordinal z moment = epoch_ordinal + (moment + z_offset z moment) div micros_per_day"

definition local_date :: "instant \<Rightarrow> zone \<Rightarrow> date" where
  "local_date moment z = from_ordinal (local_ordinal z moment)"

definition midnight :: "date \<Rightarrow> zone \<Rightarrow> instant" where
  "midnight day z = z_midnight z day"

definition day_starts :: "instant \<Rightarrow> zone \<Rightarrow> instant" where
  "day_starts moment z = midnight (local_date moment z) z"

definition day_ends :: "instant \<Rightarrow> zone \<Rightarrow> instant" where
  "day_ends moment z = midnight (add_days (local_date moment z) 1) z"

definition week_starts :: "instant \<Rightarrow> zone \<Rightarrow> instant" where
  "week_starts moment z =
     (let today = local_date moment z in midnight (add_days today (- weekday today)) z)"

definition week_ends :: "instant \<Rightarrow> zone \<Rightarrow> instant" where
  "week_ends moment z =
     (let today = local_date moment z in midnight (add_days today (7 - weekday today)) z)"

definition month_starts :: "instant \<Rightarrow> zone \<Rightarrow> instant" where
  "month_starts moment z = midnight ((local_date moment z)\<lparr>d_day := 1\<rparr>) z"

definition month_ends :: "instant \<Rightarrow> zone \<Rightarrow> instant" where
  "month_ends moment z =
     (let today = local_date moment z;
          (year, month) = (if d_month today = 12 then (d_year today + 1, 1)
                           else (d_year today, d_month today + 1))
      in midnight \<lparr>d_year = year, d_month = month, d_day = 1\<rparr> z)"

text \<open>A \<open>datetime\<close> without an offset is a time on the wall of the installation.\<close>

datatype stamp =
    Aware instant
  | Naive date int

definition read_in :: "stamp \<Rightarrow> (date \<Rightarrow> int \<Rightarrow> instant) \<Rightarrow> instant" where
  \<comment> \<open>\<open>wall\<close> reads a wall-clock time in the zone\<close>
  "read_in value wall = (case value of Aware t \<Rightarrow> t | Naive d t \<Rightarrow> wall d t)"

section \<open>The periods a budget counts by\<close>

definition date_key :: "date \<Rightarrow> string" where
  \<comment> \<open>\<open>%Y-%m-%d\<close>\<close>
  "date_key d = zero_padded 4 (nat (d_year d)) @ ''-'' @ zero_padded 2 (nat (d_month d))
     @ ''-'' @ zero_padded 2 (nat (d_day d))"

definition month_key :: "date \<Rightarrow> string" where
  "month_key d = zero_padded 4 (nat (d_year d)) @ ''-'' @ zero_padded 2 (nat (d_month d))"

definition period_key :: "string \<Rightarrow> instant \<Rightarrow> zone \<Rightarrow> string" where
  "period_key period now z =
     (if period = ''day'' then date_key (local_date now z) else month_key (local_date now z))"

definition period_of :: "string \<Rightarrow> string" where
  "period_of key = (if length key = length ''YYYY-MM-DD'' then ''day'' else ''month'')"

definition period_starts :: "string \<Rightarrow> instant \<Rightarrow> zone \<Rightarrow> instant" where
  "period_starts period now z = (if period = ''day'' then day_starts now z else month_starts now z)"

definition period_ends :: "string \<Rightarrow> instant \<Rightarrow> zone \<Rightarrow> instant" where
  "period_ends period now z = (if period = ''day'' then day_ends now z else month_ends now z)"

definition isoformat :: "instant \<Rightarrow> zone \<Rightarrow> string" where
  \<comment> \<open>\<open>moment.astimezone(zone).isoformat()\<close>\<close>
  "isoformat moment z =
     (let offset = z_offset z moment;
          wall = moment + offset;
          time = wall mod micros_per_day;
          micros = time mod 1000000;
          two = (\<lambda>k. zero_padded 2 (nat k));
          side = \<bar>offset\<bar>
      in date_key (local_date moment z) @ ''T''
         @ two (time div micros_per_hour) @ '':'' @ two (time div 60000000 mod 60)
         @ '':'' @ two (time div 1000000 mod 60)
         @ (if micros = 0 then [] else ''.'' @ zero_padded 6 (nat micros))
         @ (if offset < 0 then ''-'' else ''+'')
         @ two (side div micros_per_hour) @ '':'' @ two (side div 60000000 mod 60)
         @ (if side mod 60000000 = 0 then [] else '':'' @ two (side div 1000000 mod 60)))"

definition resets_at :: "string \<Rightarrow> instant \<Rightarrow> zone \<Rightarrow> string" where
  "resets_at period now z = isoformat (period_ends period now z) z"

section \<open>Where the boundaries fall\<close>

lemma valid_local_date [simp]: "valid_date (local_date m z)"
  by (simp add: local_date_def)

lemma ordinal_local_date [simp]: "ordinal (local_date m z) = local_ordinal z m"
  by (simp add: local_date_def)

lemma local_date_cong: "local_date m z = local_date m' z \<longleftrightarrow> local_ordinal z m = local_ordinal z m'"
  by (metis ordinal_local_date local_date_def)

definition first_of :: "date \<Rightarrow> date" where
  "first_of d = d\<lparr>d_day := 1\<rparr>"

definition next_month :: "date \<Rightarrow> date" where
  "next_month d = (if d_month d = 12 then \<lparr>d_year = d_year d + 1, d_month = 1, d_day = 1\<rparr>
     else \<lparr>d_year = d_year d, d_month = d_month d + 1, d_day = 1\<rparr>)"

lemma month_boundaries:
  "month_starts m z = midnight (first_of (local_date m z)) z"
  "month_ends m z = midnight (next_month (local_date m z)) z"
  by (simp_all add: month_starts_def month_ends_def first_of_def next_month_def Let_def)

lemma first_of_ordinal:
  assumes "valid_date d"
  shows "valid_date (first_of d) \<and> ordinal (first_of d) = month_first (month_index d)"
  using assms days_in_month_pos [of "d_year d" "d_month d"]
  by (simp add: first_of_def valid_date_def month_first_def month_index_parts [OF assms] ordinal_def)

lemma next_month_ordinal:
  assumes "valid_date d"
  shows "valid_date (next_month d) \<and> ordinal (next_month d) = month_first (month_index d + 1)"
proof -
  have v: "valid_date (next_month d)"
    using assms by (auto simp: next_month_def valid_date_def days_in_month_def leap_day_def)
  have "month_index (next_month d) = month_index d + 1"
    using assms by (auto simp: next_month_def month_index_def)
  moreover have "first_of (next_month d) = next_month d" by (simp add: next_month_def first_of_def)
  ultimately show ?thesis using v first_of_ordinal [OF v] by simp
qed

text \<open>
  What the boundaries rely on: a local day has begun exactly when its midnight has passed.
\<close>

locale time_zone =
  fixes z :: zone
  assumes begun: "valid_date d \<Longrightarrow> z_midnight z d \<le> m \<longleftrightarrow> ordinal d \<le> local_ordinal z m"
begin

lemma in_day: "day_starts m z \<le> m' \<and> m' < day_ends m z \<longleftrightarrow> local_date m' z = local_date m z"
  by (auto simp: day_starts_def day_ends_def midnight_def add_days_def begun local_date_cong
      simp flip: not_le)

lemma in_month_of: "month_starts m z \<le> m' \<and> m' < month_ends m z \<longleftrightarrow>
    month_index (local_date m' z) = month_index (local_date m z)"
proof -
  let ?k = "month_index (local_date m z)"
  have "month_starts m z \<le> m' \<longleftrightarrow> ?k \<le> month_index (local_date m' z)"
    using first_of_ordinal [of "local_date m z"] month_index_le_iff [of "local_date m' z" ?k]
    by (simp add: month_boundaries midnight_def begun)
  moreover have "month_ends m z \<le> m' \<longleftrightarrow> ?k + 1 \<le> month_index (local_date m' z)"
    using next_month_ordinal [of "local_date m z"] month_index_le_iff [of "local_date m' z" "?k + 1"]
    by (simp add: month_boundaries midnight_def begun)
  ultimately show ?thesis by auto
qed

lemma day_boundaries_meet: "day_starts (day_ends m z) z = day_ends m z"
proof -
  have "z_midnight z d = day_starts (z_midnight z d) z" if "valid_date d" for d
  proof -
    have le: "ordinal d \<le> local_ordinal z (z_midnight z d)" using begun [OF that, of "z_midnight z d"] by simp
    have "z_midnight z d \<le> day_starts (z_midnight z d) z"
      unfolding day_starts_def midnight_def
      using begun [of "local_date (z_midnight z d) z" "z_midnight z (local_date (z_midnight z d) z)"] le
      by (simp add: begun [OF that])
    moreover have "day_starts (z_midnight z d) z \<le> z_midnight z d"
      by (simp add: day_starts_def midnight_def begun)
    ultimately show ?thesis by simp
  qed
  from this [of "add_days (local_date m z) 1"] show ?thesis
    by (simp add: day_ends_def midnight_def add_days_def)
qed

end

interpretation fixed: time_zone "fixed_zone hours" for hours :: int
proof
  fix d m assume "valid_date d"
  have "ordinal d - epoch_ordinal \<le> (m + hours * micros_per_hour) div micros_per_day \<longleftrightarrow>
      (ordinal d - epoch_ordinal) * micros_per_day \<le> m + hours * micros_per_hour"
    by (simp add: int_le_div_iff)
  then show "z_midnight (fixed_zone hours) d \<le> m \<longleftrightarrow> ordinal d \<le> local_ordinal (fixed_zone hours) m"
    by (auto simp: fixed_zone_def utc_midnight_def local_ordinal_def)
qed

section \<open>Keys\<close>

lemma two_digits: "1 \<le> k \<Longrightarrow> k \<le> 31 \<Longrightarrow> length (zero_padded 2 (nat k)) = 2"
  by (rule length_zero_padded) simp_all

lemma valid_date_two_digits:
  assumes "valid_date d"
  shows "length (zero_padded 2 (nat (d_month d))) = 2" "length (zero_padded 2 (nat (d_day d))) = 2"
  using assms
  by (intro two_digits; auto simp: valid_date_def days_in_month_def leap_day_def split: if_splits)+

lemma month_key_inj:
  assumes "valid_date d" "valid_date d'" "0 \<le> d_year d" "0 \<le> d_year d'"
  shows "month_key d = month_key d' \<longleftrightarrow> month_index d = month_index d'"
proof
  assume "month_key d = month_key d'"
  then have "d_year d = d_year d' \<and> d_month d = d_month d'"
    using valid_date_two_digits [OF assms(1)] valid_date_two_digits [OF assms(2)] assms
    by (simp add: month_key_def zero_padded_inj valid_date_def nat_eq_iff)
  then show "month_index d = month_index d'" by (simp add: month_index_def)
next
  assume "month_index d = month_index d'"
  then show "month_key d = month_key d'"
    using month_index_parts [OF assms(1)] month_index_parts [OF assms(2)] by (simp add: month_key_def)
qed

lemma date_key_inj:
  assumes "valid_date d" "valid_date d'" "0 \<le> d_year d" "0 \<le> d_year d'"
  shows "date_key d = date_key d' \<longleftrightarrow> d = d'"
proof
  assume "date_key d = date_key d'"
  then have "d_year d = d_year d' \<and> d_month d = d_month d' \<and> d_day d = d_day d'"
    using valid_date_two_digits [OF assms(1)] valid_date_two_digits [OF assms(2)] assms
    by (simp add: date_key_def zero_padded_inj valid_date_def nat_eq_iff)
  then show "d = d'" by (cases d; cases d') simp
qed simp

lemma length_keys:
  assumes "valid_date d" "0 \<le> d_year d" "d_year d \<le> 9999"
  shows "length (date_key d) = 10" "length (month_key d) = 7"
  using assms valid_date_two_digits [OF assms(1)]
  by (simp_all add: date_key_def month_key_def length_zero_padded)

section \<open>Properties\<close>

text \<open>
  C27: Two moments share a counter exactly when the second lies between the start and the end of
  the period the first falls in, the end excluded: the key, the start and the end of a period are
  decided by the same clock and agree about every boundary, on the days the clocks change too. It
  holds for every zone whose midnights begin its days.
\<close>

theorem period_window:
  assumes "time_zone z" and "0 \<le> d_year (local_date m z)" and "0 \<le> d_year (local_date m' z)"
  shows "period_key period m' z = period_key period m z
    \<longleftrightarrow> period_starts period m z \<le> m' \<and> m' < period_ends period m z"
  using time_zone.in_day [OF assms(1), of m m'] time_zone.in_month_of [OF assms(1), of m m']
    date_key_inj [of "local_date m' z" "local_date m z"] month_key_inj [of "local_date m' z" "local_date m z"]
    assms(2,3)
  by (simp add: period_key_def period_starts_def period_ends_def)

theorem period_window_witness:
  "let m = 1772319600000000; z = fixed_zone 2
   in period_key ''month'' m z = ''2026-03''
      \<and> period_starts ''month'' m z \<le> m \<and> m < period_ends ''month'' m z"
proof -
  have "local_date 1772319600000000 (fixed_zone 2) = \<lparr>d_year = 2026, d_month = 3, d_day = 1\<rparr>"
    by code_simp
  with period_window [OF fixed.time_zone_axioms [of 2], of 1772319600000000 1772319600000000 "''month''"]
  have "period_starts ''month'' 1772319600000000 (fixed_zone 2) \<le> 1772319600000000
    \<and> 1772319600000000 < period_ends ''month'' 1772319600000000 (fixed_zone 2)" by simp
  moreover have "period_key ''month'' 1772319600000000 (fixed_zone 2) = ''2026-03''" by code_simp
  ultimately show ?thesis by (simp add: Let_def)
qed

text \<open>
  A counter's key names its period: \<open>period_of\<close> reads back the period \<open>period_key\<close> wrote,
  for every moment of the calendar Python has.
\<close>

theorem period_of_period_key:
  assumes "period = ''day'' \<or> period = ''month''"
    and "0 \<le> d_year (local_date m z)" and "d_year (local_date m z) \<le> 9999"
  shows "period_of (period_key period m z) = period"
  using assms length_keys [of "local_date m z"] by (auto simp: period_of_def period_key_def)

theorem period_of_period_key_witness:
  "period_of (period_key ''day'' 1772319600000000 utc) = ''day''
   \<and> period_key ''day'' 1772319600000000 utc = ''2026-02-28''"
proof -
  have "local_date 1772319600000000 utc = \<lparr>d_year = 2026, d_month = 2, d_day = 28\<rparr>" by code_simp
  then have "period_of (period_key ''day'' 1772319600000000 utc) = ''day''"
    using period_of_period_key [of "''day''" 1772319600000000 utc] by simp
  moreover have "period_key ''day'' 1772319600000000 utc = ''2026-02-28''" by code_simp
  ultimately show ?thesis by simp
qed

end
