(* ===== verification/Budgets.thy ===== *)
theory Budgets
  imports Ledger Money Clock
begin

text \<open>
  Budget enforcement (\<open>gateway/src/aira_gateway/budgets/\<close>): which counter a budget is kept under and
  how a refusal names it (\<open>keys.py\<close>), the budgets that bind a request and the usage record
  (\<open>store.py\<close>), and the service that reserves before dispatch and settles or releases after it
  (\<open>service.py\<close>).

  The state is the shared counter store, the usage table and the configured rows. Every call to one
  of the two stores is numbered, and two oracles say which calls fail: a failing counter store
  raises \<open>CountersUnavailable\<close>, a failing database its own error. So every \<open>except\<close> of the source is
  a branch of the model. A reservation is a mutable object in the source; here an operation returns
  it as it leaves it.
\<close>

section \<open>Counters and refusals\<close>

datatype budget_error =
    Exceeded (exceeded_message: string) (exceeded_resets_at: string)
  | CountersUnavailable
  | StoreFailed
  | UnboundBudget int
  | AmountUnprintable

definition budget_row :: "budget_read \<Rightarrow> scoped_row" where
  "budget_row b = \<lparr>sr_scope = b_scope b, sr_use_case = b_use_case b, sr_subject = b_subject b,
     sr_enabled = b_enabled b\<rparr>"

definition scope_key :: "budget_read \<Rightarrow> string option \<Rightarrow> budget_error + string" where
  "scope_key b caller =
     (case scope_applying (b_scope b) (b_use_case b) caller (b_subject b) of
        None \<Rightarrow> Inl (UnboundBudget (b_id b))
      | Some s \<Rightarrow> Inr (usage_key s))"

definition budget_scope_label :: "budget_read \<Rightarrow> string" where
  "budget_scope_label b =
     (if b_scope b = scope_installation_word then ''installation''
      else if b_scope b = scope_member_word then ''individual member''
      else if b_scope b = scope_use_case_word then ''use case'' else ''member'')"

definition limit_of :: "budget_read \<Rightarrow> string \<Rightarrow> int option" where
  "limit_of b dimension =
     (if dimension = ''cost'' then b_limit_cost_nanos b
      else if dimension = ''requests'' then b_limit_requests b
      else b_limit_tokens b)"

definition amount_of :: "amounts \<Rightarrow> string \<Rightarrow> int" where
  "amount_of a dimension =
     (if dimension = ''cost'' then a_cost a
      else if dimension = ''requests'' then a_requests a
      else a_tokens a)"

definition amount_text :: "string \<Rightarrow> int \<Rightarrow> string option" where
  \<comment> \<open>\<open>None\<close> where \<open>format_display\<close> raises \<open>InvalidOperation\<close>: an amount of 29 digits\<close>
  "amount_text dimension n = (if dimension = ''cost'' then format_display n else Some (show_int n))"

definition breach_message :: "string \<Rightarrow> string \<Rightarrow> string \<Rightarrow> string" where
  "breach_message dimension scope period =
     (if dimension = ''cost'' then ''Cost'' else if dimension = ''requests'' then ''Request'' else ''Token'')
     @ '' budget exhausted for '' @ scope @ '' ('' @ period @ '').''"

definition alone_message :: "string \<Rightarrow> string \<Rightarrow> string \<Rightarrow> string \<Rightarrow> string \<Rightarrow> string" where
  "alone_message dimension scope period asked limit =
     (if dimension = ''cost'' then
        ''Cost budget for '' @ scope @ '' ('' @ period @ '') cannot take this request: it alone is estimated at ''
        @ asked @ '', more than the whole limit of '' @ limit @ ''. Asking for fewer output tokens can fit.''
      else if dimension = ''requests'' then
        ''Request budget for '' @ scope @ '' ('' @ period @ '') cannot take this request: its limit is ''
        @ limit @ ''.''
      else
        ''Token budget for '' @ scope @ '' ('' @ period @ '') cannot take this request: it alone is estimated at ''
        @ asked @ '' tokens, more than the whole limit of '' @ limit
        @ ''. Asking for fewer output tokens can fit.'')"

definition held_message :: "string \<Rightarrow> string \<Rightarrow> string \<Rightarrow> string" where
  "held_message dimension scope period =
     (if dimension = ''cost'' then ''Cost'' else if dimension = ''requests'' then ''Request'' else ''Token'')
     @ '' budget for '' @ scope @ '' ('' @ period
     @ '') is held by requests still in flight: their reservations free as they finish.''
     @ (if dimension = ''requests'' then [] else '' Asking for fewer output tokens reserves less.'')"

definition exceeded ::
  "budget_read \<Rightarrow> string \<Rightarrow> instant \<Rightarrow> amounts option \<Rightarrow> amounts option \<Rightarrow> zone \<Rightarrow> budget_error" where
  "exceeded b dimension now asked settled z =
     (let scope = budget_scope_label b;
          period = b_period b;
          resets = resets_at (b_period b) now z;
          limit = limit_of b dimension;
          alone = (case asked of None \<Rightarrow> 0 | Some a \<Rightarrow> amount_of a dimension);
          booked = map_option (\<lambda>a. amount_of a dimension) settled;
          message =
            (case limit of
               None \<Rightarrow> Some (breach_message dimension scope period)
             | Some l \<Rightarrow>
                 if (case booked of Some u \<Rightarrow> u < l | None \<Rightarrow> False)
                 then Some (held_message dimension scope period)
                 else if alone > l
                 then (case (amount_text dimension alone, amount_text dimension l) of
                         (Some asked_text, Some limit_text) \<Rightarrow>
                           Some (alone_message dimension scope period asked_text limit_text)
                       | _ \<Rightarrow> None)
                 else Some (breach_message dimension scope period))
      in (case message of
            None \<Rightarrow> AmountUnprintable
          | Some text \<Rightarrow> Exceeded (text @ '' It resets at '' @ resets @ ''.'') resets))"

section \<open>The stores\<close>

record budget_world =
  bw_budgets :: "budget_read list"
  bw_usage :: usage_table
  bw_ledger :: ledger
  bw_clock :: int
  bw_calls :: nat

record budget_env =
  be_enforce :: bool
  be_has_ledger :: bool
  be_zone :: zone
  be_counters_down :: "nat \<Rightarrow> bool"
  be_database_down :: "nat \<Rightarrow> bool"

definition called :: "budget_world \<Rightarrow> budget_world" where
  "called w = w\<lparr>bw_calls := Suc (bw_calls w)\<rparr>"

definition query :: "budget_env \<Rightarrow> (budget_world \<Rightarrow> 'a) \<Rightarrow> budget_world \<Rightarrow> (budget_error + 'a) \<times> budget_world" where
  "query env read w =
     (if be_database_down env (bw_calls w) then (Inl StoreFailed, called w)
      else (Inr (read w), called w))"

definition slot_of :: "budget_read \<Rightarrow> string" where
  "slot_of b = b_period b"

definition use_case_rows :: "use_case option \<Rightarrow> budget_read list \<Rightarrow> budget_read list" where
  "use_case_rows use_case rows =
     List.filter (\<lambda>b. b_use_case b = (case use_case of None \<Rightarrow> [] | Some u \<Rightarrow> u)) rows"

definition applicable ::
  "budget_env \<Rightarrow> use_case option \<Rightarrow> string option \<Rightarrow> budget_world
     \<Rightarrow> (budget_error + budget_read list) \<times> budget_world" where
  "applicable env use_case subject =
     query env (\<lambda>w. binding budget_row slot_of subject (use_case_rows use_case (bw_budgets w)))"

definition no_usage :: budget_usage where
  "no_usage = \<lparr>bu_tokens = 0, bu_requests = 0, bu_cost_nanos = 0, bu_unpriced_requests = 0\<rparr>"

definition usage_at :: "usage_table \<Rightarrow> string \<Rightarrow> string \<Rightarrow> budget_usage" where
  "usage_at t sk pk = (case t (sk, pk) of None \<Rightarrow> no_usage | Some u \<Rightarrow> u)"

definition read_usage ::
  "budget_env \<Rightarrow> string \<Rightarrow> string \<Rightarrow> budget_world \<Rightarrow> (budget_error + budget_usage) \<times> budget_world" where
  "read_usage env sk pk = query env (\<lambda>w. usage_at (bw_usage w) sk pk)"

definition accumulate ::
  "string \<Rightarrow> string \<Rightarrow> int \<Rightarrow> int \<Rightarrow> int option \<Rightarrow> usage_table \<Rightarrow> usage_table" where
  "accumulate sk pk tokens requests nanos t =
     (let unpriced = (if nanos = None then requests else 0);
          cost = (case nanos of None \<Rightarrow> 0 | Some c \<Rightarrow> c)
      in t((sk, pk) \<mapsto>
           (case t (sk, pk) of
              None \<Rightarrow> \<lparr>bu_tokens = tokens, bu_requests = requests, bu_cost_nanos = cost,
                       bu_unpriced_requests = unpriced\<rparr>
            | Some u \<Rightarrow> \<lparr>bu_tokens = bu_tokens u + tokens, bu_requests = bu_requests u + requests,
                         bu_cost_nanos = bu_cost_nanos u + cost,
                         bu_unpriced_requests = bu_unpriced_requests u + unpriced\<rparr>)))"

text \<open>The two scripts, called over the network.\<close>

definition ledger_reserve ::
  "budget_env \<Rightarrow> string \<Rightarrow> string \<Rightarrow> limits \<Rightarrow> amounts \<Rightarrow> amounts \<Rightarrow> string \<Rightarrow> instant \<Rightarrow> budget_world
     \<Rightarrow> (budget_error + string option) \<times> budget_world" where
  "ledger_reserve env sk pk lims am seed ident now w =
     (if be_counters_down env (bw_calls w) then (Inl CountersUnavailable, called w)
      else
        (case reserve (bw_clock w) sk pk lims am seed ident (now div micros_per_second) (bw_ledger w) of
           (breach, L) \<Rightarrow> (Inr breach, called (w\<lparr>bw_ledger := L\<rparr>))))"

definition ledger_adjust ::
  "budget_env \<Rightarrow> string \<Rightarrow> string \<Rightarrow> amounts \<Rightarrow> string \<Rightarrow> budget_world \<Rightarrow> (budget_error + unit) \<times> budget_world" where
  "ledger_adjust env sk pk am ident w =
     (if be_counters_down env (bw_calls w) then (Inl CountersUnavailable, called w)
      else (Inr (), called (w\<lparr>bw_ledger := adjust (bw_clock w) sk pk am ident (bw_ledger w)\<rparr>)))"

section \<open>The service\<close>

record reservation =
  r_budgets :: "budget_read list"
  r_lifted :: "budget_read list"
  r_subject :: "string option"
  r_reserved :: amounts
  r_period_keys :: "int \<Rightarrow> string option"
  r_atomic :: bool
  r_resolved :: bool
  r_ident :: string

definition new_reservation :: "string \<Rightarrow> reservation" where
  "new_reservation ident = \<lparr>r_budgets = [], r_lifted = [], r_subject = None, r_reserved = 0,
     r_period_keys = Map.empty, r_atomic = False, r_resolved = False, r_ident = ident\<rparr>"

definition reservation_nonempty :: "reservation \<Rightarrow> bool" where
  "reservation_nonempty r = (r_budgets r \<noteq> [] \<or> r_lifted r \<noteq> [])"

fun move ::
  "budget_env \<Rightarrow> reservation \<Rightarrow> amounts \<Rightarrow> budget_read list \<Rightarrow> budget_world
     \<Rightarrow> (budget_error + unit) \<times> budget_world" where
  "move env r am [] w = (Inr (), w)"
| "move env r am (b # bs) w =
     (case r_period_keys r (b_id b) of
        None \<Rightarrow> move env r am bs w
      | Some pk \<Rightarrow>
          (case scope_key b (r_subject r) of
             Inl e \<Rightarrow> (Inl e, w)
           | Inr sk \<Rightarrow> move env r am bs (snd (ledger_adjust env sk pk am (r_ident r) w))))"

definition release ::
  "budget_env \<Rightarrow> reservation \<Rightarrow> budget_world \<Rightarrow> (budget_error + unit) \<times> reservation \<times> budget_world" where
  "release env r w =
     (let r' = r\<lparr>r_resolved := True\<rparr> in
      if \<not> r_atomic r \<or> \<not> be_has_ledger env then (Inr (), r', w)
      else (case move env r (negated (r_reserved r)) (r_budgets r) w of (res, w') \<Rightarrow> (res, r', w')))"

definition release_quietly :: "budget_env \<Rightarrow> reservation \<Rightarrow> budget_world \<Rightarrow> reservation \<times> budget_world" where
  "release_quietly env r w = snd (release env r w)"

definition budget_limits :: "budget_read \<Rightarrow> limits" where
  "budget_limits b = \<lparr>lim_tokens = b_limit_tokens b, lim_requests = b_limit_requests b,
     lim_cost_nanos = b_limit_cost_nanos b\<rparr>"

definition seed_of :: "budget_usage \<Rightarrow> amounts" where
  "seed_of u = Amounts (bu_tokens u) (bu_requests u) (bu_cost_nanos u)"

fun reserve_each ::
  "budget_env \<Rightarrow> instant \<Rightarrow> budget_read list \<Rightarrow> reservation \<Rightarrow> budget_world
     \<Rightarrow> (budget_error + unit) \<times> reservation \<times> budget_world" where
  "reserve_each env now [] r w = (Inr (), r\<lparr>r_resolved := False\<rparr>, w)"
| "reserve_each env now (b # bs) r w =
     (case scope_key b (r_subject r) of
        Inl e \<Rightarrow> (Inl e, r, w)
      | Inr sk \<Rightarrow>
          let pk = period_key (b_period b) now (be_zone env) in
          case read_usage env sk pk w of
            (Inl e, w1) \<Rightarrow> (Inl e, r, w1)
          | (Inr u, w1) \<Rightarrow>
              (case ledger_reserve env sk pk (budget_limits b) (r_reserved r) (seed_of u) (r_ident r) now w1 of
                 (Inl e, w2) \<Rightarrow> (Inl e, r, w2)
               | (Inr (Some breach), w2) \<Rightarrow>
                   (case release env r w2 of
                      (Inl e, r', w3) \<Rightarrow> (Inl e, r', w3)
                    | (Inr _, r', w3) \<Rightarrow>
                        (Inl (exceeded b breach now (Some (r_reserved r)) (Some (seed_of u)) (be_zone env)), r', w3))
               | (Inr None, w2) \<Rightarrow>
                   reserve_each env now bs (r\<lparr>r_period_keys := (r_period_keys r)(b_id b \<mapsto> pk)\<rparr>) w2))"

definition postgres_breach :: "budget_read \<Rightarrow> budget_usage \<Rightarrow> string option" where
  "postgres_breach b u =
     (let over = (\<lambda>limit used. case limit of None \<Rightarrow> False | Some l \<Rightarrow> l \<le> used)
      in if over (b_limit_cost_nanos b) (bu_cost_nanos u) then Some ''cost''
         else if over (b_limit_requests b) (bu_requests u) then Some ''requests''
         else if over (b_limit_tokens b) (bu_tokens u) then Some ''tokens''
         else None)"

fun check_only ::
  "budget_env \<Rightarrow> budget_read list \<Rightarrow> instant \<Rightarrow> string option \<Rightarrow> budget_world
     \<Rightarrow> (budget_error + unit) \<times> budget_world" where
  "check_only env [] now caller w = (Inr (), w)"
| "check_only env (b # bs) now caller w =
     (case scope_key b caller of
        Inl e \<Rightarrow> (Inl e, w)
      | Inr sk \<Rightarrow>
          (case read_usage env sk (period_key (b_period b) now (be_zone env)) w of
             (Inl e, w1) \<Rightarrow> (Inl e, w1)
           | (Inr u, w1) \<Rightarrow>
               (case postgres_breach b u of
                  Some breach \<Rightarrow> (Inl (exceeded b breach now None None (be_zone env)), w1)
                | None \<Rightarrow> check_only env bs now caller w1)))"

definition period_keys_of :: "budget_read list \<Rightarrow> instant \<Rightarrow> zone \<Rightarrow> int \<Rightarrow> string option" where
  "period_keys_of rows now z = map_of (rev (map (\<lambda>b. (b_id b, period_key (b_period b) now z)) rows))"

text \<open>
  \<open>guard\<close>. \<open>ident\<close> and \<open>ident'\<close> are the identifiers drawn for the reservation made on the shared
  counters and for the one the Postgres path returns.
\<close>

definition guard ::
  "budget_env \<Rightarrow> use_case option \<Rightarrow> string option \<Rightarrow> instant \<Rightarrow> amounts option \<Rightarrow> string \<Rightarrow> string
     \<Rightarrow> budget_world \<Rightarrow> (budget_error + reservation) \<times> budget_world" where
  "guard env use_case subject now estimated ident ident' w =
     (let am = (case estimated of None \<Rightarrow> Amounts 0 1 0 | Some a \<Rightarrow> a) in
      case applicable env use_case subject w of
        (Inl e, w1) \<Rightarrow> (Inl e, w1)
      | (Inr [], w1) \<Rightarrow> (Inr (new_reservation ident'), w1)
      | (Inr rows, w1) \<Rightarrow>
          let periods = period_keys_of rows now (be_zone env);
              budgets = List.filter b_enabled rows;
              lifted = List.filter (\<lambda>b. \<not> b_enabled b) rows;
              plain = (new_reservation ident')\<lparr>r_budgets := budgets, r_lifted := lifted,
                r_subject := subject, r_period_keys := periods\<rparr>;
              fall_back = (\<lambda>w. case check_only env budgets now subject w of
                  (Inl e, w') \<Rightarrow> (Inl e, w')
                | (Inr _, w') \<Rightarrow> (Inr plain, w'))
          in if \<not> be_enforce env then (Inr plain, w1)
             else if be_has_ledger env then
               let part = (new_reservation ident)\<lparr>r_budgets := budgets, r_lifted := lifted,
                     r_subject := subject, r_reserved := am,
                     r_period_keys := period_keys_of lifted now (be_zone env), r_atomic := True\<rparr>
               in case reserve_each env now budgets part w1 of
                    (Inr _, r, w2) \<Rightarrow> (Inr r, w2)
                  | (Inl CountersUnavailable, r, w2) \<Rightarrow>
                      (case release env r w2 of
                         (Inl e, _, w3) \<Rightarrow> (Inl e, w3)
                       | (Inr _, _, w3) \<Rightarrow> fall_back w3)
                  | (Inl e, r, w2) \<Rightarrow>
                      (Inl e, if r_resolved r then w2 else snd (release_quietly env r w2))
             else fall_back w1)"

definition refuse_if_exhausted ::
  "budget_env \<Rightarrow> use_case option \<Rightarrow> string option \<Rightarrow> instant \<Rightarrow> budget_world
     \<Rightarrow> (budget_error + unit) \<times> budget_world" where
  "refuse_if_exhausted env use_case subject now w =
     (if \<not> truthy use_case \<or> \<not> be_enforce env then (Inr (), w)
      else
        (case applicable env use_case subject w of
           (Inl e, w1) \<Rightarrow> (Inl e, w1)
         | (Inr rows, w1) \<Rightarrow> check_only env (List.filter b_enabled rows) now subject w1))"

text \<open>The block under \<open>hold\<close> may do anything to the reservation and the stores, and may raise.\<close>

definition hold ::
  "budget_env \<Rightarrow> (reservation \<Rightarrow> budget_world \<Rightarrow> 'a \<times> reservation \<times> budget_world)
     \<Rightarrow> reservation \<Rightarrow> budget_world \<Rightarrow> 'a \<times> reservation \<times> budget_world" where
  "hold env block r w =
     (case block r w of (out, r1, w1) \<Rightarrow>
        if r_resolved r1 then (out, r1, w1)
        else (case release_quietly env r1 w1 of (r2, w2) \<Rightarrow> (out, r2, w2)))"

text \<open>One transaction: whatever fails in it leaves the table as it was.\<close>

fun book_each ::
  "budget_env \<Rightarrow> (int \<Rightarrow> string option) \<Rightarrow> string option \<Rightarrow> instant \<Rightarrow> int \<Rightarrow> int \<Rightarrow> int option
     \<Rightarrow> budget_read list \<Rightarrow> usage_table \<Rightarrow> nat \<Rightarrow> (budget_error + usage_table) \<times> nat" where
  "book_each env periods subject now tokens requests nanos [] t calls =
     (if be_database_down env calls then (Inl StoreFailed, Suc calls) else (Inr t, Suc calls))"
| "book_each env periods subject now tokens requests nanos (b # bs) t calls =
     (case scope_key b subject of
        Inl e \<Rightarrow> (Inl e, calls)
      | Inr sk \<Rightarrow>
          let pk = (if truthy (periods (b_id b)) then the (periods (b_id b))
                    else period_key (b_period b) now (be_zone env))
          in if be_database_down env calls then (Inl StoreFailed, Suc calls)
             else book_each env periods subject now tokens requests nanos bs
                    (accumulate sk pk tokens requests nanos t) (Suc calls))"

definition record_usage ::
  "budget_env \<Rightarrow> budget_read list \<Rightarrow> int \<Rightarrow> int option \<Rightarrow> instant \<Rightarrow> int \<Rightarrow> string option
     \<Rightarrow> (int \<Rightarrow> string option) \<Rightarrow> budget_world \<Rightarrow> (budget_error + unit) \<times> budget_world" where
  "record_usage env budgets tokens nanos now requests subject periods w =
     (if budgets = [] then (Inr (), w)
      else
        (case book_each env periods subject now tokens requests nanos budgets (bw_usage w) (bw_calls w) of
           (Inl e, calls) \<Rightarrow> (Inl e, w\<lparr>bw_calls := calls\<rparr>)
         | (Inr t, calls) \<Rightarrow> (Inr (), w\<lparr>bw_usage := t, bw_calls := calls\<rparr>)))"

fun add_each ::
  "budget_env \<Rightarrow> string option \<Rightarrow> (int \<Rightarrow> string option) \<Rightarrow> amounts \<Rightarrow> instant \<Rightarrow> budget_read list
     \<Rightarrow> budget_world \<Rightarrow> (budget_error + unit) \<times> budget_world" where
  "add_each env subject periods am now [] w = (Inr (), w)"
| "add_each env subject periods am now (b # bs) w =
     (case scope_key b subject of
        Inl e \<Rightarrow> (Inl e, w)
      | Inr sk \<Rightarrow>
          let pk = (if truthy (periods (b_id b)) then the (periods (b_id b))
                    else period_key (b_period b) now (be_zone env))
          in add_each env subject periods am now bs (snd (ledger_adjust env sk pk am [] w)))"

definition add_to_counters ::
  "budget_env \<Rightarrow> budget_read list \<Rightarrow> string option \<Rightarrow> (int \<Rightarrow> string option) \<Rightarrow> amounts \<Rightarrow> instant
     \<Rightarrow> budget_world \<Rightarrow> (budget_error + unit) \<times> budget_world" where
  "add_to_counters env budgets subject periods am now w =
     (if \<not> be_has_ledger env then (Inr (), w) else add_each env subject periods am now budgets w)"

definition settle ::
  "budget_env \<Rightarrow> reservation \<Rightarrow> int \<Rightarrow> int option \<Rightarrow> instant \<Rightarrow> int \<Rightarrow> budget_world
     \<Rightarrow> (budget_error + unit) \<times> reservation \<times> budget_world" where
  "settle env r tokens nanos now requests w =
     (let r' = r\<lparr>r_resolved := True\<rparr>;
          actual = Amounts tokens requests (case nanos of None \<Rightarrow> 0 | Some c \<Rightarrow> c)
      in if \<not> reservation_nonempty r then (Inr (), r', w)
         else
           (case record_usage env (r_budgets r @ r_lifted r) tokens nanos now requests (r_subject r)
                   (r_period_keys r) w of
              (Inl e, w1) \<Rightarrow> (Inl e, r', w1)
            | (Inr _, w1) \<Rightarrow>
                (case add_to_counters env (r_lifted r) (r_subject r) (r_period_keys r) actual now w1 of
                   (Inl e, w2) \<Rightarrow> (Inl e, r', w2)
                 | (Inr _, w2) \<Rightarrow>
                     if \<not> r_atomic r \<or> \<not> be_has_ledger env then (Inr (), r', w2)
                     else (case move env r (actual - r_reserved r) (r_budgets r) w2 of
                             (res, w3) \<Rightarrow> (res, r', w3)))))"

definition book_side_call ::
  "budget_env \<Rightarrow> use_case option \<Rightarrow> string option \<Rightarrow> int \<Rightarrow> int option \<Rightarrow> instant \<Rightarrow> budget_world
     \<Rightarrow> (budget_error + unit) \<times> budget_world" where
  "book_side_call env use_case subject tokens nanos now w =
     (if \<not> truthy use_case \<or> tokens \<le> 0 then (Inr (), w)
      else
        (case applicable env use_case subject w of
           (Inl e, w1) \<Rightarrow> (Inl e, w1)
         | (Inr rows, w1) \<Rightarrow>
             (case record_usage env rows tokens nanos now 1 subject Map.empty w1 of
                (Inl e, w2) \<Rightarrow> (Inl e, w2)
              | (Inr _, w2) \<Rightarrow>
                  add_to_counters env rows subject Map.empty
                    (Amounts tokens 1 (case nanos of None \<Rightarrow> 0 | Some c \<Rightarrow> c)) now w2)))"

definition cost_limited ::
  "budget_env \<Rightarrow> use_case option \<Rightarrow> string option \<Rightarrow> budget_world \<Rightarrow> (budget_error + bool) \<times> budget_world" where
  "cost_limited env use_case subject w =
     (if \<not> be_enforce env then (Inr False, w)
      else
        (case applicable env use_case subject w of
           (Inl e, w1) \<Rightarrow> (Inl e, w1)
         | (Inr rows, w1) \<Rightarrow>
             (Inr (list_ex (\<lambda>b. b_enabled b \<and> b_limit_cost_nanos b \<noteq> None) rows), w1)))"

section \<open>The consumption view\<close>

record budget_view =
  v_id :: int
  v_measured_for :: "string option"
  v_scope :: string
  v_period :: string
  v_period_ends :: string
  v_enabled :: bool
  v_binds :: bool
  v_replaced_by :: "int option"
  v_limit_cost_nanos :: "int option"
  v_limit_cost :: "string option"
  v_limit_tokens :: "int option"
  v_limit_requests :: "int option"
  v_used_tokens :: "int option"
  v_used_requests :: "int option"
  v_used_cost_nanos :: "int option"
  v_used_cost :: "string option"
  v_unpriced_requests :: "int option"
  v_remaining_cost_nanos :: "int option"
  v_remaining_cost :: "string option"
  v_remaining_tokens :: "int option"
  v_remaining_requests :: "int option"

definition left_of :: "int option \<Rightarrow> int \<Rightarrow> int option" where
  "left_of limit used = (case limit of None \<Rightarrow> None | Some l \<Rightarrow> Some (l - used))"

definition shown :: "int option \<Rightarrow> budget_error + string option" where
  "shown amount =
     (case amount of
        None \<Rightarrow> Inr None
      | Some n \<Rightarrow> (case format_display n of None \<Rightarrow> Inl AmountUnprintable | Some s \<Rightarrow> Inr (Some s)))"

definition view_start ::
  "zone \<Rightarrow> instant \<Rightarrow> string option \<Rightarrow> budget_read list \<Rightarrow> budget_read \<Rightarrow> budget_error + budget_view" where
  "view_start z now subject bound b =
     (let person_counted = per_person (b_scope b);
          bound_here = b_id b \<in> b_id ` set bound;
          applies_here = scope_applying (b_scope b) (b_use_case b) subject (b_subject b) \<noteq> None;
          personal = map_of (rev (map (\<lambda>q. (slot_of q, b_id q))
            (List.filter (\<lambda>q. per_person (b_scope q)) bound)))
      in sum_bind (shown (b_limit_cost_nanos b)) (\<lambda>limit_cost. Inr
           \<lparr>v_id = b_id b,
            v_measured_for = (if person_counted then (if bound_here then subject else None) else Some []),
            v_scope = b_scope b, v_period = b_period b,
            v_period_ends = resets_at (b_period b) now z,
            v_enabled = b_enabled b, v_binds = bound_here,
            v_replaced_by = (if person_counted \<and> applies_here \<and> \<not> bound_here
              then personal (slot_of b) else None),
            v_limit_cost_nanos = b_limit_cost_nanos b, v_limit_cost = limit_cost,
            v_limit_tokens = b_limit_tokens b, v_limit_requests = b_limit_requests b,
            v_used_tokens = None, v_used_requests = None, v_used_cost_nanos = None,
            v_used_cost = None, v_unpriced_requests = None, v_remaining_cost_nanos = None,
            v_remaining_cost = None, v_remaining_tokens = None, v_remaining_requests = None\<rparr>))"

definition view_figures :: "budget_read \<Rightarrow> budget_usage \<Rightarrow> budget_view \<Rightarrow> budget_error + budget_view" where
  "view_figures b u row =
     (let left_cost = left_of (b_limit_cost_nanos b) (bu_cost_nanos u)
      in sum_bind (shown (Some (bu_cost_nanos u))) (\<lambda>used_cost.
         sum_bind (shown left_cost) (\<lambda>remaining_cost. Inr
           (row\<lparr>v_used_tokens := Some (bu_tokens u), v_used_requests := Some (bu_requests u),
            v_used_cost_nanos := Some (bu_cost_nanos u), v_used_cost := used_cost,
            v_unpriced_requests := Some (bu_unpriced_requests u),
            v_remaining_cost_nanos := left_cost, v_remaining_cost := remaining_cost,
            v_remaining_tokens := left_of (b_limit_tokens b) (bu_tokens u),
            v_remaining_requests := left_of (b_limit_requests b) (bu_requests u)\<rparr>))))"

fun view_rows ::
  "budget_env \<Rightarrow> instant \<Rightarrow> string option \<Rightarrow> budget_read list \<Rightarrow> budget_read list \<Rightarrow> budget_world
     \<Rightarrow> (budget_error + budget_view list) \<times> budget_world" where
  "view_rows env now subject bound [] w = (Inr [], w)"
| "view_rows env now subject bound (b # bs) w =
     (case view_start (be_zone env) now subject bound b of
        Inl e \<Rightarrow> (Inl e, w)
      | Inr row \<Rightarrow>
          (case (if b_id b \<in> b_id ` set bound
                 then scope_applying (b_scope b) (b_use_case b) subject (b_subject b) else None) of
             None \<Rightarrow>
               (case view_rows env now subject bound bs w of
                  (Inl e, w') \<Rightarrow> (Inl e, w') | (Inr rows, w') \<Rightarrow> (Inr (row # rows), w'))
           | Some s \<Rightarrow>
               (case read_usage env (usage_key s) (period_key (b_period b) now (be_zone env)) w of
                  (Inl e, w1) \<Rightarrow> (Inl e, w1)
                | (Inr u, w1) \<Rightarrow>
                    (case view_figures b u row of
                       Inl e \<Rightarrow> (Inl e, w1)
                     | Inr row' \<Rightarrow>
                         (case view_rows env now subject bound bs w1 of
                            (Inl e, w') \<Rightarrow> (Inl e, w')
                          | (Inr rows, w') \<Rightarrow> (Inr (row' # rows), w'))))))"

definition usage_view ::
  "budget_env \<Rightarrow> use_case \<Rightarrow> instant \<Rightarrow> string option \<Rightarrow> budget_world
     \<Rightarrow> (budget_error + budget_view list) \<times> budget_world" where
  "usage_view env use_case now subject w =
     (case query env (\<lambda>w. List.filter (\<lambda>b. b_use_case b = use_case) (bw_budgets w)) w of
        (Inl e, w1) \<Rightarrow> (Inl e, w1)
      | (Inr rows, w1) \<Rightarrow>
          view_rows env now subject (binding budget_row slot_of subject rows) rows w1)"

section \<open>Which counters a request is booked on\<close>

lemma scope_key_bound:
  assumes "applies caller (budget_row b)"
  shows "\<exists>s. scope_applying (b_scope b) (b_use_case b) caller (b_subject b) = Some s
    \<and> scope_key b caller = Inr (usage_key s)"
  using assms by (auto simp: applies_def budget_row_def scope_key_def)

definition counter_key :: "string option \<Rightarrow> budget_read \<Rightarrow> string" where
  "counter_key caller b = (case scope_key b caller of Inl _ \<Rightarrow> [] | Inr sk \<Rightarrow> sk)"

definition budget_counter ::
  "instant \<Rightarrow> zone \<Rightarrow> string option \<Rightarrow> budget_read \<Rightarrow> string \<times> string" where
  "budget_counter now z caller b = (counter_key caller b, period_key (b_period b) now z)"

definition countable :: "instant \<Rightarrow> zone \<Rightarrow> budget_read \<Rightarrow> bool" where
  "countable now z b = (b_period b \<in> {''day'', ''month''} \<and>
     0 \<le> d_year (local_date now z) \<and> d_year (local_date now z) \<le> 9999)"

lemma countable_period: "countable now z b \<Longrightarrow> period_of (period_key (b_period b) now z) = b_period b"
  using length_keys [of "local_date now z"] by (auto simp: countable_def period_of_def period_key_def)

interpretation budget_rows: scoped_rows budget_row slot_of "budget_counter now z" "countable now z"
  for now :: instant and z :: zone
proof
  fix r r' :: budget_read and caller
  assume "countable now z r" "countable now z r'"
    and "budget_counter now z caller r = budget_counter now z caller r'"
  then show "slot_of r = slot_of r'"
    by (metis Pair_inject budget_counter_def countable_period slot_of_def)
qed

definition healthy :: "budget_env \<Rightarrow> bool" where
  "healthy env = ((\<forall>n. \<not> be_counters_down env n) \<and> (\<forall>n. \<not> be_database_down env n))"

lemma healthyD [simp]:
  "healthy env \<Longrightarrow> \<not> be_counters_down env n"
  "healthy env \<Longrightarrow> \<not> be_database_down env n"
  by (simp_all add: healthy_def)

lemma called_sel [simp]:
  "bw_budgets (called w) = bw_budgets w" "bw_usage (called w) = bw_usage w"
  "bw_ledger (called w) = bw_ledger w" "bw_clock (called w) = bw_clock w"
  by (simp_all add: called_def)

definition bound_budgets :: "use_case option \<Rightarrow> string option \<Rightarrow> budget_world \<Rightarrow> budget_read list" where
  "bound_budgets use_case subject w =
     binding budget_row slot_of subject (use_case_rows use_case (bw_budgets w))"

lemma applicable_up:
  "\<not> be_database_down env (bw_calls w) \<Longrightarrow>
   applicable env use_case subject w = (Inr (bound_budgets use_case subject w), called w)"
  by (simp add: applicable_def query_def bound_budgets_def)

lemma bound_budgets_keyed:
  assumes "b \<in> set (bound_budgets use_case subject w)"
  shows "scope_key b subject = Inr (counter_key subject b)"
proof -
  have "applies subject (budget_row b)"
    using assms unfolding bound_budgets_def by (rule conjunct2 [OF binding_subset])
  from scope_key_bound [OF this] show ?thesis by (auto simp: counter_key_def)
qed

lemma distinct_map_enumerate: "distinct (map f xs) \<Longrightarrow> distinct (map (\<lambda>p. f (snd p)) (List.enumerate n xs))"
  by (induction xs arbitrary: n) (auto simp: in_set_enumerate_eq)

lemma distinct_ids_binding:
  assumes "distinct (map f rows)"
  shows "distinct (map f (binding view slot caller rows))"
  using distinct_map_enumerate [OF assms, of 0]
  by (simp add: binding_bound_rows bound_rows_def applying_rows_def distinct_map_filter comp_def)

lemma distinct_ids_bound:
  "distinct (map b_id (bw_budgets w)) \<Longrightarrow> distinct (map b_id (bound_budgets use_case subject w))"
  unfolding bound_budgets_def use_case_rows_def
  by (intro distinct_ids_binding distinct_map_filter)

text \<open>The counters a reservation has taken from, and what moving it does to each.\<close>

definition taken :: "reservation \<Rightarrow> budget_read list \<Rightarrow> (string \<times> string) list" where
  "taken r bs = List.map_filter
     (\<lambda>b. map_option (\<lambda>pk. (counter_key (r_subject r) b, pk)) (r_period_keys r (b_id b))) bs"

definition adjust_all :: "int \<Rightarrow> amounts \<Rightarrow> string \<Rightarrow> (string \<times> string) list \<Rightarrow> ledger \<Rightarrow> ledger" where
  "adjust_all clock am ident keys = fold (\<lambda>(sk, pk). adjust clock sk pk am ident) keys"

definition keyed :: "string option \<Rightarrow> budget_read list \<Rightarrow> bool" where
  "keyed caller bs = (\<forall>b \<in> set bs. scope_key b caller = Inr (counter_key caller b))"

lemma keyed_simps [simp]:
  "keyed caller []"
  "keyed caller (b # bs) \<longleftrightarrow> scope_key b caller = Inr (counter_key caller b) \<and> keyed caller bs"
  "keyed caller (bs @ cs) \<longleftrightarrow> keyed caller bs \<and> keyed caller cs"
  by (auto simp: keyed_def)

lemma keyed_bound: "keyed subject (bound_budgets use_case subject w)"
  by (simp add: keyed_def bound_budgets_keyed)

lemma keyed_filter: "keyed caller bs \<Longrightarrow> keyed caller (List.filter P bs)"
  by (auto simp: keyed_def)

lemma move_healthy:
  assumes "healthy env" "keyed (r_subject r) bs"
  shows "fst (move env r am bs w) = Inr ()
    \<and> bw_ledger (snd (move env r am bs w)) = adjust_all (bw_clock w) am (r_ident r) (taken r bs) (bw_ledger w)
    \<and> bw_usage (snd (move env r am bs w)) = bw_usage w
    \<and> bw_clock (snd (move env r am bs w)) = bw_clock w
    \<and> bw_budgets (snd (move env r am bs w)) = bw_budgets w"
  using assms(2)
proof (induction bs arbitrary: w)
  case Nil
  then show ?case by (simp add: taken_def map_filter_simps adjust_all_def)
next
  case (Cons b bs)
  show ?case
  proof (cases "r_period_keys r (b_id b)")
    case None
    with Cons show ?thesis by (simp add: taken_def map_filter_simps)
  next
    case (Some pk)
    let ?w1 = "snd (ledger_adjust env (counter_key (r_subject r) b) pk am (r_ident r) w)"
    have w1: "bw_ledger ?w1 = adjust (bw_clock w) (counter_key (r_subject r) b) pk am (r_ident r) (bw_ledger w)"
      "bw_usage ?w1 = bw_usage w" "bw_clock ?w1 = bw_clock w" "bw_budgets ?w1 = bw_budgets w"
      using assms(1) by (simp_all add: ledger_adjust_def)
    have "keyed (r_subject r) bs" using Cons.prems by simp
    from Cons.IH [OF this, of ?w1] Cons.prems Some w1 show ?thesis
      by (simp add: taken_def map_filter_simps adjust_all_def)
  qed
qed

lemma release_healthy:
  assumes "healthy env" "keyed (r_subject r) (r_budgets r)" "r_atomic r" "be_has_ledger env"
    and "release env r w = (res, r', w')"
  shows "res = Inr () \<and> r' = r\<lparr>r_resolved := True\<rparr>
    \<and> bw_ledger w' = adjust_all (bw_clock w) (- r_reserved r) (r_ident r) (taken r (r_budgets r)) (bw_ledger w)
    \<and> bw_usage w' = bw_usage w \<and> bw_clock w' = bw_clock w \<and> bw_budgets w' = bw_budgets w"
  using assms(3-5) move_healthy [OF assms(1,2), of "- r_reserved r" w]
  by (auto simp: release_def Let_def split: prod.splits)

section \<open>What one counter sees of a request\<close>

definition many :: "nat \<Rightarrow> amounts \<Rightarrow> amounts" where
  "many n a = Amounts (int n * a_tokens a) (int n * a_requests a) (int n * a_cost a)"

lemma many_simps [simp]:
  "many 0 a = 0"
  "many (Suc n) a = a + many n a"
  by (simp_all add: many_def amounts_eqI algebra_simps)

lemma nonneg_many [simp]: "nonneg a \<Longrightarrow> nonneg (many n a)"
  by (simp add: many_def nonneg_def)

lemma key_cong:
  assumes "ledger_key sk pk = ledger_key sk' pk'"
  shows "adjust clock sk pk am ident L = adjust clock sk' pk' am ident L"
    and "reserve clock sk pk lims am seed ident now L = reserve clock sk' pk' lims am seed ident now L"
    and "held clock L sk pk = held clock L sk' pk'"
    and "in_flight clock L sk pk = in_flight clock L sk' pk'"
proof -
  have "open_key sk pk = open_key sk' pk'" using assms by (simp add: open_key_ledger_key)
  with assms show "adjust clock sk pk am ident L = adjust clock sk' pk' am ident L"
    and "reserve clock sk pk lims am seed ident now L = reserve clock sk' pk' lims am seed ident now L"
    and "held clock L sk pk = held clock L sk' pk'"
    and "in_flight clock L sk pk = in_flight clock L sk' pk'"
    by (simp_all add: adjust_def reserve_def held_def in_flight_def)
qed

text \<open>
  A counter that held \<open>u\<close> with \<open>F\<close> in flight, and has since been taken from \<open>n\<close> times by the
  reservation \<open>ident\<close> of \<open>a\<close>.
\<close>

definition taken_from ::
  "int \<Rightarrow> ledger \<Rightarrow> string \<times> string \<Rightarrow> amounts \<Rightarrow> (string \<times> open_entry) list \<Rightarrow> amounts \<Rightarrow> string
     \<Rightarrow> open_entry \<Rightarrow> nat \<Rightarrow> bool" where
  "taken_from clock L k u F a ident e n \<longleftrightarrow>
     held clock L (fst k) (snd k) = Some (u + many n a) \<and>
     (in_flight clock L (fst k) (snd k) = F
        \<or> 0 < n \<and> in_flight clock L (fst k) (snd k) = AList.update ident e F)"

definition hits :: "string \<times> string \<Rightarrow> (string \<times> string) list \<Rightarrow> nat" where
  "hits k keys = length (List.filter (\<lambda>k'. key_loc k' = key_loc k) keys)"

lemma hits_simps [simp]:
  "hits k [] = 0"
  "hits k (k' # keys) = (if key_loc k' = key_loc k then Suc (hits k keys) else hits k keys)"
  by (simp_all add: hits_def)

lemma taken_from_elsewhere:
  assumes "taken_from clock L k u F a ident e n" "key_loc k' \<noteq> key_loc k"
  shows "taken_from clock (snd (reserve clock (fst k') (snd k') lims am seed i now L)) k u F a ident e n"
    and "taken_from clock (adjust clock (fst k') (snd k') am i L) k u F a ident e n"
  using assms
  by (simp_all add: taken_from_def key_loc_def reserve_frame adjust_frame eq_commute [of "ledger_key (fst k) (snd k)"])

lemma taken_from_reserve:
  assumes t: "taken_from clock L k u F a ident e n" and loc: "key_loc k' = key_loc k"
    and e: "e = \<lparr>e_deadline = now + reservation_lifetime_seconds, e_amounts = a\<rparr>" and id: "ident \<noteq> []"
    and res: "reserve clock (fst k') (snd k') lims a seed ident now L = (refusal, L')"
  shows "taken_from clock L' k u F a ident e (if refusal = None then Suc n else n)"
proof -
  have res': "reserve clock (fst k) (snd k) lims a seed ident now L = (refusal, L')"
    using res loc by (simp add: key_loc_def key_cong(2) [of "fst k'" "snd k'" "fst k" "snd k"])
  have held: "held clock L (fst k) (snd k) = Some (u + many n a)" using t by (simp add: taken_from_def)
  then have base: "base clock L (fst k) (snd k) seed now = u + many n a" by (simp add: base_def)
  from reserve_cases(2,3) [OF res'] held t id show ?thesis
    by (auto simp: taken_from_def base e algebra_simps Let_def)
qed

text \<open>Settled at \<open>act\<close>, a reservation of \<open>a\<close> leaves the counter with \<open>act\<close> more; released, with 0.\<close>

lemma taken_from_correct:
  assumes t: "taken_from clock L k u F a ident e (Suc n)" and loc: "key_loc k' = key_loc k"
    and nn: "nonneg u" "nonneg a" "nonneg act" and id: "ident \<noteq> []" "ident \<notin> fst ` set F"
  shows "taken_from clock (adjust clock (fst k') (snd k') (act - a) ident L) k (u + act) F a ident e n"
proof -
  have adj: "adjust clock (fst k') (snd k') (act - a) ident L = adjust clock (fst k) (snd k) (act - a) ident L"
    using loc by (intro key_cong(1)) (simp add: key_loc_def)
  have del: "AList.delete ident F = F" using id(2) by (simp add: AList.delete_id)
  have "u + many (Suc n) a + (act - a) = u + act + many n a" by (simp add: algebra_simps)
  moreover have "clamp (u + act + many n a) = u + act + many n a"
    using nn by (intro clamp_nonneg nonneg_add nonneg_many)
  ultimately show ?thesis
    using t adjust_cases(1) [of clock "fst k" "snd k" "act - a" ident L]
      adjust_cases(2) [of clock "fst k" "snd k" "act - a" ident L] id(1) del
    by (auto simp: taken_from_def adj delete_update_same add_ac)
qed

lemma taken_from_correct_all:
  assumes "taken_from clock L k u F a ident e (hits k keys)"
    and "nonneg u" "nonneg a" "nonneg act" "ident \<noteq> []" "ident \<notin> fst ` set F"
  shows "taken_from clock (adjust_all clock (act - a) ident keys L) k (u + many (hits k keys) act) F a ident e 0"
  using assms(1,2)
proof (induction keys arbitrary: L u)
  case Nil
  then show ?case by (simp add: adjust_all_def)
next
  case (Cons k' keys)
  let ?L = "adjust clock (fst k') (snd k') (act - a) ident L"
  show ?case
  proof (cases "key_loc k' = key_loc k")
    case True
    with Cons.prems have "taken_from clock L k u F a ident e (Suc (hits k keys))" by simp
    then have t: "taken_from clock ?L k (u + act) F a ident e (hits k keys)"
      using True Cons.prems(2) assms(3-6) by (rule taken_from_correct)
    have "nonneg (u + act)" using Cons.prems(2) assms(4) by (rule nonneg_add)
    from Cons.IH [OF t this] True show ?thesis
      by (simp add: adjust_all_def case_prod_beta add.assoc)
  next
    case False
    with Cons.prems have "taken_from clock ?L k u F a ident e (hits k keys)"
      by (simp add: taken_from_elsewhere)
    from Cons.IH [OF this Cons.prems(2)] False show ?thesis
      by (simp add: adjust_all_def case_prod_beta)
  qed
qed

lemma many_zero [simp]: "many n 0 = 0"
  by (simp add: many_def zero_amounts_def)

lemma taken_from_give_back_all:
  assumes "taken_from clock L k u F a ident e (hits k keys)"
    and "nonneg u" "nonneg a" "ident \<noteq> []" "ident \<notin> fst ` set F"
  shows "taken_from clock (adjust_all clock (- a) ident keys L) k u F a ident e 0"
  using taken_from_correct_all [OF assms(1-3) nonneg_zero assms(4,5)] by simp

text \<open>A figure no reservation held, added under no name.\<close>

lemma taken_from_add_all:
  assumes "taken_from clock L k u F a ident e n" "nonneg u" "nonneg a" "nonneg act"
  shows "taken_from clock (adjust_all clock act [] keys L) k (u + many (hits k keys) act) F a ident e n"
  using assms(1,2)
proof (induction keys arbitrary: L u)
  case Nil
  then show ?case by (simp add: adjust_all_def)
next
  case (Cons k' keys)
  let ?L = "adjust clock (fst k') (snd k') act [] L"
  show ?case
  proof (cases "key_loc k' = key_loc k")
    case True
    have adj: "?L = adjust clock (fst k) (snd k) act [] L"
      using True by (intro key_cong(1)) (simp add: key_loc_def)
    have "clamp (u + many n a + act) = u + many n a + act"
      using Cons.prems(2) assms(3,4) by (intro clamp_nonneg nonneg_add nonneg_many)
    then have t: "taken_from clock ?L k (u + act) F a ident e n"
      using Cons.prems(1) adjust_cases [of clock "fst k" "snd k" act "[]" L]
      by (auto simp: taken_from_def adj algebra_simps)
    have "nonneg (u + act)" using Cons.prems(2) assms(4) by (rule nonneg_add)
    from Cons.IH [OF t this] True show ?thesis
      by (simp add: adjust_all_def case_prod_beta add.assoc)
  next
    case False
    with Cons.prems have "taken_from clock ?L k u F a ident e n"
      by (simp add: taken_from_elsewhere)
    from Cons.IH [OF this Cons.prems(2)] False show ?thesis
      by (simp add: adjust_all_def case_prod_beta)
  qed
qed

lemma hits_append [simp]: "hits k (xs @ ys) = hits k xs + hits k ys"
  by (simp add: hits_def)

lemma taken_simps [simp]:
  "taken r [] = []"
  "taken r (b # bs) = (case r_period_keys r (b_id b) of None \<Rightarrow> taken r bs
     | Some pk \<Rightarrow> (counter_key (r_subject r) b, pk) # taken r bs)"
  by (simp_all add: taken_def map_filter_simps split: option.split)

lemma taken_append [simp]: "taken r (bs @ cs) = taken r bs @ taken r cs"
  by (induction bs) (simp_all split: option.split)

lemma taken_cong:
  "(\<And>b. b \<in> set bs \<Longrightarrow> r_period_keys r (b_id b) = r_period_keys r' (b_id b)) \<Longrightarrow>
   r_subject r = r_subject r' \<Longrightarrow> taken r bs = taken r' bs"
  by (induction bs) (simp_all split: option.split)

lemma taken_none: "(\<And>b. b \<in> set bs \<Longrightarrow> r_period_keys r (b_id b) = None) \<Longrightarrow> taken r bs = []"
  by (induction bs) simp_all

lemma exceeded_not_down [simp]: "exceeded b d now asked settled z \<noteq> CountersUnavailable"
  by (simp add: exceeded_def Let_def split: option.split)

lemma read_usage_healthy [simp]:
  "healthy env \<Longrightarrow> read_usage env sk pk w = (Inr (usage_at (bw_usage w) sk pk), called w)"
  by (simp add: read_usage_def query_def)

text \<open>
  Reserving budget by budget, seen from any one counter: \<open>pre\<close> are the budgets already reserved,
  \<open>bs\<close> those still to come.
\<close>

lemma reserve_each_healthy:
  assumes "healthy env" "be_has_ledger env" "r_atomic r" "r_reserved r = a" "r_ident r = ident"
    and "r_budgets r = pre @ bs" "keyed (r_subject r) (pre @ bs)" "distinct (map b_id (pre @ bs))"
    and "\<And>b. b \<in> set bs \<Longrightarrow> r_period_keys r (b_id b) = None"
    and "taken_from (bw_clock w) (bw_ledger w) k u F a ident e (hits k (taken r pre))"
    and "e = \<lparr>e_deadline = now div micros_per_second + reservation_lifetime_seconds, e_amounts = a\<rparr>"
    and "nonneg u" "nonneg a" "ident \<noteq> []" "ident \<notin> fst ` set F"
    and "reserve_each env now bs r w = (res, r', w')"
  shows "(bw_clock w' = bw_clock w \<and> bw_usage w' = bw_usage w \<and> bw_budgets w' = bw_budgets w) \<and>
    (case res of
       Inl x \<Rightarrow> x \<noteq> CountersUnavailable \<and> r_resolved r'
         \<and> taken_from (bw_clock w) (bw_ledger w') k u F a ident e 0
     | Inr _ \<Rightarrow>
         r' = r\<lparr>r_resolved := False, r_period_keys := r_period_keys r'\<rparr>
         \<and> (\<forall>b \<in> set bs. r_period_keys r' (b_id b) = Some (period_key (b_period b) now (be_zone env)))
         \<and> (\<forall>i. i \<notin> b_id ` set bs \<longrightarrow> r_period_keys r' i = r_period_keys r i)
         \<and> taken_from (bw_clock w) (bw_ledger w') k u F a ident e (hits k (taken r' (pre @ bs))))"
  using assms(3-10,16)
proof (induction bs arbitrary: pre r w)
  case Nil
  then have "r' = r\<lparr>r_resolved := False\<rparr>" "w' = w" "res = Inr ()" by simp_all
  moreover have "taken (r\<lparr>r_resolved := False\<rparr>) pre = taken r pre" by (rule taken_cong) simp_all
  ultimately show ?case using Nil by simp
next
  case (Cons b bs)
  let ?sk = "counter_key (r_subject r) b" and ?pk = "period_key (b_period b) now (be_zone env)"
  let ?u = "usage_at (bw_usage w) ?sk ?pk"
  have key: "scope_key b (r_subject r) = Inr ?sk" using Cons.prems(5) by simp
  obtain breach L where res: "reserve (bw_clock w) ?sk ?pk (budget_limits b) a (seed_of ?u) ident
      (now div micros_per_second) (bw_ledger w) = (breach, L)" by fastforce
  define w2 where "w2 = called ((called w)\<lparr>bw_ledger := L\<rparr>)"
  have w2: "bw_clock w2 = bw_clock w" "bw_usage w2 = bw_usage w" "bw_budgets w2 = bw_budgets w"
    "bw_ledger w2 = L" by (simp_all add: w2_def)
  have led: "ledger_reserve env ?sk ?pk (budget_limits b) (r_reserved r) (seed_of ?u) (r_ident r) now (called w)
      = (Inr breach, w2)"
    using assms(1) res Cons.prems(2,3) by (simp add: ledger_reserve_def w2_def)
  have t2: "taken_from (bw_clock w) L k u F a ident e
      (if breach = None \<and> key_loc (?sk, ?pk) = key_loc k then Suc (hits k (taken r pre))
       else hits k (taken r pre))"
  proof (cases "key_loc (?sk, ?pk) = key_loc k")
    case True
    have "reserve (bw_clock w) (fst (?sk, ?pk)) (snd (?sk, ?pk)) (budget_limits b) a (seed_of ?u) ident
      (now div micros_per_second) (bw_ledger w) = (breach, L)" using res by simp
    from taken_from_reserve [OF Cons.prems(8) True assms(11,14) this] True show ?thesis by simp
  next
    case False
    have "snd (reserve (bw_clock w) (fst (?sk, ?pk)) (snd (?sk, ?pk)) (budget_limits b) a (seed_of ?u) ident
      (now div micros_per_second) (bw_ledger w)) = L" using res by simp
    with taken_from_elsewhere(1) [OF Cons.prems(8) False, where lims = "budget_limits b" and am = a
        and seed = "seed_of ?u" and i = ident and now = "now div micros_per_second"] False
    show ?thesis by simp
  qed
  show ?case
  proof (cases breach)
    case (Some d)
    obtain rel r3 w3 where rel: "release env r w2 = (rel, r3, w3)" by (metis prod_cases3)
    have "taken r (b # bs) = []" using Cons.prems(7) by (intro taken_none) auto
    then have all: "taken r (r_budgets r) = taken r pre" using Cons.prems(4) by simp
    have "keyed (r_subject r) (r_budgets r)" using Cons.prems(4,5) by simp
    from release_healthy [OF assms(1) this Cons.prems(1) assms(2) rel]
    have r3: "rel = Inr ()" "r3 = r\<lparr>r_resolved := True\<rparr>" "bw_clock w3 = bw_clock w"
      "bw_usage w3 = bw_usage w" "bw_budgets w3 = bw_budgets w"
      and L3: "bw_ledger w3 = adjust_all (bw_clock w) (- a) ident (taken r pre) L"
      using w2 all Cons.prems(2,3) by simp_all
    have "taken_from (bw_clock w) (bw_ledger w3) k u F a ident e 0"
      unfolding L3 using t2 Some assms(12-15) by (intro taken_from_give_back_all) simp_all
    moreover have "(res, r', w') = (Inl (exceeded b d now (Some a) (Some (seed_of ?u)) (be_zone env)), r3, w3)"
      using Cons.prems(2,9) assms(1) key led Some rel r3 by (simp add: Let_def)
    ultimately show ?thesis using r3 by simp
  next
    case None
    let ?r2 = "r\<lparr>r_period_keys := (r_period_keys r)(b_id b \<mapsto> ?pk)\<rparr>"
    have step: "reserve_each env now bs ?r2 w2 = (res, r', w')"
      using Cons.prems(9) assms(1) key led None by (simp add: Let_def)
    have "taken ?r2 pre = taken r pre"
      using Cons.prems(6) by (intro taken_cong) (auto simp: image_iff)
    then have pre2: "taken ?r2 (pre @ [b]) = taken r pre @ [(?sk, ?pk)]" by simp
    have t3: "taken_from (bw_clock w2) (bw_ledger w2) k u F a ident e (hits k (taken ?r2 (pre @ [b])))"
      unfolding pre2 using t2 None w2 by (simp split: if_splits)
    have none: "r_period_keys ?r2 (b_id b') = None" if "b' \<in> set bs" for b'
      using that Cons.prems(6,7) by (auto simp: image_iff)
    have IH: "(bw_clock w' = bw_clock w2 \<and> bw_usage w' = bw_usage w2 \<and> bw_budgets w' = bw_budgets w2) \<and>
      (case res of
         Inl x \<Rightarrow> x \<noteq> CountersUnavailable \<and> r_resolved r'
           \<and> taken_from (bw_clock w2) (bw_ledger w') k u F a ident e 0
       | Inr _ \<Rightarrow>
           r' = ?r2\<lparr>r_resolved := False, r_period_keys := r_period_keys r'\<rparr>
           \<and> (\<forall>b \<in> set bs. r_period_keys r' (b_id b) = Some (period_key (b_period b) now (be_zone env)))
           \<and> (\<forall>i. i \<notin> b_id ` set bs \<longrightarrow> r_period_keys r' i = r_period_keys ?r2 i)
           \<and> taken_from (bw_clock w2) (bw_ledger w') k u F a ident e (hits k (taken r' ((pre @ [b]) @ bs))))"
      by (rule Cons.IH [where r = ?r2 and pre = "pre @ [b]"])
        (use Cons.prems t3 none step in simp_all)
    have fresh: "b_id b \<notin> b_id ` set bs" using Cons.prems(6) by auto
    show ?thesis
    proof (cases res)
      case (Inl x)
      with IH w2 show ?thesis by simp
    next
      case (Inr _)
      with IH w2 have r': "r' = r\<lparr>r_resolved := False, r_period_keys := r_period_keys r'\<rparr>"
        and new: "\<forall>b' \<in> set bs. r_period_keys r' (b_id b') = Some (period_key (b_period b') now (be_zone env))"
        and old: "\<forall>i. i \<notin> b_id ` set bs \<longrightarrow> r_period_keys r' i = r_period_keys ?r2 i"
        and t4: "taken_from (bw_clock w) (bw_ledger w') k u F a ident e (hits k (taken r' (pre @ b # bs)))"
        and frame: "bw_clock w' = bw_clock w" "bw_usage w' = bw_usage w" "bw_budgets w' = bw_budgets w"
        by simp_all
      have "r_period_keys r' (b_id b) = Some ?pk" using old fresh by simp
      with new have "\<forall>b' \<in> set (b # bs). r_period_keys r' (b_id b') = Some (period_key (b_period b') now (be_zone env))"
        by simp
      moreover have "\<forall>i. i \<notin> b_id ` set (b # bs) \<longrightarrow> r_period_keys r' i = r_period_keys r i"
        using old by simp
      ultimately show ?thesis unfolding Inr sum.case using r' t4 frame by blast
    qed
  qed
qed

section \<open>Booking\<close>

definition booking_key ::
  "(int \<Rightarrow> string option) \<Rightarrow> zone \<Rightarrow> instant \<Rightarrow> string option \<Rightarrow> budget_read \<Rightarrow> string \<times> string" where
  "booking_key periods z now subject b = (counter_key subject b,
     if truthy (periods (b_id b)) then the (periods (b_id b)) else period_key (b_period b) now z)"

lemma book_each_healthy:
  assumes "healthy env" "keyed subject bs"
  shows "fst (book_each env periods subject now tokens requests nanos bs t calls) =
    Inr (fold (\<lambda>(sk, pk). accumulate sk pk tokens requests nanos)
           (map (booking_key periods (be_zone env) now subject) bs) t)"
  using assms(2)
  by (induction bs arbitrary: t calls) (simp_all add: assms(1) booking_key_def Let_def)

lemma record_usage_healthy:
  assumes "healthy env" "keyed subject bs"
    and "record_usage env bs tokens nanos now requests subject periods w = (res, w')"
  shows "res = Inr () \<and> bw_ledger w' = bw_ledger w \<and> bw_clock w' = bw_clock w \<and> bw_budgets w' = bw_budgets w
    \<and> bw_usage w' = fold (\<lambda>(sk, pk). accumulate sk pk tokens requests nanos)
           (map (booking_key periods (be_zone env) now subject) bs) (bw_usage w)"
  using assms(3) book_each_healthy [OF assms(1,2), of periods now tokens requests nanos "bw_usage w" "bw_calls w"]
  by (auto simp: record_usage_def split: prod.splits sum.splits if_splits)

lemma add_each_healthy:
  assumes "healthy env" "keyed subject bs"
  shows "fst (add_each env subject periods am now bs w) = Inr ()
    \<and> bw_ledger (snd (add_each env subject periods am now bs w))
        = adjust_all (bw_clock w) am [] (map (booking_key periods (be_zone env) now subject) bs) (bw_ledger w)
    \<and> bw_usage (snd (add_each env subject periods am now bs w)) = bw_usage w
    \<and> bw_clock (snd (add_each env subject periods am now bs w)) = bw_clock w"
  using assms(2)
proof (induction bs arbitrary: w)
  case Nil
  then show ?case by (simp add: adjust_all_def)
next
  case (Cons b bs)
  let ?k = "booking_key periods (be_zone env) now subject b"
  let ?w = "snd (ledger_adjust env (fst ?k) (snd ?k) am [] w)"
  have "keyed subject bs" using Cons.prems by simp
  note IH = Cons.IH [OF this, of ?w]
  have w: "bw_ledger ?w = adjust (bw_clock w) (fst ?k) (snd ?k) am [] (bw_ledger w)"
    "bw_usage ?w = bw_usage w" "bw_clock ?w = bw_clock w"
    using assms(1) by (simp_all add: ledger_adjust_def)
  have "add_each env subject periods am now (b # bs) w = add_each env subject periods am now bs ?w"
    using Cons.prems by (simp add: booking_key_def Let_def)
  then show ?case using IH w by (simp add: adjust_all_def case_prod_beta)
qed

definition times_booked :: "string \<times> string \<Rightarrow> (string \<times> string) list \<Rightarrow> nat" where
  "times_booked k keys = length (List.filter (\<lambda>k'. k' = k) keys)"

lemma times_booked_simps [simp]:
  "times_booked k [] = 0"
  "times_booked k (k' # keys) = (if k' = k then Suc (times_booked k keys) else times_booked k keys)"
  "times_booked k (xs @ ys) = times_booked k xs + times_booked k ys"
  by (simp_all add: times_booked_def)

lemma usage_at_accumulate:
  "usage_at (accumulate sk pk tokens requests nanos t) sk' pk' =
     (let u = usage_at t sk' pk' in
      if (sk, pk) = (sk', pk')
      then \<lparr>bu_tokens = bu_tokens u + tokens, bu_requests = bu_requests u + requests,
            bu_cost_nanos = bu_cost_nanos u + (case nanos of None \<Rightarrow> 0 | Some c \<Rightarrow> c),
            bu_unpriced_requests = bu_unpriced_requests u + (if nanos = None then requests else 0)\<rparr>
      else u)"
  by (auto simp: usage_at_def accumulate_def no_usage_def Let_def split: option.split)

lemma usage_at_fold:
  "usage_at (fold (\<lambda>(sk, pk). accumulate sk pk tokens requests nanos) keys t) sk pk =
     (let u = usage_at t sk pk; n = int (times_booked (sk, pk) keys) in
      \<lparr>bu_tokens = bu_tokens u + n * tokens, bu_requests = bu_requests u + n * requests,
       bu_cost_nanos = bu_cost_nanos u + n * (case nanos of None \<Rightarrow> 0 | Some c \<Rightarrow> c),
       bu_unpriced_requests = bu_unpriced_requests u + n * (if nanos = None then requests else 0)\<rparr>)"
proof (induction keys arbitrary: t)
  case Nil
  then show ?case by (simp add: Let_def)
next
  case (Cons k keys)
  obtain a b where k: "k = (a, b)" by (cases k)
  show ?case
    by (simp add: k Cons.IH usage_at_accumulate Let_def algebra_simps)
qed

section \<open>From admission to settlement\<close>

definition on_counters ::
  "zone \<Rightarrow> string option \<Rightarrow> instant \<Rightarrow> amounts \<Rightarrow> string \<Rightarrow> budget_read list \<Rightarrow> reservation" where
  "on_counters z subject now am ident rows = (new_reservation ident)\<lparr>r_budgets := List.filter b_enabled rows,
     r_lifted := List.filter (\<lambda>b. \<not> b_enabled b) rows, r_subject := subject, r_reserved := am,
     r_period_keys := period_keys_of (List.filter (\<lambda>b. \<not> b_enabled b) rows) now z, r_atomic := True\<rparr>"

definition plain_reservation ::
  "zone \<Rightarrow> string option \<Rightarrow> instant \<Rightarrow> string \<Rightarrow> budget_read list \<Rightarrow> reservation" where
  "plain_reservation z subject now ident rows = (new_reservation ident)\<lparr>r_budgets := List.filter b_enabled rows,
     r_lifted := List.filter (\<lambda>b. \<not> b_enabled b) rows, r_subject := subject,
     r_period_keys := period_keys_of rows now z\<rparr>"

definition asked_amounts :: "amounts option \<Rightarrow> amounts" where
  "asked_amounts estimated = (case estimated of None \<Rightarrow> Amounts 0 1 0 | Some a \<Rightarrow> a)"

lemma guard_no_budget:
  assumes "\<not> be_database_down env (bw_calls w)" "bound_budgets use_case subject w = []"
  shows "guard env use_case subject now estimated ident ident' w = (Inr (new_reservation ident'), called w)"
  using assms by (simp add: guard_def applicable_up Let_def)

lemma guard_not_enforced:
  assumes "\<not> be_database_down env (bw_calls w)" "bound_budgets use_case subject w \<noteq> []" "\<not> be_enforce env"
  shows "guard env use_case subject now estimated ident ident' w =
    (Inr (plain_reservation (be_zone env) subject now ident' (bound_budgets use_case subject w)), called w)"
  using assms by (cases "bound_budgets use_case subject w")
    (simp_all add: guard_def applicable_up Let_def plain_reservation_def)

lemma guard_on_counters:
  assumes "\<not> be_database_down env (bw_calls w)" "bound_budgets use_case subject w \<noteq> []"
    and "be_enforce env" "be_has_ledger env"
    and "reserve_each env now (List.filter b_enabled (bound_budgets use_case subject w))
      (on_counters (be_zone env) subject now (asked_amounts estimated) ident (bound_budgets use_case subject w))
      (called w) = (res, r, w')"
    and "\<And>x. res = Inl x \<Longrightarrow> x \<noteq> CountersUnavailable \<and> r_resolved r"
  shows "guard env use_case subject now estimated ident ident' w =
    (case res of Inl x \<Rightarrow> Inl x | Inr _ \<Rightarrow> Inr r, w')"
proof (cases "bound_budgets use_case subject w")
  case Nil
  with assms(2) show ?thesis by simp
next
  case (Cons b bs)
  have step: "reserve_each env now (List.filter b_enabled (b # bs))
      ((new_reservation ident)\<lparr>r_budgets := List.filter b_enabled (b # bs),
         r_lifted := List.filter (\<lambda>b. \<not> b_enabled b) (b # bs), r_subject := subject,
         r_reserved := asked_amounts estimated,
         r_period_keys := period_keys_of (List.filter (\<lambda>b. \<not> b_enabled b) (b # bs)) now (be_zone env),
         r_atomic := True\<rparr>) (called w) = (res, r, w')"
    using assms(5) unfolding Cons on_counters_def .
  show ?thesis
    unfolding guard_def applicable_up [OF assms(1)] Let_def asked_amounts_def [symmetric] Cons
    using assms(3,4) step assms(6)
    by (cases res) (auto simp del: reserve_each.simps filter.simps split: budget_error.split)
qed

lemma period_keys_of_in:
  assumes "distinct (map b_id rows)" "b \<in> set rows"
  shows "period_keys_of rows now z (b_id b) = Some (period_key (b_period b) now z)"
proof -
  have "distinct (map fst (map (\<lambda>b. (b_id b, period_key (b_period b) now z)) rows))"
    using assms(1) by (simp add: comp_def)
  then have "map_of (rev (map (\<lambda>b. (b_id b, period_key (b_period b) now z)) rows)) (b_id b)
      = Some (period_key (b_period b) now z)"
    using assms(2) by (intro map_of_is_SomeI) (auto simp: rev_map [symmetric])
  then show ?thesis by (simp add: period_keys_of_def)
qed

lemma period_keys_of_out: "i \<notin> b_id ` set rows \<Longrightarrow> period_keys_of rows now z i = None"
  by (auto simp: period_keys_of_def map_of_eq_None_iff)

lemma taken_map:
  assumes "\<And>b. b \<in> set bs \<Longrightarrow> r_period_keys r (b_id b) = Some (period_key (b_period b) now z)"
  shows "taken r bs = map (budget_counter now z (r_subject r)) bs"
  using assms by (induction bs) (simp_all add: budget_counter_def)

definition reservation_of ::
  "zone \<Rightarrow> string option \<Rightarrow> instant \<Rightarrow> amounts \<Rightarrow> string \<Rightarrow> budget_read list \<Rightarrow> reservation \<Rightarrow> bool" where
  "reservation_of z subject now a ident rows r \<longleftrightarrow>
     r_budgets r = List.filter b_enabled rows \<and> r_lifted r = List.filter (\<lambda>b. \<not> b_enabled b) rows \<and>
     r_subject r = subject \<and> r_reserved r = a \<and> r_ident r = ident \<and> r_atomic r \<and> \<not> r_resolved r \<and>
     (\<forall>b \<in> set rows. r_period_keys r (b_id b) = Some (period_key (b_period b) now z))"

lemma guard_enforced:
  assumes h: "healthy env" and env: "be_enforce env" "be_has_ledger env"
    and ids: "distinct (map b_id (bw_budgets w))" and nn: "nonneg u" "nonneg (asked_amounts estimated)"
    and id: "ident \<noteq> []" "ident \<notin> fst ` set F"
    and start: "held (bw_clock w) (bw_ledger w) (fst k) (snd k) = Some u"
      "in_flight (bw_clock w) (bw_ledger w) (fst k) (snd k) = F"
    and e: "e = \<lparr>e_deadline = now div micros_per_second + reservation_lifetime_seconds,
        e_amounts = asked_amounts estimated\<rparr>"
    and guard: "guard env use_case subject now estimated ident ident' w = (res, w')"
  defines "rows \<equiv> bound_budgets use_case subject w"
  shows "bw_usage w' = bw_usage w \<and> bw_clock w' = bw_clock w \<and> bw_budgets w' = bw_budgets w \<and>
    (case res of
       Inl x \<Rightarrow> taken_from (bw_clock w) (bw_ledger w') k u F (asked_amounts estimated) ident e 0
     | Inr r \<Rightarrow> (if rows = [] then r = new_reservation ident' \<and> bw_ledger w' = bw_ledger w
         else reservation_of (be_zone env) subject now (asked_amounts estimated) ident rows r \<and>
           taken_from (bw_clock w) (bw_ledger w') k u F (asked_amounts estimated) ident e
             (hits k (map (budget_counter now (be_zone env) subject) (List.filter b_enabled rows)))))"
proof (cases "rows = []")
  case True
  with guard guard_no_budget [of env w use_case subject now estimated ident ident'] h
  show ?thesis by (auto simp: rows_def)
next
  case False
  let ?z = "be_zone env" and ?a = "asked_amounts estimated"
  let ?on = "List.filter b_enabled rows" and ?off = "List.filter (\<lambda>b. \<not> b_enabled b) rows"
  let ?part = "on_counters ?z subject now ?a ident rows"
  obtain rv r w2 where step: "reserve_each env now ?on ?part (called w) = (rv, r, w2)"
    by (metis prod_cases3)
  have dist: "distinct (map b_id rows)" unfolding rows_def using ids by (rule distinct_ids_bound)
  have none: "r_period_keys ?part (b_id b) = None" if "b \<in> set ?on" for b
  proof -
    have "b_id b \<notin> b_id ` set ?off"
    proof
      assume "b_id b \<in> b_id ` set ?off"
      then obtain b' where "b' \<in> set ?off" "b_id b' = b_id b" by auto
      with that dist have "b' = b" by (auto simp: distinct_map dest: inj_onD)
      with that \<open>b' \<in> set ?off\<close> show False by simp
    qed
    then show ?thesis by (simp add: on_counters_def period_keys_of_out)
  qed
  have part: "r_atomic ?part" "r_reserved ?part = ?a" "r_ident ?part = ident"
    "r_budgets ?part = [] @ ?on" "r_subject ?part = subject"
    by (simp_all add: on_counters_def new_reservation_def)
  have keyed: "keyed (r_subject ?part) ([] @ ?on)"
    unfolding part by (simp add: keyed_filter keyed_bound rows_def)
  have don: "distinct (map b_id ([] @ ?on))" using dist by (simp add: distinct_map_filter)
  have t0: "taken_from (bw_clock (called w)) (bw_ledger (called w)) k u F ?a ident e (hits k (taken ?part []))"
    using start by (simp add: taken_from_def)
  note main = reserve_each_healthy [OF h env(2) part(1-4) keyed don none t0 e nn id step]
  have "guard env use_case subject now estimated ident ident' w =
      (case rv of Inl x \<Rightarrow> Inl x | Inr _ \<Rightarrow> Inr r, w2)"
    using h False env step main unfolding rows_def
    by (intro guard_on_counters) (auto split: sum.splits)
  with guard have res: "res = (case rv of Inl x \<Rightarrow> Inl x | Inr _ \<Rightarrow> Inr r)" "w' = w2" by simp_all
  show ?thesis
  proof (cases rv)
    case (Inl x)
    with main res show ?thesis by simp
  next
    case (Inr _)
    with main have r: "r = ?part\<lparr>r_resolved := False, r_period_keys := r_period_keys r\<rparr>"
      and new: "\<forall>b \<in> set ?on. r_period_keys r (b_id b) = Some (period_key (b_period b) now ?z)"
      and old: "\<forall>i. i \<notin> b_id ` set ?on \<longrightarrow> r_period_keys r i = r_period_keys ?part i"
      and t: "taken_from (bw_clock w) (bw_ledger w2) k u F ?a ident e (hits k (taken r ?on))"
      and frame: "bw_usage w2 = bw_usage w" "bw_clock w2 = bw_clock w" "bw_budgets w2 = bw_budgets w"
      by simp_all
    have pk: "r_period_keys r (b_id b) = Some (period_key (b_period b) now ?z)" if b: "b \<in> set rows" for b
    proof (cases "b_enabled b")
      case True
      with new b show ?thesis by simp
    next
      case False
      have "b_id b \<notin> b_id ` set ?on"
      proof
        assume "b_id b \<in> b_id ` set ?on"
        then obtain b' where b': "b' \<in> set ?on" "b_id b' = b_id b" by auto
        with b dist have "b' = b" by (auto simp: distinct_map dest: inj_onD)
        with b' False show False by simp
      qed
      with old have "r_period_keys r (b_id b) = r_period_keys ?part (b_id b)" by simp
      also have "\<dots> = Some (period_key (b_period b) now ?z)"
        using b False dist by (simp add: on_counters_def period_keys_of_in distinct_map_filter)
      finally show ?thesis .
    qed
    have rs: "r_budgets r = ?on" "r_lifted r = ?off" "r_subject r = subject" "r_reserved r = ?a"
      "r_ident r = ident" "r_atomic r" "\<not> r_resolved r"
      by (subst r, simp add: on_counters_def new_reservation_def)+
    have "taken r ?on = map (budget_counter now ?z subject) ?on"
      using taken_map [of ?on r now ?z] pk rs(3) by simp
    with t rs pk False frame Inr res show ?thesis
      by (simp add: reservation_of_def)
  qed
qed

lemma zero_padded_digits: "set (zero_padded w n) \<subseteq> set ''0123456789''"
  using show_nat_digits [of n] by (auto simp: zero_padded_def Let_def)

lemma period_key_plain: "CHR '':'' \<notin> set (period_key p now z)" "period_key p now z \<noteq> []"
  using zero_padded_digits
  by (auto simp: period_key_def date_key_def month_key_def subset_iff)

lemma hits_times:
  assumes "CHR '':'' \<notin> set (snd k)" "\<And>k'. k' \<in> set keys \<Longrightarrow> CHR '':'' \<notin> set (snd k')"
  shows "hits k keys = times_booked k keys"
proof -
  have "key_loc k' = key_loc k \<longleftrightarrow> k' = k" if "k' \<in> set keys" for k'
    using ledger_key_inj [of "fst k'" "snd k'" "fst k" "snd k"] assms(1) assms(2) [OF that]
    by (auto simp: key_loc_def prod_eq_iff)
  then show ?thesis by (simp add: hits_def times_booked_def cong: filter_cong)
qed

lemma hits_counters:
  "CHR '':'' \<notin> set (snd k) \<Longrightarrow>
   hits k (map (budget_counter now z subject) bs) = times_booked k (map (budget_counter now z subject) bs)"
  by (rule hits_times) (auto simp: budget_counter_def period_key_plain)

lemma times_booked_split:
  "times_booked k (map f (List.filter P xs)) + times_booked k (map f (List.filter (\<lambda>x. \<not> P x) xs))
     = times_booked k (map f xs)"
  by (induction xs) auto

lemma booking_key_admitted:
  assumes "r_period_keys r (b_id b) = Some (period_key (b_period b) now z)"
  shows "booking_key (r_period_keys r) z later subject b = budget_counter now z subject b"
  using assms period_key_plain(2) by (simp add: booking_key_def budget_counter_def)

lemma settle_enforced:
  assumes h: "healthy env" and led: "be_has_ledger env"
    and r: "reservation_of (be_zone env) subject now a ident rows r" and rows: "rows \<noteq> []"
    and keyed: "keyed subject rows"
    and t: "taken_from (bw_clock w) (bw_ledger w) k u F a ident e
      (hits k (map (budget_counter now (be_zone env) subject) (List.filter b_enabled rows)))"
    and nn: "nonneg u" "nonneg a" and id: "ident \<noteq> []" "ident \<notin> fst ` set F"
    and act: "act = Amounts tokens requests (case nanos of None \<Rightarrow> 0 | Some c \<Rightarrow> c)" "nonneg act"
    and settle: "settle env r tokens nanos later requests w = (res, r', w')"
    and colon: "CHR '':'' \<notin> set (snd k)"
  defines "keys \<equiv> map (budget_counter now (be_zone env) subject) rows"
  shows "res = Inr () \<and> r_resolved r' \<and>
    taken_from (bw_clock w) (bw_ledger w') k (u + many (times_booked k keys) act) F a ident e 0 \<and>
    usage_at (bw_usage w') (fst k) (snd k) =
      (let v = usage_at (bw_usage w) (fst k) (snd k); n = int (times_booked k keys) in
       \<lparr>bu_tokens = bu_tokens v + n * tokens, bu_requests = bu_requests v + n * requests,
        bu_cost_nanos = bu_cost_nanos v + n * (case nanos of None \<Rightarrow> 0 | Some c \<Rightarrow> c),
        bu_unpriced_requests = bu_unpriced_requests v + n * (if nanos = None then requests else 0)\<rparr>)"
proof -
  let ?z = "be_zone env"
  let ?on = "List.filter b_enabled rows" and ?off = "List.filter (\<lambda>b. \<not> b_enabled b) rows"
  let ?c = "budget_counter now ?z subject"
  from r have rs: "r_budgets r = ?on" "r_lifted r = ?off" "r_subject r = subject" "r_reserved r = a"
    "r_ident r = ident" "r_atomic r"
    and pk: "\<And>b. b \<in> set rows \<Longrightarrow> r_period_keys r (b_id b) = Some (period_key (b_period b) now ?z)"
    by (simp_all add: reservation_of_def)
  have "?on @ ?off \<noteq> []" using rows by (cases rows) auto
  then have nonempty: "reservation_nonempty r" using rs by (auto simp: reservation_nonempty_def)
  have keys: "map (booking_key (r_period_keys r) ?z later subject) bs = map ?c bs"
    if "set bs \<subseteq> set rows" for bs
    using that pk by (auto intro: booking_key_admitted)
  have kd: "keyed subject ?on" "keyed subject ?off" "keyed subject (?on @ ?off)"
    using keyed by (simp_all add: keyed_filter)
  obtain r1 w1 where rec: "record_usage env (?on @ ?off) tokens nanos later requests subject
      (r_period_keys r) w = (r1, w1)" by fastforce
  have both: "map (booking_key (r_period_keys r) ?z later subject) (?on @ ?off) = map ?c (?on @ ?off)"
    by (rule keys) auto
  from record_usage_healthy [OF h kd(3) rec, unfolded both]
  have w1: "r1 = Inr ()" "bw_ledger w1 = bw_ledger w" "bw_clock w1 = bw_clock w"
    "bw_usage w1 = fold (\<lambda>(sk, pk). accumulate sk pk tokens requests nanos) (map ?c (?on @ ?off)) (bw_usage w)"
    by blast+
  have off: "map (booking_key (r_period_keys r) ?z later subject) ?off = map ?c ?off"
    by (rule keys) auto
  define w2 where "w2 = snd (add_each env subject (r_period_keys r) act later ?off w1)"
  have add: "add_to_counters env ?off subject (r_period_keys r) act later w1 = (Inr (), w2)"
    and w2: "bw_ledger w2 = adjust_all (bw_clock w) act [] (map ?c ?off) (bw_ledger w)"
      "bw_usage w2 = bw_usage w1" "bw_clock w2 = bw_clock w"
    using add_each_healthy [OF h kd(2), of "r_period_keys r" act later w1] w1 led off
    by (auto simp: add_to_counters_def w2_def prod_eq_iff)
  define w3 where "w3 = snd (move env r (act - a) ?on w2)"
  have taken: "taken r ?on = map ?c ?on" using taken_map [of ?on r now ?z] pk rs(3) by simp
  have mv: "move env r (act - a) ?on w2 = (Inr (), w3)"
    and w3: "bw_ledger w3 = adjust_all (bw_clock w) (act - a) ident (map ?c ?on) (bw_ledger w2)"
      "bw_usage w3 = bw_usage w2"
    using move_healthy [OF h, of r ?on "act - a" w2] kd(1) rs taken w2
    by (auto simp: w3_def prod_eq_iff)
  have res: "res = Inr () \<and> r' = r\<lparr>r_resolved := True\<rparr> \<and> w' = w3"
    using settle nonempty rec add mv w1(1) led
    by (simp add: settle_def Let_def rs act(1) [symmetric])
  have t2: "taken_from (bw_clock w) (bw_ledger w2) k (u + many (hits k (map ?c ?off)) act) F a ident e
      (hits k (map ?c ?on))"
    unfolding w2 using t nn act(2) by (rule taken_from_add_all)
  have t3: "taken_from (bw_clock w) (bw_ledger w3) k
      (u + many (hits k (map ?c ?off)) act + many (hits k (map ?c ?on)) act) F a ident e 0"
    unfolding w3 using t2 _ nn(2) act(2) id
    by (rule taken_from_correct_all) (intro nonneg_add nonneg_many nn act)
  have count: "times_booked k (map ?c ?on) + times_booked k (map ?c ?off) = times_booked k keys"
    unfolding keys_def by (rule times_booked_split)
  have "many (hits k (map ?c ?off)) act + many (hits k (map ?c ?on)) act = many (times_booked k keys) act"
    using count colon by (simp add: hits_counters many_def plus_amounts_def algebra_simps flip: count)
  with t3 have "taken_from (bw_clock w) (bw_ledger w3) k (u + many (times_booked k keys) act) F a ident e 0"
    by (simp add: add.assoc)
  moreover have "times_booked k (map ?c (?on @ ?off)) = times_booked k keys" using count by simp
  ultimately show ?thesis
    using res w1 w2 w3 usage_at_fold [of tokens requests nanos "map ?c (?on @ ?off)" "bw_usage w" "fst k" "snd k"]
    by simp
qed

section \<open>Without the shared counters\<close>

definition record_usage_of :: "instant \<Rightarrow> zone \<Rightarrow> string option \<Rightarrow> usage_table \<Rightarrow> budget_read \<Rightarrow> budget_usage" where
  "record_usage_of now z caller t b = usage_at t (counter_key caller b) (period_key (b_period b) now z)"

definition first_exhausted ::
  "instant \<Rightarrow> zone \<Rightarrow> string option \<Rightarrow> usage_table \<Rightarrow> budget_read list \<Rightarrow> (budget_read \<times> string) option" where
  "first_exhausted now z caller t bs =
     List.find (\<lambda>_. True) (List.map_filter
       (\<lambda>b. map_option (Pair b) (postgres_breach b (record_usage_of now z caller t b))) bs)"

lemma first_exhausted_simps [simp]:
  "first_exhausted now z caller t [] = None"
  "first_exhausted now z caller t (b # bs) =
     (case postgres_breach b (record_usage_of now z caller t b) of
        Some d \<Rightarrow> Some (b, d) | None \<Rightarrow> first_exhausted now z caller t bs)"
  by (simp_all add: first_exhausted_def map_filter_simps split: option.split)

lemma check_only_up:
  assumes "\<And>n. \<not> be_database_down env n" "keyed caller bs"
  shows "fst (check_only env bs now caller w) =
      (case first_exhausted now (be_zone env) caller (bw_usage w) bs of
         None \<Rightarrow> Inr () | Some (b, d) \<Rightarrow> Inl (exceeded b d now None None (be_zone env)))
    \<and> bw_ledger (snd (check_only env bs now caller w)) = bw_ledger w
    \<and> bw_usage (snd (check_only env bs now caller w)) = bw_usage w"
  using assms(2)
  by (induction bs arbitrary: w)
    (simp_all add: read_usage_def query_def assms(1) record_usage_of_def split: option.split)

lemma reserve_each_down:
  assumes "\<And>n. \<not> be_database_down env n" "\<And>n. be_counters_down env n" "keyed (r_subject r) (b # bs)"
  shows "reserve_each env now (b # bs) r w = (Inl CountersUnavailable, r, called (called w))"
  using assms by (simp add: Let_def read_usage_def query_def ledger_reserve_def)

lemma move_nothing: "taken r bs = [] \<Longrightarrow> move env r am bs w = (Inr (), w)"
  by (induction bs) (auto split: option.splits)

lemma release_untaken:
  "taken r (r_budgets r) = [] \<Longrightarrow> release env r w = (Inr (), r\<lparr>r_resolved := True\<rparr>, w)"
  by (simp add: release_def Let_def move_nothing)

lemma enabled_not_in_lifted:
  assumes "distinct (map b_id rows)" "b \<in> set rows" "b_enabled b"
  shows "b_id b \<notin> b_id ` set (List.filter (\<lambda>b. \<not> b_enabled b) rows)"
proof
  assume "b_id b \<in> b_id ` set (List.filter (\<lambda>b. \<not> b_enabled b) rows)"
  then obtain b' where "b' \<in> set rows" "\<not> b_enabled b'" "b_id b' = b_id b" by auto
  with assms show False by (auto simp: distinct_map dest: inj_onD)
qed

lemma on_counters_untaken:
  assumes "distinct (map b_id rows)"
  shows "taken (on_counters z subject now a ident rows) (List.filter b_enabled rows) = []"
  using enabled_not_in_lifted [OF assms]
  by (intro taken_none) (simp add: on_counters_def period_keys_of_out)

lemma guard_degraded:
  fixes use_case :: "use_case option" and subject :: "string option"
  assumes db: "\<And>n. \<not> be_database_down env n" and enf: "be_enforce env"
    and down: "be_has_ledger env \<Longrightarrow> \<forall>n. be_counters_down env n"
    and ids: "distinct (map b_id (bw_budgets w))"
  defines "rows \<equiv> bound_budgets use_case subject w"
  shows "(case first_exhausted now (be_zone env) subject (bw_usage w) (List.filter b_enabled rows) of
      None \<Rightarrow> \<exists>r. fst (guard env use_case subject now estimated ident ident' w) = Inr r
        \<and> r_budgets r = List.filter b_enabled rows \<and> r_lifted r = List.filter (\<lambda>b. \<not> b_enabled b) rows
    | Some (b, d) \<Rightarrow> fst (guard env use_case subject now estimated ident ident' w)
        = Inl (exceeded b d now None None (be_zone env)))
    \<and> bw_ledger (snd (guard env use_case subject now estimated ident ident' w)) = bw_ledger w
    \<and> bw_usage (snd (guard env use_case subject now estimated ident ident' w)) = bw_usage w"
proof (cases rows)
  case Nil
  with guard_no_budget [of env w use_case subject now estimated ident ident'] db
  show ?thesis by (simp add: rows_def new_reservation_def)
next
  case (Cons b0 bs0)
  let ?on = "List.filter b_enabled rows" and ?z = "be_zone env"
  let ?plain = "plain_reservation ?z subject now ident' rows"
  define fb where "fb = (\<lambda>v. case check_only env ?on now subject v of
      (Inl e, w') \<Rightarrow> (Inl e, w') | (Inr _, w') \<Rightarrow> (Inr ?plain, w'))"
  have kd: "keyed subject ?on" by (simp add: keyed_filter keyed_bound rows_def)
  have dist: "distinct (map b_id rows)" unfolding rows_def using ids by (rule distinct_ids_bound)
  have app: "applicable env use_case subject w = (Inr (b0 # bs0), called w)"
    using applicable_up [of env w use_case subject] db Cons by (simp add: rows_def)
  note plain = plain_reservation_def
  have fb: "(case first_exhausted now ?z subject (bw_usage v) ?on of
      None \<Rightarrow> \<exists>r. fst (fb v) = Inr r \<and> r_budgets r = ?on
        \<and> r_lifted r = List.filter (\<lambda>b. \<not> b_enabled b) rows
    | Some (b, d) \<Rightarrow> fst (fb v) = Inl (exceeded b d now None None ?z))
    \<and> bw_ledger (snd (fb v)) = bw_ledger v \<and> bw_usage (snd (fb v)) = bw_usage v" for v
    using check_only_up [OF db kd, of now v]
    by (auto simp: fb_def plain split: prod.splits sum.splits option.splits)
  show ?thesis
  proof (cases "be_has_ledger env \<and> ?on \<noteq> []")
    case False
    show ?thesis
    proof (cases "be_has_ledger env")
      case True
      with False have off: "List.filter b_enabled (b0 # bs0) = []" using Cons by simp
      have "guard env use_case subject now estimated ident ident' w =
          (Inr ((on_counters ?z subject now (asked_amounts estimated) ident rows)\<lparr>r_resolved := False\<rparr>), called w)"
        unfolding guard_def app Let_def using enf True off
        by (simp add: on_counters_def asked_amounts_def Cons del: filter.simps)
      then show ?thesis using off Cons by (simp add: on_counters_def del: filter.simps)
    next
      case False
      have "guard env use_case subject now estimated ident ident' w = fb (called w)"
        unfolding guard_def app Let_def fb_def plain Cons using enf False
        by (simp del: filter.simps check_only.simps)
      then show ?thesis using fb [of "called w"] by (simp only: called_sel)
    qed
  next
    case True
    then obtain b bs where on: "?on = b # bs" by (cases ?on) auto
    let ?part = "on_counters ?z subject now (asked_amounts estimated) ident rows"
    have "reserve_each env now ?on ?part (called w) = (Inl CountersUnavailable, ?part, called (called (called w)))"
      unfolding on using down True db kd on
      by (intro reserve_each_down) (simp_all add: on_counters_def)
    then have step: "reserve_each env now (List.filter b_enabled (b0 # bs0))
        ((new_reservation ident)\<lparr>r_budgets := List.filter b_enabled (b0 # bs0),
         r_lifted := List.filter (\<lambda>b. \<not> b_enabled b) (b0 # bs0), r_subject := subject,
         r_reserved := asked_amounts estimated,
         r_period_keys := period_keys_of (List.filter (\<lambda>b. \<not> b_enabled b) (b0 # bs0)) now (be_zone env),
         r_atomic := True\<rparr>) (called w) = (Inl CountersUnavailable, ?part, called (called (called w)))"
      unfolding on_counters_def Cons .
    have rel: "release env ?part v = (Inr (), ?part\<lparr>r_resolved := True\<rparr>, v)" for v
      by (rule release_untaken) (use on_counters_untaken [OF dist] in \<open>simp add: on_counters_def\<close>)
    have "guard env use_case subject now estimated ident ident' w = fb (called (called (called w)))"
      unfolding guard_def app Let_def asked_amounts_def [symmetric] fb_def plain Cons
      using enf True step rel by (simp add: Cons del: filter.simps check_only.simps reserve_each.simps)
    then show ?thesis using fb [of "called (called (called w))"] by (simp only: called_sel)
  qed
qed

section \<open>Example\<close>

definition example_budget :: "int \<Rightarrow> string \<Rightarrow> int option \<Rightarrow> bool \<Rightarrow> budget_read" where
  "example_budget i scope tokens on = \<lparr>b_id = i, b_use_case = ''hr'', b_scope = scope, b_subject = [],
     b_period = ''month'', b_limit_cost_nanos = None, b_limit_tokens = tokens,
     b_limit_requests = None, b_enabled = on\<rparr>"

text \<open>28 February 2026, 23:00 in UTC.\<close>

definition example_now :: instant where
  "example_now = 1772319600000000"

definition example_budgets :: budget_world where
  "example_budgets = \<lparr>bw_budgets = [example_budget 1 ''use_case'' (Some 1000) True,
       example_budget 2 ''each_member'' (Some 60) True],
     bw_usage = [(''uc:hr'', ''2026-02'') \<mapsto> \<lparr>bu_tokens = 70, bu_requests = 2, bu_cost_nanos = 0, bu_unpriced_requests = 2\<rparr>,
       (''member:hr:ada'', ''2026-02'') \<mapsto> \<lparr>bu_tokens = 70, bu_requests = 2, bu_cost_nanos = 0, bu_unpriced_requests = 2\<rparr>],
     bw_ledger = \<lparr>counters = [''budget:uc:hr:2026-02'' \<mapsto> \<lparr>c_value = Amounts 70 2 0, c_expires = Some 1772319700\<rparr>],
       opens = Map.empty\<rparr>,
     bw_clock = 1772319600, bw_calls = 0\<rparr>"

definition example_service :: budget_env where
  "example_service = \<lparr>be_enforce = True, be_has_ledger = True, be_zone = utc,
     be_counters_down = (\<lambda>_. False), be_database_down = (\<lambda>_. False)\<rparr>"

lemma example_healthy: "healthy example_service"
  by (simp add: healthy_def example_service_def)

lemma example_counter:
  "held (bw_clock example_budgets) (bw_ledger example_budgets) ''uc:hr'' ''2026-02'' = Some (Amounts 70 2 0)"
  "in_flight (bw_clock example_budgets) (bw_ledger example_budgets) ''uc:hr'' ''2026-02'' = []"
  by (simp_all add: example_budgets_def held_def counter_at_def ledger_key_def in_flight_def open_at_def)

lemma example_facts:
  "be_enforce example_service" "be_has_ledger example_service"
  "distinct (map b_id (bw_budgets example_budgets))"
  "nonneg (Amounts 70 2 0)"
  "CHR '':'' \<notin> set ''2026-02''"
  "ident \<notin> fst ` set (in_flight (bw_clock example_budgets) (bw_ledger example_budgets) ''uc:hr'' ''2026-02'')"
  by (simp_all add: example_service_def example_budgets_def example_budget_def nonneg_def in_flight_def open_at_def)

section \<open>Properties\<close>

text \<open>
  C2: A refused request leaves no trace: on every counter that was there before it, both the figure
  and the reservations in flight are what they were, however many budgets took from it before the
  one that refused, and nothing is booked.
\<close>

theorem refused_request_leaves_no_trace:
  assumes "healthy env" and "be_enforce env" and "be_has_ledger env"
    and "distinct (map b_id (bw_budgets w))"
    and "nonneg (asked_amounts estimated)" and "ident \<noteq> []"
    and "held (bw_clock w) (bw_ledger w) sk pk = Some u" and "nonneg u"
    and "ident \<notin> fst ` set (in_flight (bw_clock w) (bw_ledger w) sk pk)"
    and "guard env use_case subject now estimated ident ident' w = (Inl e, w')"
  shows "held (bw_clock w') (bw_ledger w') sk pk = Some u
    \<and> in_flight (bw_clock w') (bw_ledger w') sk pk = in_flight (bw_clock w) (bw_ledger w) sk pk
    \<and> bw_usage w' = bw_usage w"
  using guard_enforced [of env w u estimated ident "in_flight (bw_clock w) (bw_ledger w) sk pk" "(sk, pk)"
      _ now use_case subject ident' "Inl e" w'] assms
  by (simp add: taken_from_def)

theorem refused_request_leaves_no_trace_witness:
  "\<exists>e w'. guard example_service (Some ''hr'') (Some ''ada'') example_now (Some (Amounts 10 1 0)) ''r1'' ''r2''
      example_budgets = (Inl e, w')
    \<and> exceeded_message e = ''Token budget exhausted for member (month). It resets at 2026-03-01T00:00:00+00:00.''
    \<and> held (bw_clock w') (bw_ledger w') ''uc:hr'' ''2026-02'' = Some (Amounts 70 2 0)"
proof -
  let ?g = "guard example_service (Some ''hr'') (Some ''ada'') example_now (Some (Amounts 10 1 0)) ''r1'' ''r2''
      example_budgets"
  have "map_sum exceeded_message (\<lambda>_. ()) (fst ?g)
      = Inl ''Token budget exhausted for member (month). It resets at 2026-03-01T00:00:00+00:00.''" by code_simp
  then obtain e w' where g: "?g = (Inl e, w')"
    and m: "exceeded_message e = ''Token budget exhausted for member (month). It resets at 2026-03-01T00:00:00+00:00.''"
    by (cases ?g; cases "fst ?g") auto
  have "held (bw_clock w') (bw_ledger w') ''uc:hr'' ''2026-02'' = Some (Amounts 70 2 0)"
    using refused_request_leaves_no_trace [OF example_healthy example_facts(1-3) _ _ example_counter(1)
        example_facts(4,6) g]
    by (simp add: asked_amounts_def nonneg_def)
  with g m show ?thesis by blast
qed

text \<open>
  C1: A served request is charged once per budget that binds it, in both stores, and in the period it
  was admitted in whenever it settles: the record grows by the actual figure, the shared counter
  that stood at \<open>u\<close> stands at \<open>u\<close> and the actual figure, and nothing of it is in flight any more.
  Lifted budgets are charged like the others. A request without a price counts as unpriced.
\<close>

theorem served_request_is_charged_once:
  fixes use_case subject now sk pk
  assumes "healthy env" and "be_enforce env" and "be_has_ledger env"
    and "distinct (map b_id (bw_budgets w))"
    and "nonneg (asked_amounts estimated)" and "ident \<noteq> []"
    and "held (bw_clock w) (bw_ledger w) sk pk = Some u" and "nonneg u" and "CHR '':'' \<notin> set pk"
    and "ident \<notin> fst ` set (in_flight (bw_clock w) (bw_ledger w) sk pk)"
    and "bound_budgets use_case subject w \<noteq> []"
    and "guard env use_case subject now estimated ident ident' w = (Inr r, w1)"
    and "nonneg (Amounts tokens requests (case nanos of None \<Rightarrow> 0 | Some c \<Rightarrow> c))"
    and "settle env r tokens nanos later requests w1 = (res, r', w2)"
  defines "n \<equiv> times_booked (sk, pk)
    (map (budget_counter now (be_zone env) subject) (bound_budgets use_case subject w))"
  shows "res = Inr () \<and> r_resolved r'
    \<and> held (bw_clock w) (bw_ledger w2) sk pk
        = Some (u + many n (Amounts tokens requests (case nanos of None \<Rightarrow> 0 | Some c \<Rightarrow> c)))
    \<and> in_flight (bw_clock w) (bw_ledger w2) sk pk = in_flight (bw_clock w) (bw_ledger w) sk pk
    \<and> usage_at (bw_usage w2) sk pk =
      (let v = usage_at (bw_usage w) sk pk in
       \<lparr>bu_tokens = bu_tokens v + int n * tokens, bu_requests = bu_requests v + int n * requests,
        bu_cost_nanos = bu_cost_nanos v + int n * (case nanos of None \<Rightarrow> 0 | Some c \<Rightarrow> c),
        bu_unpriced_requests = bu_unpriced_requests v + int n * (if nanos = None then requests else 0)\<rparr>)"
proof -
  let ?F = "in_flight (bw_clock w) (bw_ledger w) sk pk" and ?a = "asked_amounts estimated"
  let ?act = "Amounts tokens requests (case nanos of None \<Rightarrow> 0 | Some c \<Rightarrow> c)"
  let ?rows = "bound_budgets use_case subject w"
  let ?e = "\<lparr>e_deadline = now div micros_per_second + reservation_lifetime_seconds, e_amounts = ?a\<rparr>"
  have g: "bw_usage w1 = bw_usage w" "bw_clock w1 = bw_clock w"
    "reservation_of (be_zone env) subject now ?a ident ?rows r"
    "taken_from (bw_clock w1) (bw_ledger w1) (sk, pk) u ?F ?a ident ?e
      (hits (sk, pk) (map (budget_counter now (be_zone env) subject) (List.filter b_enabled ?rows)))"
    using guard_enforced [of env w u estimated ident ?F "(sk, pk)" ?e now use_case subject ident' "Inr r" w1] assms
    by simp_all
  from settle_enforced [OF assms(1,3) g(3) assms(11) keyed_bound g(4) assms(8,5,6,10) refl assms(13,14)]
  show ?thesis using assms(9) g(1,2) by (simp add: taken_from_def n_def Let_def)
qed

theorem served_request_is_charged_once_witness:
  "\<exists>r w1 r' w2. guard example_service (Some ''hr'') None example_now (Some (Amounts 500 1 0)) ''r1'' ''r2''
      example_budgets = (Inr r, w1)
    \<and> settle example_service r 40 None (example_now + 7200000000) 1 w1 = (Inr (), r', w2)
    \<and> held 1772319600 (bw_ledger w2) ''uc:hr'' ''2026-02'' = Some (Amounts 110 3 0)
    \<and> usage_at (bw_usage w2) ''uc:hr'' ''2026-02''
        = \<lparr>bu_tokens = 110, bu_requests = 3, bu_cost_nanos = 0, bu_unpriced_requests = 3\<rparr>"
proof -
  let ?g = "guard example_service (Some ''hr'') None example_now (Some (Amounts 500 1 0)) ''r1'' ''r2'' example_budgets"
  have "map_sum (\<lambda>_. ()) (\<lambda>_. ()) (fst ?g) = Inr ()" by code_simp
  then obtain r w1 where g: "?g = (Inr r, w1)" by (cases ?g; cases "fst ?g") auto
  obtain res r' w2 where s: "settle example_service r 40 None (example_now + 7200000000) 1 w1 = (res, r', w2)"
    by (metis prod_cases3)
  have n: "times_booked (''uc:hr'', ''2026-02'') (map (budget_counter example_now (be_zone example_service) None)
      (bound_budgets (Some ''hr'') None example_budgets)) = 1"
    by code_simp
  then have ne: "bound_budgets (Some ''hr'') None example_budgets \<noteq> []" by auto
  have v: "usage_at (bw_usage example_budgets) ''uc:hr'' ''2026-02''
      = \<lparr>bu_tokens = 70, bu_requests = 2, bu_cost_nanos = 0, bu_unpriced_requests = 2\<rparr>"
    by (simp add: usage_at_def example_budgets_def)
  have c: "bw_clock example_budgets = 1772319600" by (simp add: example_budgets_def)
  have asked: "nonneg (asked_amounts (Some (Amounts 500 1 0)))" by (simp add: asked_amounts_def nonneg_def)
  have "nonneg (Amounts 40 1 (case (None :: int option) of None \<Rightarrow> 0 | Some c \<Rightarrow> c))" by (simp add: nonneg_def)
  from served_request_is_charged_once [OF example_healthy example_facts(1-3) asked _ example_counter(1)
      example_facts(4-6) ne g this s]
  have "res = Inr () \<and> held 1772319600 (bw_ledger w2) ''uc:hr'' ''2026-02'' = Some (Amounts 110 3 0)
    \<and> usage_at (bw_usage w2) ''uc:hr'' ''2026-02''
        = \<lparr>bu_tokens = 110, bu_requests = 3, bu_cost_nanos = 0, bu_unpriced_requests = 3\<rparr>"
    by (simp add: n v c plus_amounts_def)
  with g s show ?thesis by blast
qed



text \<open>
  The two ways a budget is enforced read one figure alike: on a counter just built from the
  record with nothing in flight, the script refuses exactly what reading the record refuses, on the
  same dimension - a limit below zero too, which both read as one that allows nothing.
\<close>

theorem both_paths_read_a_limit_alike:
  assumes "nonneg (seed_of u)" and "held clock L sk pk = None" and "in_flight clock L sk pk = []"
  shows "fst (reserve clock sk pk (budget_limits b) am (seed_of u) ident now L) = postgres_breach b u"
proof -
  obtain breach L' where res: "reserve clock sk pk (budget_limits b) am (seed_of u) ident now L = (breach, L')"
    by fastforce
  have b: "base clock L sk pk (seed_of u) now = seed_of u"
    using assms(2,3) by (simp add: base_def still_open_def)
  show ?thesis
    unfolding res fst_conv reserve_cases(1) [OF res] b using assms(1)
    by (auto simp: breached_def cap_def no_limit_def budget_limits_def postgres_breach_def seed_of_def
        nonneg_def Let_def split: option.splits)
qed

theorem both_paths_read_a_limit_alike_witness:
  "fst (reserve 0 ''uc:hr'' ''2026-02'' (budget_limits (example_budget 1 ''use_case'' (Some (-5)) True)) 0
      (seed_of no_usage) ''r'' 0 empty_ledger) = Some ''tokens''"
  using both_paths_read_a_limit_alike [of no_usage 0 empty_ledger "''uc:hr''" "''2026-02''"
      "example_budget 1 ''use_case'' (Some (-5)) True" 0 "''r''" 0]
  by (simp add: no_usage_def seed_of_def nonneg_def empty_ledger_def held_def counter_at_def in_flight_def
      open_at_def postgres_breach_def example_budget_def)

text \<open>
  With enforcement off nobody is refused and nothing is reserved, and everything is still
  counted: whatever the figures, the request is admitted with every budget that binds it named, on
  or lifted, under the period it was admitted in, and no shared counter moves.
\<close>

theorem enforcement_off_still_counts:
  assumes "\<not> be_enforce env" and "\<not> be_database_down env (bw_calls w)"
    and "distinct (map b_id (bw_budgets w))"
  shows "\<exists>r. guard env use_case subject now estimated ident ident' w = (Inr r, called w)
    \<and> set (r_budgets r) \<union> set (r_lifted r) = set (bound_budgets use_case subject w)
    \<and> (\<forall>b \<in> set (bound_budgets use_case subject w).
         r_period_keys r (b_id b) = Some (period_key (b_period b) now (be_zone env)))
    \<and> fst (refuse_if_exhausted env use_case subject now w) = Inr ()
    \<and> fst (cost_limited env use_case subject w) = Inr False"
proof (cases "bound_budgets use_case subject w = []")
  case True
  with assms guard_no_budget [of env w use_case subject now estimated ident ident'] show ?thesis
    by (simp add: new_reservation_def refuse_if_exhausted_def cost_limited_def)
next
  case False
  let ?r = "plain_reservation (be_zone env) subject now ident' (bound_budgets use_case subject w)"
  have "set (r_budgets ?r) \<union> set (r_lifted ?r) = set (bound_budgets use_case subject w)"
    by (auto simp: plain_reservation_def)
  moreover have "r_period_keys ?r = period_keys_of (bound_budgets use_case subject w) now (be_zone env)"
    by (simp add: plain_reservation_def)
  ultimately show ?thesis
    using False assms(1) guard_not_enforced [OF assms(2) False assms(1)]
      period_keys_of_in [OF distinct_ids_bound [OF assms(3)]]
    by (simp add: refuse_if_exhausted_def cost_limited_def)
qed

theorem enforcement_off_still_counts_witness:
  "\<exists>r. guard (example_service\<lparr>be_enforce := False\<rparr>) (Some ''hr'') (Some ''ada'') example_now None ''r1'' ''r2''
      example_budgets = (Inr r, called example_budgets)
    \<and> set (r_budgets r) \<union> set (r_lifted r) = set (bound_budgets (Some ''hr'') (Some ''ada'') example_budgets)"
  using enforcement_off_still_counts [where env = "example_service\<lparr>be_enforce := False\<rparr>" and w = example_budgets
      and use_case = "Some ''hr''" and subject = "Some ''ada''" and now = example_now and estimated = None
      and ident = "''r1''" and ident' = "''r2''"] example_facts(3)
  by (auto simp: example_service_def)

text \<open>
  Nothing leaves the block under \<open>hold\<close> with its reservation open: whatever the block does and
  however it ends, the reservation is resolved afterwards, and where the block resolved it itself
  nothing is moved a second time.
\<close>

theorem hold_always_resolves:
  "case hold env block r w of (out, r', w') \<Rightarrow>
     out = fst (block r w) \<and> r_resolved r' \<and> (r_resolved (fst (snd (block r w))) \<longrightarrow> (out, r', w') = block r w)"
  by (auto simp: hold_def release_quietly_def release_def Let_def split: prod.splits)

theorem hold_always_resolves_witness:
  "r_resolved (fst (snd (hold example_service (\<lambda>r w. ((), r, w)) (new_reservation ''r1'') example_budgets)))"
  using hold_always_resolves [where env = example_service and block = "\<lambda>r w. ((), r, w)"
      and r = "new_reservation ''r1''" and w = example_budgets]
  by (auto split: prod.splits)

text \<open>
  C26: A settlement whose booking fails keeps its reservation: it marks the reservation resolved
  before it books, so \<open>hold\<close> gives nothing back, and what the request set aside stays on every shared
  counter with nothing recorded for it.
\<close>

theorem failed_booking_keeps_the_reservation:
  assumes "be_database_down env (bw_calls w)" and "r_budgets r @ r_lifted r \<noteq> []"
    and "keyed (r_subject r) (r_budgets r @ r_lifted r)"
  shows "\<exists>r' w'. hold env (\<lambda>r w. settle env r tokens nanos later requests w) r w = (Inl StoreFailed, r', w')
    \<and> bw_ledger w' = bw_ledger w \<and> bw_usage w' = bw_usage w"
proof -
  obtain b bs where rows: "r_budgets r @ r_lifted r = b # bs" using assms(2) by (cases "r_budgets r @ r_lifted r") auto
  have "record_usage env (b # bs) tokens nanos later requests (r_subject r) (r_period_keys r) w
      = (Inl StoreFailed, w\<lparr>bw_calls := Suc (bw_calls w)\<rparr>)"
    using assms(1,3) rows by (simp add: record_usage_def Let_def)
  moreover have "reservation_nonempty r" using assms(2) by (auto simp: reservation_nonempty_def)
  ultimately have "settle env r tokens nanos later requests w
      = (Inl StoreFailed, r\<lparr>r_resolved := True\<rparr>, w\<lparr>bw_calls := Suc (bw_calls w)\<rparr>)"
    by (simp add: settle_def Let_def rows)
  then show ?thesis by (simp add: hold_def)
qed

theorem failed_booking_keeps_the_reservation_witness:
  "let env = example_service\<lparr>be_database_down := (\<lambda>_. True)\<rparr>;
       r = on_counters utc None example_now (Amounts 500 1 0) ''r1'' [example_budget 1 ''use_case'' (Some 1000) True]
   in fst (hold env (\<lambda>r w. settle env r 40 None example_now 1 w) r example_budgets) = Inl StoreFailed"
  using failed_booking_keeps_the_reservation [where env = "example_service\<lparr>be_database_down := (\<lambda>_. True)\<rparr>"
    and w = example_budgets and tokens = 40 and nanos = None and later = example_now and requests = 1
    and r = "on_counters utc None example_now (Amounts 500 1 0) ''r1'' [example_budget 1 ''use_case'' (Some 1000) True]"]
  by (force simp: on_counters_def new_reservation_def example_budget_def scope_key_def counter_key_def
      scope_applying_def)

text \<open>
  No per-person counter is charged twice for one request: of the budgets of one use case that
  bind a caller, no two counted per person keep the same counter in the same period.
\<close>

theorem personal_budgets_keep_their_own_counters:
  assumes "\<And>b. b \<in> set (bw_budgets w) \<Longrightarrow> b_period b = ''day'' \<or> b_period b = ''month''"
    and "0 \<le> d_year (local_date now z)" and "d_year (local_date now z) \<le> 9999"
  shows "distinct (map (budget_counter now z subject)
    (List.filter (\<lambda>b. per_person (b_scope b)) (bound_budgets use_case subject w)))"
proof -
  have "\<forall>r \<in> set (use_case_rows use_case (bw_budgets w)). countable now z r
      \<and> sr_use_case (budget_row r) = (case use_case of None \<Rightarrow> [] | Some u \<Rightarrow> u)"
    using assms by (auto simp: use_case_rows_def countable_def budget_row_def)
  from budget_rows.personal_counters_distinct [OF this, of subject] show ?thesis
    by (simp add: bound_budgets_def budget_row_def)
qed

theorem personal_budgets_keep_their_own_counters_witness:
  "map (budget_counter example_now utc (Some ''ada''))
     (List.filter (\<lambda>b. per_person (b_scope b)) (bound_budgets (Some ''hr'') (Some ''ada'') example_budgets))
   = [(''member:hr:ada'', ''2026-02'')]
   \<and> distinct (map (budget_counter example_now utc (Some ''ada''))
     (List.filter (\<lambda>b. per_person (b_scope b)) (bound_budgets (Some ''hr'') (Some ''ada'') example_budgets)))"
proof
  show "map (budget_counter example_now utc (Some ''ada''))
     (List.filter (\<lambda>b. per_person (b_scope b)) (bound_budgets (Some ''hr'') (Some ''ada'') example_budgets))
   = [(''member:hr:ada'', ''2026-02'')]" by code_simp
  have "local_date example_now utc = \<lparr>d_year = 2026, d_month = 2, d_day = 28\<rparr>" by code_simp
  then show "distinct (map (budget_counter example_now utc (Some ''ada''))
     (List.filter (\<lambda>b. per_person (b_scope b)) (bound_budgets (Some ''hr'') (Some ''ada'') example_budgets)))"
    by (intro personal_budgets_keep_their_own_counters) (auto simp: example_budgets_def example_budget_def)
qed

lemma view_start_sel:
  "view_start z now subject bound b = Inr v \<Longrightarrow>
     v_id v = b_id b \<and> v_binds v = (b_id b \<in> b_id ` set bound) \<and> v_used_tokens v = None
     \<and> v_remaining_tokens v = None \<and> v_limit_tokens v = b_limit_tokens b"
  by (auto simp: view_start_def Let_def sum_bind_Inr_iff)

lemma view_figures_sel:
  "view_figures b u v = Inr v' \<Longrightarrow>
     v_id v' = v_id v \<and> v_binds v' = v_binds v \<and> v_used_tokens v' = Some (bu_tokens u)
     \<and> v_limit_tokens v' = v_limit_tokens v
     \<and> v_remaining_tokens v' = left_of (b_limit_tokens b) (bu_tokens u)"
  by (auto simp: view_figures_def Let_def sum_bind_Inr_iff)

definition row_told :: "budget_read list \<Rightarrow> budget_view \<Rightarrow> bool" where
  "row_told bound v \<longleftrightarrow> v_binds v = (v_id v \<in> b_id ` set bound) \<and>
     (v_used_tokens v \<noteq> None \<longrightarrow> v_binds v \<and>
        v_remaining_tokens v = left_of (v_limit_tokens v) (the (v_used_tokens v)))"

lemma view_rows_ids:
  "view_rows env now subject bound bs w = (Inr views, w') \<Longrightarrow>
   map v_id views = map b_id bs \<and> (\<forall>v \<in> set views. row_told bound v)"
proof (induction bs arbitrary: w views)
  case (Cons b bs)
  from Cons.prems obtain row where row: "view_start (be_zone env) now subject bound b = Inr row"
    by (auto split: sum.splits)
  note row_sel = view_start_sel [OF row]
  show ?case
  proof (cases "if b_id b \<in> b_id ` set bound
      then scope_applying (b_scope b) (b_use_case b) subject (b_subject b) else None")
    case None
    with Cons.prems row obtain rest where rest: "view_rows env now subject bound bs w = (Inr rest, w')"
      and "views = row # rest" by (auto split: sum.splits prod.splits)
    moreover have "row_told bound row" using row_sel by (simp add: row_told_def)
    ultimately show ?thesis using Cons.IH [OF rest] row_sel by simp
  next
    case (Some s)
    with Cons.prems row obtain u w1 row' rest where fig: "view_figures b u row = Inr row'"
      and rest: "view_rows env now subject bound bs w1 = (Inr rest, w')" and "views = row' # rest"
      by (auto split: sum.splits prod.splits)
    moreover have "row_told bound row'"
      using view_figures_sel [OF fig] row_sel Some by (simp add: row_told_def split: if_splits)
    ultimately show ?thesis using Cons.IH [OF rest] row_sel view_figures_sel [OF fig] by simp
  qed
qed simp

text \<open>
  C25: The consumption view and the refusal cannot disagree about whose budget it is: one row per
  budget of the use case, in order; the rows said to bind the reader are those enforcement books
  for them; only those carry a figure, and what is left is the limit less what was used, below zero
  where it is below zero.
\<close>

theorem view_agrees_with_enforcement:
  assumes "usage_view env use_case now subject w = (Inr views, w')"
  shows "map v_id views = map b_id (use_case_rows (Some use_case) (bw_budgets w))
    \<and> v_id ` {v \<in> set views. v_binds v} = b_id ` set (bound_budgets (Some use_case) subject w)
    \<and> (\<forall>v \<in> set views. \<forall>n. v_used_tokens v = Some n \<longrightarrow>
         v_binds v \<and> v_remaining_tokens v = map_option (\<lambda>l. l - n) (v_limit_tokens v))"
proof -
  let ?rows = "use_case_rows (Some use_case) (bw_budgets w)"
  let ?bound = "bound_budgets (Some use_case) subject w"
  from assms have v: "view_rows env now subject ?bound ?rows (called w) = (Inr views, w')"
    by (auto simp: usage_view_def query_def bound_budgets_def use_case_rows_def split: if_splits)
  from view_rows_ids [OF v] have ids: "map v_id views = map b_id ?rows"
    and told: "\<And>v. v \<in> set views \<Longrightarrow> row_told ?bound v" by simp_all
  have sub: "b_id ` set ?bound \<subseteq> b_id ` set ?rows"
    using binding_subset [of _ budget_row slot_of subject ?rows] by (auto simp: bound_budgets_def)
  have set_ids: "v_id ` set views = b_id ` set ?rows" using ids by (metis set_map)
  have "v_id ` {v \<in> set views. v_binds v} = v_id ` {v \<in> set views. v_id v \<in> b_id ` set ?bound}"
    using told by (intro arg_cong [of _ _ "image v_id"]) (auto simp: row_told_def)
  also have "\<dots> = v_id ` set views \<inter> b_id ` set ?bound" by auto
  also have "\<dots> = b_id ` set ?bound" using sub set_ids by blast
  finally have binds: "v_id ` {v \<in> set views. v_binds v} = b_id ` set ?bound" .
  have "left_of l n = map_option (\<lambda>l. l - n) l" for l n by (simp add: left_of_def split: option.split)
  then have "v_binds v \<and> v_remaining_tokens v = map_option (\<lambda>l. l - n) (v_limit_tokens v)"
    if "v \<in> set views" "v_used_tokens v = Some n" for v n
    using told [OF that(1)] that(2) by (cases "v_binds v") (simp_all add: row_told_def)
  with ids binds show ?thesis by blast
qed

theorem view_agrees_with_enforcement_witness:
  "\<exists>views w'. usage_view example_service ''hr'' example_now (Some ''ada'') example_budgets = (Inr views, w')
    \<and> map v_remaining_tokens views = [Some 930, Some (-10)]
    \<and> v_id ` {v \<in> set views. v_binds v} = b_id ` set (bound_budgets (Some ''hr'') (Some ''ada'') example_budgets)"
proof -
  let ?v = "usage_view example_service ''hr'' example_now (Some ''ada'') example_budgets"
  have zero: "shown (Some 0) = Inr (Some ''0.00'')"
    by (simp add: shown_def format_display_def display_dec_def format_amount_dec_def from_nanos_def
       dec_str_def Let_def show_nat.simps show_int_def digit_def decimal_precision_def)
  have rows: "List.filter (\<lambda>b. b_use_case b = ''hr'') (bw_budgets example_budgets) = bw_budgets example_budgets"
    by (simp add: example_budgets_def example_budget_def)
  have bound: "binding budget_row slot_of (Some ''ada'') (bw_budgets example_budgets) = bw_budgets example_budgets"
    by code_simp
  have pk: "period_key ''month'' example_now utc = ''2026-02''" by code_simp
  have "map_sum (\<lambda>_. ()) (map v_remaining_tokens) (fst ?v) = Inr [Some 930, Some (-10)]"
    by (simp add: usage_view_def query_def rows bound)
       (simp add: example_service_def example_budgets_def example_budget_def view_start_def Let_def shown_def [of None]
         zero view_figures_def left_of_def read_usage_def query_def usage_at_def scope_applying_def usage_key_def pk
         called_def per_person_def)
  then obtain views w' where v: "?v = (Inr views, w')"
    and left: "map v_remaining_tokens views = [Some 930, Some (-10)]"
    by (cases ?v; cases "fst ?v") auto
  note binds = conjunct1 [OF conjunct2 [OF view_agrees_with_enforcement [OF v]]]
  show ?thesis using v left binds by (intro exI [of _ views] exI [of _ w'] conjI)
qed

end
