(* ===== verification/Rate_Limits.thy ===== *)
theory Rate_Limits
  imports Scopes
begin

text \<open>
  Rate limiting (\<open>gateway/src/aira_gateway/ratelimit/\<close>): the token buckets a request must pass
  (\<open>buckets.py\<close>), shared in Redis, kept per process, and the fallback from the one to the other,
  and the service that applies a use case's configured limits (\<open>service.py\<close>).

  Times and token counts are floats in the source; the model takes them as the rationals they
  denote, and their arithmetic as exact. (Lua writes them back with 14 significant digits.) The
  interface \<open>token_bucket\<close> states what every implementation promises: a request takes from all of its
  buckets or from none, and a bucket gains no more than its refill. Its client lemma bounds what any
  bucket lets through over any stretch of time.
\<close>

section \<open>Buckets\<close>

definition minimum_rpm :: int where
  "minimum_rpm = 1"

record bucket_request =
  br_key :: string
  br_capacity :: int
  br_refill :: rat
  br_label :: string

definition per_minute :: "string \<Rightarrow> int \<Rightarrow> string \<Rightarrow> int option \<Rightarrow> bucket_request" where
  "per_minute key limit_rpm label burst =
     (let rate = max minimum_rpm limit_rpm in
      \<lparr>br_key = key,
       br_capacity = (case burst of Some b \<Rightarrow> if b > 0 then b else rate | None \<Rightarrow> rate),
       br_refill = of_int rate / 60,
       br_label = label\<rparr>)"

text \<open>\<open>None\<close> for a wait is \<open>inf\<close>: a bucket that never refills.\<close>

record bucket_decision =
  bd_allowed :: bool
  bd_retry_after :: "rat option"
  bd_refused :: "bucket_request option"

definition allowed_decision :: bucket_decision where
  "allowed_decision = \<lparr>bd_allowed = True, bd_retry_after = Some 0, bd_refused = None\<rparr>"

definition retry_after_header :: "bucket_decision \<Rightarrow> string option" where
  \<comment> \<open>\<open>None\<close> where \<open>math.ceil\<close> raises on an infinite wait\<close>
  "retry_after_header d = map_option (\<lambda>t. show_int (max 1 \<lceil>t\<rceil>)) (bd_retry_after d)"

section \<open>The shared buckets\<close>

record redis_bucket =
  rb_tokens :: rat
  rb_ts :: rat
  rb_expires :: rat

record redis_buckets =
  rk_clock :: rat
  rk_store :: "string \<Rightarrow> redis_bucket option"

definition bucket_at :: "redis_buckets \<Rightarrow> string \<Rightarrow> redis_bucket option" where
  "bucket_at st key =
     (case rk_store st key of
        Some b \<Rightarrow> if rk_clock st < rb_expires b then Some b else None
      | None \<Rightarrow> None)"

definition redis_level :: "redis_buckets \<Rightarrow> bucket_request \<Rightarrow> rat" where
  "redis_level st r =
     (let (available, ts) = (case bucket_at st (br_key r) of
            None \<Rightarrow> (of_int (br_capacity r), rk_clock st)
          | Some b \<Rightarrow> (rb_tokens b, rb_ts b));
          elapsed = (if rk_clock st - ts < 0 then 0 else rk_clock st - ts)
      in min (of_int (br_capacity r)) (available + elapsed * br_refill r))"

definition script_step ::
  "(bucket_request \<Rightarrow> rat) \<Rightarrow> int \<Rightarrow> rat list \<times> bool \<times> int \<times> nat \<Rightarrow> nat \<times> bucket_request
     \<Rightarrow> rat list \<times> bool \<times> int \<times> nat" where
  "script_step level cost state ir =
     (case (state, ir) of ((tokens, allowed, retry_ms, refused), (i, r)) \<Rightarrow>
        let available = level r in
        if available < of_int cost
        then let wait = \<lceil>(of_int cost - available) / br_refill r * 1000\<rceil> in
             (tokens @ [available], False, max wait retry_ms, if allowed then i else refused)
        else (tokens @ [available], allowed, retry_ms, refused))"

definition script_write ::
  "rat \<Rightarrow> bool \<Rightarrow> int \<Rightarrow> (string \<Rightarrow> redis_bucket option) \<Rightarrow> bucket_request \<times> rat
     \<Rightarrow> (string \<Rightarrow> redis_bucket option)" where
  "script_write now allowed cost store rt =
     (case rt of (r, available) \<Rightarrow>
        store(br_key r \<mapsto>
          \<lparr>rb_tokens = (if allowed then available - of_int cost else available), rb_ts = now,
           rb_expires = now + of_int (max 60 (\<lceil>of_int (br_capacity r) / br_refill r\<rceil> + 1))\<rparr>))"

definition redis_take ::
  "bucket_request list \<Rightarrow> int \<Rightarrow> redis_buckets \<Rightarrow> bucket_decision \<times> redis_buckets" where
  "redis_take requests cost st =
     (if requests = [] then (allowed_decision, st)
      else
        (case foldl (script_step (redis_level st) cost) ([], True, 0, 0) (List.enumerate 1 requests) of
           (tokens, allowed, retry_ms, refused) \<Rightarrow>
             (\<lparr>bd_allowed = allowed, bd_retry_after = Some (of_int retry_ms / 1000),
               bd_refused = (if refused = 0 then None else Some (requests ! (refused - 1)))\<rparr>,
              st\<lparr>rk_store :=
                foldl (script_write (rk_clock st) allowed cost) (rk_store st) (zip requests tokens)\<rparr>)))"

section \<open>The per-process buckets\<close>

definition sweep_every :: nat where
  "sweep_every = 1024"

definition max_tracked_buckets :: nat where
  "max_tracked_buckets = 100000"

record memory_bucket =
  mb_tokens :: rat
  mb_when :: rat
  mb_full_at :: rat

text \<open>The dictionary in its order: the least recently written entry first.\<close>

record memory_buckets =
  mem_clock :: rat
  mem_state :: "(string \<times> memory_bucket) list"
  mem_takes :: nat

definition memory_level :: "memory_buckets \<Rightarrow> bucket_request \<Rightarrow> rat" where
  "memory_level st r =
     (let (tokens, ts) = (case map_of (mem_state st) (br_key r) of
            None \<Rightarrow> (of_int (br_capacity r), mem_clock st)
          | Some b \<Rightarrow> (mb_tokens b, mb_when b))
      in min (of_int (br_capacity r)) (tokens + max 0 (mem_clock st - ts) * br_refill r))"

definition max_wait :: "rat option \<Rightarrow> rat option \<Rightarrow> rat option" where
  "max_wait a b = (case (a, b) of (Some x, Some y) \<Rightarrow> Some (max x y) | _ \<Rightarrow> None)"

definition memory_step ::
  "(bucket_request \<Rightarrow> rat) \<Rightarrow> int \<Rightarrow> rat list \<times> bucket_request option \<times> rat option \<Rightarrow> bucket_request
     \<Rightarrow> rat list \<times> bucket_request option \<times> rat option" where
  "memory_step level cost state r =
     (case state of (available, refused, wait) \<Rightarrow>
        let tokens = level r in
        if tokens < of_int cost
        then (available @ [tokens], (case refused of None \<Rightarrow> Some r | Some q \<Rightarrow> Some q),
              max_wait wait (if br_refill r > 0 then Some ((of_int cost - tokens) / br_refill r) else None))
        else (available @ [tokens], refused, wait))"

definition memory_write ::
  "rat \<Rightarrow> bool \<Rightarrow> int \<Rightarrow> (string \<times> memory_bucket) list \<Rightarrow> bucket_request \<times> rat
     \<Rightarrow> (string \<times> memory_bucket) list" where
  "memory_write now allowed cost state rt =
     (case rt of (r, tokens) \<Rightarrow>
        let left = (if allowed then tokens - of_int cost else tokens);
            full_at = now + max 0 (of_int (br_capacity r) - left) / max (br_refill r) (1 / 10 ^ 9)
        in List.filter (\<lambda>p. fst p \<noteq> br_key r) state
           @ [(br_key r, \<lparr>mb_tokens = left, mb_when = now, mb_full_at = full_at\<rparr>)])"

definition memory_forget :: "memory_buckets \<Rightarrow> memory_buckets" where
  "memory_forget st =
     (let takes = Suc (mem_takes st);
          kept = (if takes mod sweep_every = 0
                  then List.filter (\<lambda>p. \<not> mb_full_at (snd p) \<le> mem_clock st) (mem_state st)
                  else mem_state st)
      in st\<lparr>mem_takes := takes, mem_state := drop (length kept - max_tracked_buckets) kept\<rparr>)"

definition memory_take ::
  "bucket_request list \<Rightarrow> int \<Rightarrow> memory_buckets \<Rightarrow> bucket_decision \<times> memory_buckets" where
  "memory_take requests cost st =
     (if requests = [] then (allowed_decision, st)
      else
        (case foldl (memory_step (memory_level st) cost) ([], None, Some 0) requests of
           (available, refused, wait) \<Rightarrow>
             let allowed = (refused = None);
                 st' = memory_forget (st\<lparr>mem_state :=
                   foldl (memory_write (mem_clock st) allowed cost) (mem_state st) (zip requests available)\<rparr>)
             in (if allowed then allowed_decision
                 else \<lparr>bd_allowed = False, bd_retry_after = wait, bd_refused = refused\<rparr>, st')))"

section \<open>Falling back\<close>

text \<open>The shared buckets and the local ones; \<open>up\<close> says whether the shared store answers this call.\<close>

record fallback_buckets =
  fb_shared :: redis_buckets
  fb_local :: memory_buckets
  fb_degraded :: bool

definition fallback_take ::
  "bool \<Rightarrow> bucket_request list \<Rightarrow> int \<Rightarrow> fallback_buckets \<Rightarrow> bucket_decision \<times> fallback_buckets" where
  "fallback_take up requests cost st =
     (if up \<or> requests = []
      then (case redis_take requests cost (fb_shared st) of
              (d, shared) \<Rightarrow> (d, st\<lparr>fb_shared := shared, fb_degraded := False\<rparr>))
      else (case memory_take requests cost (fb_local st) of
              (d, local_buckets) \<Rightarrow> (d, st\<lparr>fb_local := local_buckets, fb_degraded := True\<rparr>)))"

section \<open>The service\<close>

definition limit_row :: "rate_limit_read \<Rightarrow> scoped_row" where
  "limit_row l = \<lparr>sr_scope = rl_scope l, sr_use_case = rl_use_case l, sr_subject = rl_subject l,
     sr_enabled = rl_enabled l\<rparr>"

definition one_slot :: "rate_limit_read \<Rightarrow> string" where
  "one_slot l = []"

definition applicable_limits ::
  "rate_limit_read list \<Rightarrow> use_case \<Rightarrow> string option \<Rightarrow> bucket_request list" where
  "applicable_limits records use_case subject =
     List.map_filter
       (\<lambda>l. map_option
          (\<lambda>s. per_minute (bucket_key s) (rl_limit_rpm l) (scope_label s) (Some (rl_burst l)))
          (scope_applying (rl_scope l) use_case subject (rl_subject l)))
       (binding limit_row one_slot subject
          (List.filter (\<lambda>l. rl_enabled l \<and> rl_limit_rpm l > 0) records))"

definition config_cache_seconds :: rat where
  "config_cache_seconds = 5"

record 'b limiter =
  lm_rows :: "rate_limit_read list"
  lm_cache :: "string \<Rightarrow> (rat \<times> rate_limit_read list) option"
  lm_buckets :: 'b

definition config :: "rat \<Rightarrow> use_case \<Rightarrow> 'b limiter \<Rightarrow> rate_limit_read list \<times> 'b limiter" where
  "config now use_case st =
     (let fresh = List.filter (\<lambda>l. rl_use_case l = use_case) (lm_rows st);
          reload = (fresh, st\<lparr>lm_cache := (lm_cache st)(use_case \<mapsto> (now + config_cache_seconds, fresh))\<rparr>)
      in case lm_cache st use_case of
           Some (good_until, records) \<Rightarrow> if now < good_until then (records, st) else reload
         | None \<Rightarrow> reload)"

definition invalidate :: "use_case option \<Rightarrow> 'b limiter \<Rightarrow> 'b limiter" where
  "invalidate use_case st =
     (case use_case of
        None \<Rightarrow> st\<lparr>lm_cache := Map.empty\<rparr>
      | Some u \<Rightarrow> st\<lparr>lm_cache := (lm_cache st)(u := None)\<rparr>)"

datatype rate_error =
    TooHeavyForTheLimit string
  | RateLimited (limited_message: string) (limited_retry_after: string) (limited_bucket: "string option")
  | EndlessWait

text \<open>
  \<open>check\<close>. \<open>take_from\<close> is the bucket the service was built with. The database answers: a query that
  fails raises before anything is taken.
\<close>

definition check_rate ::
  "bool \<Rightarrow> (bucket_request list \<Rightarrow> int \<Rightarrow> 'b \<Rightarrow> bucket_decision \<times> 'b) \<Rightarrow> rat \<Rightarrow> use_case option
     \<Rightarrow> string option \<Rightarrow> int \<Rightarrow> bucket_request list \<Rightarrow> 'b limiter \<Rightarrow> (rate_error + unit) \<times> 'b limiter" where
  "check_rate enforce take_from now use_case subject units extra st =
     (let (configured, st1) =
            (if truthy use_case \<and> enforce
             then (case config now (the use_case) st of
                     (records, st') \<Rightarrow> (applicable_limits records (the use_case) subject, st'))
             else ([], st));
          buckets = configured @ extra
      in if buckets = [] then (Inr (), st1)
         else case List.find (\<lambda>b. units > br_capacity b) buckets of
           Some b \<Rightarrow>
             (Inl (TooHeavyForTheLimit (''A request weighing '' @ show_int units @ '' cannot fit the ''
                @ show_int (br_capacity b) @ ''-request allowance of the '' @ br_label b
                @ ''. Send it in smaller batches, or raise the limit.'')), st1)
         | None \<Rightarrow>
             (case take_from buckets units (lm_buckets st1) of
                (d, bs) \<Rightarrow>
                  (if bd_allowed d then Inr ()
                   else (case retry_after_header d of
                           None \<Rightarrow> Inl EndlessWait
                         | Some retry \<Rightarrow>
                             Inl (RateLimited
                               (''Request rate limit exceeded for ''
                                @ (case bd_refused d of Some r \<Rightarrow> br_label r | None \<Rightarrow> ''use case'') @ ''.'')
                               retry (map_option br_key (bd_refused d)))),
                   st1\<lparr>lm_buckets := bs\<rparr>)))"

section \<open>What every bucket promises\<close>

text \<open>
  \<open>level\<close> is what a bucket holds for a request now; \<open>later\<close> lets time pass; \<open>fit\<close> says the store is
  in order for the terms of a bucket. \<open>trace\<close> is a history: a pause, then a request for some buckets at
  some weight; \<open>admitted\<close> adds up the weight let through.
\<close>

fun admitted ::
  "(bucket_request list \<Rightarrow> int \<Rightarrow> 's \<Rightarrow> bucket_decision \<times> 's) \<Rightarrow> (rat \<Rightarrow> 's \<Rightarrow> 's)
     \<Rightarrow> (rat \<times> bucket_request list \<times> int) list \<Rightarrow> 's \<Rightarrow> int" where
  "admitted take_from later [] st = 0"
| "admitted take_from later ((dt, requests, cost) # trace) st =
     (case take_from requests cost (later dt st) of
        (d, st') \<Rightarrow> (if bd_allowed d then cost else 0) + admitted take_from later trace st')"

definition trace_time :: "(rat \<times> bucket_request list \<times> int) list \<Rightarrow> rat" where
  "trace_time trace = sum_list (map fst trace)"

definition proper_trace :: "bucket_request \<Rightarrow> (rat \<times> bucket_request list \<times> int) list \<Rightarrow> bool" where
  "proper_trace r trace = (\<forall>(dt, requests, cost) \<in> set trace.
     0 \<le> dt \<and> 0 \<le> cost \<and> r \<in> set requests \<and> distinct (map br_key requests)
     \<and> length requests \<le> max_tracked_buckets \<and> (\<forall>q \<in> set requests. 0 < br_refill q))"

lemma proper_trace_Cons [simp]:
  "proper_trace r ((dt, requests, cost) # trace) \<longleftrightarrow>
     0 \<le> dt \<and> 0 \<le> cost \<and> r \<in> set requests \<and> distinct (map br_key requests)
     \<and> length requests \<le> max_tracked_buckets \<and> (\<forall>q \<in> set requests. 0 < br_refill q) \<and> proper_trace r trace"
  by (auto simp: proper_trace_def)

locale token_bucket =
  fixes take_from :: "bucket_request list \<Rightarrow> int \<Rightarrow> 's \<Rightarrow> bucket_decision \<times> 's"
    and later :: "rat \<Rightarrow> 's \<Rightarrow> 's"
    and level :: "'s \<Rightarrow> bucket_request \<Rightarrow> rat"
    and fit :: "bucket_request \<Rightarrow> 's \<Rightarrow> bool"
  assumes level_le: "level st r \<le> of_int (br_capacity r)"
    and fit_level: "fit r st \<Longrightarrow> 0 \<le> level st r"
    and refill_law: "0 \<le> dt \<Longrightarrow> 0 < br_refill r \<Longrightarrow> fit r st \<Longrightarrow>
      fit r (later dt st) \<and> level (later dt st) r \<le> level st r + dt * br_refill r"
    and take_law: "0 \<le> cost \<Longrightarrow> r \<in> set requests \<Longrightarrow> distinct (map br_key requests) \<Longrightarrow>
      length requests \<le> max_tracked_buckets \<Longrightarrow> \<forall>q \<in> set requests. 0 < br_refill q \<Longrightarrow> fit r st \<Longrightarrow>
      take_from requests cost st = (d, st') \<Longrightarrow>
      bd_allowed d = (\<forall>q \<in> set requests. of_int cost \<le> level st q) \<and>
      level st' r = level st r - (if bd_allowed d then of_int cost else 0) \<and> fit r st'"
begin

lemma refused_takes_nothing:
  assumes "0 \<le> cost" "r \<in> set requests" "distinct (map br_key requests)" "length requests \<le> max_tracked_buckets"
    and "\<forall>q \<in> set requests. 0 < br_refill q" "fit r st" "take_from requests cost st = (d, st')" "\<not> bd_allowed d"
  shows "level st' r = level st r"
  using take_law [OF assms(1-7)] assms(8) by simp

lemma admitted_within_refill:
  assumes "proper_trace r trace" "fit r st"
  shows "of_int (admitted take_from later trace st) \<le> level st r + trace_time trace * br_refill r"
  using assms
proof (induction trace arbitrary: st)
  case Nil
  then show ?case by (simp add: trace_time_def fit_level)
next
  case (Cons e trace)
  obtain dt requests cost where e: "e = (dt, requests, cost)" by (cases e)
  obtain d st' where t: "take_from requests cost (later dt st) = (d, st')" by fastforce
  from Cons.prems have p: "0 \<le> dt" "0 \<le> cost" "r \<in> set requests" "distinct (map br_key requests)"
    "length requests \<le> max_tracked_buckets" "\<forall>q \<in> set requests. 0 < br_refill q" "proper_trace r trace"
    by (simp_all add: e)
  have r: "0 < br_refill r" using p(3,6) by blast
  note fill = refill_law [OF p(1) r Cons.prems(2)]
  note law = take_law [OF p(2-6) conjunct1 [OF fill] t]
  from Cons.IH [OF p(7), of st'] law
  have "of_int (admitted take_from later trace st') \<le> level st' r + trace_time trace * br_refill r" by blast
  moreover have "level st' r = level (later dt st) r - of_int (if bd_allowed d then cost else 0)"
    using conjunct1 [OF conjunct2 [OF law]] by (cases "bd_allowed d") (simp_all only: if_True if_False of_int_0)
  ultimately have "of_int (if bd_allowed d then cost else 0) + of_int (admitted take_from later trace st')
      \<le> level st r + (dt * br_refill r + trace_time trace * br_refill r)"
    using conjunct2 [OF fill] by linarith
  moreover have "trace_time (e # trace) * br_refill r = dt * br_refill r + trace_time trace * br_refill r"
    by (simp add: e trace_time_def distrib_right)
  ultimately show ?case by (simp add: e t)
qed

lemma admitted_within_capacity:
  assumes "proper_trace r trace" "fit r st"
  shows "of_int (admitted take_from later trace st)
    \<le> of_int (br_capacity r) + trace_time trace * br_refill r"
  using admitted_within_refill [OF assms] level_le [of st r] by linarith

end

section \<open>The shared buckets keep the promise\<close>

definition redis_later :: "rat \<Rightarrow> redis_buckets \<Rightarrow> redis_buckets" where
  "redis_later dt st = st\<lparr>rk_clock := rk_clock st + dt\<rparr>"

definition redis_fit :: "bucket_request \<Rightarrow> redis_buckets \<Rightarrow> bool" where
  "redis_fit r st \<longleftrightarrow> 0 \<le> br_capacity r \<and> 0 < br_refill r \<and>
     (\<forall>b. rk_store st (br_key r) = Some b \<longrightarrow>
        0 \<le> rb_tokens b \<and> rb_ts b \<le> rk_clock st
        \<and> of_int (br_capacity r) \<le> (rb_expires b - rb_ts b) * br_refill r)"

lemma foldl_script_step:
  "\<exists>w' k'. foldl (script_step level cost) (ts, al, w, k) (List.enumerate i requests) =
     (ts @ map level requests, al \<and> (\<forall>q \<in> set requests. of_int cost \<le> level q), w', k')"
proof (induction requests arbitrary: ts al w k i)
  case (Cons r requests)
  show ?case
  proof (cases "level r < of_int cost")
    case True
    with Cons.IH [of "ts @ [level r]" False "max \<lceil>(of_int cost - level r) / br_refill r * 1000\<rceil> w"
          "if al then i else k" "Suc i"]
    show ?thesis by (auto simp: script_step_def Let_def)
  next
    case False
    with Cons.IH [of "ts @ [level r]" al w k "Suc i"] show ?thesis
      by (simp add: script_step_def Let_def not_less)
  qed
qed simp

lemma redis_take_shape:
  assumes "requests \<noteq> []"
  shows "\<exists>retry refused. redis_take requests cost st =
    (\<lparr>bd_allowed = (\<forall>q \<in> set requests. of_int cost \<le> redis_level st q), bd_retry_after = Some retry, bd_refused = refused\<rparr>,
     st\<lparr>rk_store := foldl (script_write (rk_clock st) (\<forall>q \<in> set requests. of_int cost \<le> redis_level st q) cost)
        (rk_store st) (zip requests (map (redis_level st) requests))\<rparr>)"
proof -
  obtain w k where "foldl (script_step (redis_level st) cost) ([], True, 0, 0) (List.enumerate 1 requests)
      = (map (redis_level st) requests, \<forall>q \<in> set requests. of_int cost \<le> redis_level st q, w, k)"
    using foldl_script_step [of "redis_level st" cost "[]" True 0 0 1 requests] by auto
  with assms show ?thesis
    by (intro exI [of _ "of_int w / 1000"] exI [of _ "if k = 0 then None else Some (requests ! (k - 1))"])
      (simp add: redis_take_def)
qed

lemma script_writes_other:
  "key \<notin> br_key ` set requests \<Longrightarrow>
   foldl (script_write now al cost) store (zip requests (map level requests)) key = store key"
  by (induction requests arbitrary: store) (simp_all add: script_write_def)

lemma script_writes_at:
  "distinct (map br_key requests) \<Longrightarrow> r \<in> set requests \<Longrightarrow>
   foldl (script_write now al cost) store (zip requests (map level requests)) (br_key r) =
     Some \<lparr>rb_tokens = (if al then level r - of_int cost else level r), rb_ts = now,
       rb_expires = now + of_int (max 60 (\<lceil>of_int (br_capacity r) / br_refill r\<rceil> + 1))\<rparr>"
  by (induction requests arbitrary: store) (auto simp: script_write_def script_writes_other)

lemma redis_level_le: "redis_level st r \<le> of_int (br_capacity r)"
  by (simp add: redis_level_def Let_def split: prod.split)

lemma redis_level_fit:
  assumes "redis_fit r st"
  shows "0 \<le> redis_level st r"
  using assms
  by (auto simp: redis_fit_def redis_level_def bucket_at_def Let_def split: option.splits
      intro!: add_nonneg_nonneg mult_nonneg_nonneg)

lemma redis_refill:
  assumes "0 \<le> dt" "0 < br_refill r" "redis_fit r st"
  shows "redis_fit r (redis_later dt st)
    \<and> redis_level (redis_later dt st) r \<le> redis_level st r + dt * br_refill r"
proof
  show "redis_fit r (redis_later dt st)" using assms by (force simp: redis_fit_def redis_later_def)
  have pos: "0 \<le> dt * br_refill r" using assms by simp
  show "redis_level (redis_later dt st) r \<le> redis_level st r + dt * br_refill r"
  proof (cases "rk_store st (br_key r)")
    case None
    with pos show ?thesis by (simp add: redis_level_def redis_later_def bucket_at_def)
  next
    case (Some b)
    with assms(3) have b: "0 \<le> rb_tokens b" "rb_ts b \<le> rk_clock st"
      "of_int (br_capacity r) \<le> (rb_expires b - rb_ts b) * br_refill r" by (simp_all add: redis_fit_def)
    let ?cap = "rat_of_int (br_capacity r)" and ?held = "rb_tokens b + (rk_clock st - rb_ts b) * br_refill r"
    have split: "(rk_clock st + dt - rb_ts b) * br_refill r = (rk_clock st - rb_ts b) * br_refill r + dt * br_refill r"
      by (simp add: algebra_simps)
    have now: "redis_level st r = (if rk_clock st < rb_expires b then min ?cap ?held else ?cap)"
      using Some b by (simp add: redis_level_def bucket_at_def Let_def)
    have then_: "redis_level (redis_later dt st) r =
        (if rk_clock st + dt < rb_expires b then min ?cap (?held + dt * br_refill r) else ?cap)"
      using Some b assms(1) split by (simp add: redis_level_def redis_later_def bucket_at_def Let_def add.assoc)
    have "(rb_expires b - rb_ts b) * br_refill r \<le> (rk_clock st + dt - rb_ts b) * br_refill r"
      if "\<not> rk_clock st + dt < rb_expires b"
      using that assms(2) by (intro mult_right_mono) auto
    then have late: "?cap \<le> ?held + dt * br_refill r" if "\<not> rk_clock st + dt < rb_expires b"
      using that b split by simp
    have "min ?cap (?held + dt * br_refill r) \<le> min ?cap ?held + dt * br_refill r"
      using pos by (auto simp: min_def)
    then show ?thesis using pos late assms(1) by (auto simp: now then_ min_def)
  qed
qed

lemma capacity_within_expiry:
  assumes "0 < (f :: rat)"
  shows "c \<le> of_int (max 60 (\<lceil>c / f\<rceil> + 1)) * f"
proof -
  have "c / f \<le> of_int \<lceil>c / f\<rceil>" by (rule le_of_int_ceiling)
  also have "\<dots> \<le> of_int (max 60 (\<lceil>c / f\<rceil> + 1))" by (simp only: of_int_le_iff)
  finally show ?thesis using assms by (simp add: pos_divide_le_eq)
qed

lemma redis_take_law:
  assumes "0 \<le> cost" "r \<in> set requests" "distinct (map br_key requests)"
    and "\<forall>q \<in> set requests. 0 < br_refill q" "redis_fit r st" "redis_take requests cost st = (d, st')"
  shows "bd_allowed d = (\<forall>q \<in> set requests. of_int cost \<le> redis_level st q) \<and>
    redis_level st' r = redis_level st r - (if bd_allowed d then of_int cost else 0) \<and> redis_fit r st'"
proof -
  have ne: "requests \<noteq> []" using assms(2) by auto
  let ?al = "\<forall>q \<in> set requests. of_int cost \<le> redis_level st q"
  from redis_take_shape [OF ne, of cost st] assms(6)
  have d: "bd_allowed d = ?al" and st': "st' = st\<lparr>rk_store := foldl (script_write (rk_clock st) ?al cost)
      (rk_store st) (zip requests (map (redis_level st) requests))\<rparr>" by auto
  let ?b = "\<lparr>rb_tokens = (if ?al then redis_level st r - of_int cost else redis_level st r), rb_ts = rk_clock st,
    rb_expires = rk_clock st + of_int (max 60 (\<lceil>of_int (br_capacity r) / br_refill r\<rceil> + 1))\<rparr>"
  have at: "rk_store st' (br_key r) = Some ?b" using st' script_writes_at [OF assms(3,2)] by simp
  have clock: "rk_clock st' = rk_clock st" using st' by simp
  have cap: "redis_level st r \<le> of_int (br_capacity r)" by (rule redis_level_le)
  have alive: "rk_clock st < rb_expires ?b" by simp
  have f: "0 < br_refill r" using assms(2,4) by blast
  have "redis_level st' r = min (of_int (br_capacity r)) (rb_tokens ?b)"
    using at alive clock by (simp add: redis_level_def bucket_at_def)
  also have "\<dots> = rb_tokens ?b" using cap assms(1) by (simp add: min_def)
  finally have lev: "redis_level st' r = redis_level st r - (if ?al then of_int cost else 0)" by simp
  have "redis_fit r st'"
    using at clock assms(2,5) redis_level_fit [OF assms(5)] capacity_within_expiry [OF f, of "of_int (br_capacity r)"]
    by (auto simp: redis_fit_def)
  with d lev show ?thesis by simp
qed

interpretation shared: token_bucket redis_take redis_later redis_level redis_fit
proof
  show "redis_level st r \<le> of_int (br_capacity r)" for st r by (rule redis_level_le)
  show "0 \<le> redis_level st r" if "redis_fit r st" for st r using that by (rule redis_level_fit)
  show "redis_fit r (redis_later dt st) \<and> redis_level (redis_later dt st) r \<le> redis_level st r + dt * br_refill r"
    if "0 \<le> dt" "0 < br_refill r" "redis_fit r st" for dt r st using that by (rule redis_refill)
  show "bd_allowed d = (\<forall>q \<in> set requests. of_int cost \<le> redis_level st q) \<and>
      redis_level st' r = redis_level st r - (if bd_allowed d then of_int cost else 0) \<and> redis_fit r st'"
    if "0 \<le> cost" "r \<in> set requests" "distinct (map br_key requests)"
      "length requests \<le> max_tracked_buckets" "\<forall>q \<in> set requests. 0 < br_refill q" "redis_fit r st"
      "redis_take requests cost st = (d, st')" for cost r requests st d st'
    using that(1-3,5-7) by (rule redis_take_law)
qed

section \<open>The per-process buckets keep it too\<close>

definition memory_later :: "rat \<Rightarrow> memory_buckets \<Rightarrow> memory_buckets" where
  "memory_later dt st = st\<lparr>mem_clock := mem_clock st + dt\<rparr>"

definition memory_fit :: "bucket_request \<Rightarrow> memory_buckets \<Rightarrow> bool" where
  "memory_fit r st \<longleftrightarrow> 0 \<le> br_capacity r \<and> 0 < br_refill r \<and>
     (\<forall>b. map_of (mem_state st) (br_key r) = Some b \<longrightarrow> 0 \<le> mb_tokens b \<and> mb_when b \<le> mem_clock st)"

definition memory_entry :: "rat \<Rightarrow> bool \<Rightarrow> int \<Rightarrow> bucket_request \<Rightarrow> rat \<Rightarrow> memory_bucket" where
  "memory_entry now allowed cost r tokens =
     (let left = (if allowed then tokens - of_int cost else tokens)
      in \<lparr>mb_tokens = left, mb_when = now,
          mb_full_at = now + max 0 (of_int (br_capacity r) - left) / max (br_refill r) (1 / 10 ^ 9)\<rparr>)"

lemma memory_level_le: "memory_level st r \<le> of_int (br_capacity r)"
  by (simp add: memory_level_def Let_def split: prod.split)

lemma memory_level_fit:
  assumes "memory_fit r st"
  shows "0 \<le> memory_level st r"
  using assms
  by (auto simp: memory_fit_def memory_level_def Let_def split: option.splits
      intro!: add_nonneg_nonneg mult_nonneg_nonneg)

lemma memory_refill:
  assumes "0 \<le> dt" "0 < br_refill r" "memory_fit r st"
  shows "memory_fit r (memory_later dt st)
    \<and> memory_level (memory_later dt st) r \<le> memory_level st r + dt * br_refill r"
proof
  show "memory_fit r (memory_later dt st)" using assms by (force simp: memory_fit_def memory_later_def)
  have pos: "0 \<le> dt * br_refill r" using assms by simp
  show "memory_level (memory_later dt st) r \<le> memory_level st r + dt * br_refill r"
  proof (cases "map_of (mem_state st) (br_key r)")
    case None
    with pos show ?thesis by (simp add: memory_level_def memory_later_def)
  next
    case (Some b)
    with assms(3) have b: "mb_when b \<le> mem_clock st" by (simp add: memory_fit_def)
    let ?cap = "rat_of_int (br_capacity r)" and ?held = "mb_tokens b + (mem_clock st - mb_when b) * br_refill r"
    have "memory_level st r = min ?cap ?held"
      using Some b by (simp add: memory_level_def max_def)
    moreover have "memory_level (memory_later dt st) r = min ?cap (?held + dt * br_refill r)"
      using Some b assms(1) by (simp add: memory_level_def memory_later_def max_def algebra_simps)
    moreover have "min ?cap (?held + dt * br_refill r) \<le> min ?cap ?held + dt * br_refill r"
      using pos by (auto simp: min_def)
    ultimately show ?thesis by simp
  qed
qed

lemma foldl_memory_step:
  "\<exists>w'. foldl (memory_step level cost) (ts, refused, w) requests =
     (ts @ map level requests,
      (case refused of Some q \<Rightarrow> Some q | None \<Rightarrow> List.find (\<lambda>q. level q < of_int cost) requests), w')"
proof (induction requests arbitrary: ts refused w)
  case (Cons r requests)
  show ?case
  proof (cases "level r < of_int cost")
    case True
    then show ?thesis
      using Cons.IH [of "ts @ [level r]" "case refused of None \<Rightarrow> Some r | Some q \<Rightarrow> Some q"
          "max_wait w (if br_refill r > 0 then Some ((of_int cost - level r) / br_refill r) else None)"]
      by (auto simp: memory_step_def Let_def split: option.splits)
  next
    case False
    with Cons.IH [of "ts @ [level r]" refused w] show ?thesis
      by (auto simp: memory_step_def Let_def split: option.splits)
  qed
qed (simp split: option.split)

lemma memory_write_shape:
  "memory_write now al cost state (r, tokens) =
     List.filter (\<lambda>p. fst p \<noteq> br_key r) state @ [(br_key r, memory_entry now al cost r tokens)]"
  by (simp add: memory_write_def memory_entry_def Let_def)

lemma memory_writes_shape:
  assumes "distinct (map br_key requests)"
  shows "foldl (memory_write now al cost) state (zip requests (map level requests)) =
    List.filter (\<lambda>p. fst p \<notin> br_key ` set requests) state
      @ map (\<lambda>r. (br_key r, memory_entry now al cost r (level r))) requests"
  using assms
proof (induction requests arbitrary: state)
  case (Cons r requests)
  have "List.filter (\<lambda>p. fst p \<notin> br_key ` set requests)
      (List.filter (\<lambda>p. fst p \<noteq> br_key r) state @ [(br_key r, memory_entry now al cost r (level r))])
    = List.filter (\<lambda>p. fst p \<notin> br_key ` set (r # requests)) state
      @ [(br_key r, memory_entry now al cost r (level r))]"
    using Cons.prems by (auto simp: conj_commute intro!: filter_cong)
  with Cons show ?case by (simp add: memory_write_shape)
qed simp

lemma find_None_all: "(List.find P xs = None) = (\<forall>x \<in> set xs. \<not> P x)"
  by (auto simp: find_None_iff)

lemma map_of_suffix: "k \<notin> fst ` set xs \<Longrightarrow> map_of (xs @ ys) k = map_of ys k"
  using map_of_eq_None_iff [of xs k] by (simp add: map_add_def split: option.split)

lemma drop_front: "length ys \<le> m \<Longrightarrow> drop (length (xs @ ys) - m) (xs @ ys) = drop (length xs + length ys - m) xs @ ys"
  by simp

lemma map_of_entries:
  "distinct (map br_key requests) \<Longrightarrow> r \<in> set requests \<Longrightarrow>
   map_of (List.filter (\<lambda>p. Q (snd p)) (map (\<lambda>r. (br_key r, f r)) requests)) (br_key r)
     = (if Q (f r) then Some (f r) else None)"
proof (induction requests)
  case (Cons q requests)
  show ?case
  proof (cases "r = q")
    case True
    with Cons.prems have "br_key r \<notin> fst ` set (List.filter (\<lambda>p. Q (snd p)) (map (\<lambda>r. (br_key r, f r)) requests))"
      by (auto simp: image_iff)
    then have "map_of (List.filter (\<lambda>p. Q (snd p)) (map (\<lambda>r. (br_key r, f r)) requests)) (br_key r) = None"
      by (rule iffD2 [OF map_of_eq_None_iff])
    with True show ?thesis by simp
  next
    case False
    with Cons.prems have "br_key r \<noteq> br_key q" by (auto simp: image_iff)
    with False Cons show ?thesis by simp
  qed
qed simp

lemma memory_take_at:
  assumes "0 \<le> cost" "r \<in> set requests" "distinct (map br_key requests)"
    and "length requests \<le> max_tracked_buckets" "memory_take requests cost st = (d, st')"
  defines "al \<equiv> \<forall>q \<in> set requests. of_int cost \<le> memory_level st q"
  defines "e \<equiv> memory_entry (mem_clock st) al cost r (memory_level st r)"
  shows "bd_allowed d = al \<and> mem_clock st' = mem_clock st \<and>
    (map_of (mem_state st') (br_key r) = Some e
     \<or> map_of (mem_state st') (br_key r) = None \<and> mb_full_at e \<le> mem_clock st)"
proof -
  have ne: "requests \<noteq> []" using assms(2) by auto
  obtain w refused where f: "foldl (memory_step (memory_level st) cost) ([], None, Some 0) requests
      = (map (memory_level st) requests, refused, w)"
    and refused: "refused = List.find (\<lambda>q. memory_level st q < of_int cost) requests"
    using foldl_memory_step [of "memory_level st" cost "[]" None "Some 0" requests] by auto
  have al: "(refused = None) = al"
    unfolding refused al_def find_None_all by (simp add: not_less)
  let ?entries = "map (\<lambda>r. (br_key r, memory_entry (mem_clock st) al cost r (memory_level st r))) requests"
  let ?old = "List.filter (\<lambda>p. fst p \<notin> br_key ` set requests) (mem_state st)"
  let ?w = "st\<lparr>mem_state := ?old @ ?entries\<rparr>"
  have st': "st' = memory_forget ?w" and d: "bd_allowed d = al"
    using assms(5) ne f al memory_writes_shape [OF assms(3)]
    by (auto simp: memory_take_def Let_def allowed_decision_def split: if_splits)
  have out: "br_key r \<notin> fst ` set (drop k (List.filter P ?old))" for k P
    using assms(2) by (auto dest!: in_set_dropD)
  have len: "length (List.filter P ?entries) \<le> max_tracked_buckets" for P :: "string \<times> memory_bucket \<Rightarrow> bool"
    using assms(4) length_filter_le [of P ?entries] unfolding length_map by linarith
  define P where "P = (\<lambda>p :: string \<times> memory_bucket.
    Suc (mem_takes st) mod sweep_every = 0 \<longrightarrow> \<not> mb_full_at (snd p) \<le> mem_clock st)"
  have "mem_state st' = drop (length (List.filter P (?old @ ?entries)) - max_tracked_buckets)
      (List.filter P (?old @ ?entries))"
    by (simp add: st' memory_forget_def Let_def P_def)
  also have "\<dots> = drop (length (List.filter P ?old) + length (List.filter P ?entries) - max_tracked_buckets)
      (List.filter P ?old) @ List.filter P ?entries"
    unfolding filter_append by (rule drop_front [OF len])
  finally have shape: "mem_state st' = drop (length (List.filter P ?old) + length (List.filter P ?entries)
      - max_tracked_buckets) (List.filter P ?old) @ List.filter P ?entries" .
  have state: "map_of (mem_state st') (br_key r) = map_of (List.filter P ?entries) (br_key r)"
    unfolding shape by (rule map_of_suffix [OF out])
  have "P = (\<lambda>p. (Suc (mem_takes st) mod sweep_every = 0 \<longrightarrow> \<not> mb_full_at (snd p) \<le> mem_clock st))"
    by (simp add: P_def)
  then have "map_of (List.filter P ?entries) (br_key r) =
      (if Suc (mem_takes st) mod sweep_every = 0 \<longrightarrow> \<not> mb_full_at e \<le> mem_clock st then Some e else None)"
    using map_of_entries [OF assms(3,2), of
        "\<lambda>b. Suc (mem_takes st) mod sweep_every = 0 \<longrightarrow> \<not> mb_full_at b \<le> mem_clock st"
        "\<lambda>r. memory_entry (mem_clock st) al cost r (memory_level st r)"]
    by (simp add: e_def)
  then show ?thesis using state d by (auto simp: st' memory_forget_def Let_def split: if_splits)
qed

lemma memory_take_law:
  assumes "0 \<le> cost" "r \<in> set requests" "distinct (map br_key requests)"
    and "length requests \<le> max_tracked_buckets" "memory_fit r st" "memory_take requests cost st = (d, st')"
  shows "bd_allowed d = (\<forall>q \<in> set requests. of_int cost \<le> memory_level st q) \<and>
    memory_level st' r = memory_level st r - (if bd_allowed d then of_int cost else 0) \<and> memory_fit r st'"
proof -
  define al where "al = (\<forall>q \<in> set requests. of_int cost \<le> memory_level st q)"
  define e where "e = memory_entry (mem_clock st) al cost r (memory_level st r)"
  let ?cap = "rat_of_int (br_capacity r)"
  define left where "left = (if al then memory_level st r - of_int cost else memory_level st r)"
  have e: "mb_tokens e = left" "mb_when e = mem_clock st"
    "mb_full_at e = mem_clock st + max 0 (?cap - left) / max (br_refill r) (1 / 10 ^ 9)"
    by (simp_all add: e_def memory_entry_def Let_def left_def)
  note at = memory_take_at [OF assms(1-4,6), folded al_def, folded e_def]
  have left: "left \<le> ?cap" "0 \<le> left"
    using memory_level_le [of st r] memory_level_fit [OF assms(5)] assms(1,2)
    by (auto simp: left_def al_def)
  have full: "left = ?cap" if "mb_full_at e \<le> mem_clock st"
  proof -
    have "0 < max (br_refill r) (1 / 10 ^ 9)" by (simp add: less_max_iff_disj)
    with that have "max 0 (?cap - left) \<le> 0" by (simp add: e(3) divide_le_0_iff)
    with left show ?thesis by simp
  qed
  from at consider (kept) "map_of (mem_state st') (br_key r) = Some e"
    | (swept) "map_of (mem_state st') (br_key r) = None" "left = ?cap" using full by auto
  then have "memory_level st' r = left \<and> memory_fit r st'"
  proof cases
    case kept
    then have "memory_level st' r = min ?cap left" using at by (simp add: memory_level_def e)
    with kept at left assms(5) show ?thesis by (simp add: memory_fit_def e)
  next
    case swept
    with assms(5) show ?thesis by (simp add: memory_level_def memory_fit_def)
  qed
  with at show ?thesis unfolding left_def by (simp add: al_def)
qed

interpretation per_process: token_bucket memory_take memory_later memory_level memory_fit
proof
  show "memory_level st r \<le> of_int (br_capacity r)" for st r by (rule memory_level_le)
  show "0 \<le> memory_level st r" if "memory_fit r st" for st r using that by (rule memory_level_fit)
  show "memory_fit r (memory_later dt st) \<and> memory_level (memory_later dt st) r \<le> memory_level st r + dt * br_refill r"
    if "0 \<le> dt" "0 < br_refill r" "memory_fit r st" for dt r st using that by (rule memory_refill)
  show "bd_allowed d = (\<forall>q \<in> set requests. of_int cost \<le> memory_level st q) \<and>
      memory_level st' r = memory_level st r - (if bd_allowed d then of_int cost else 0) \<and> memory_fit r st'"
    if "0 \<le> cost" "r \<in> set requests" "distinct (map br_key requests)"
      "length requests \<le> max_tracked_buckets" "\<forall>q \<in> set requests. 0 < br_refill q" "memory_fit r st"
      "memory_take requests cost st = (d, st')" for cost r requests st d st'
    using that(1-4,6,7) by (rule memory_take_law)
qed

section \<open>Refusals\<close>

definition first_refusing :: "(bucket_request \<Rightarrow> rat) \<Rightarrow> int \<Rightarrow> bucket_request list \<Rightarrow> bucket_request option" where
  "first_refusing level cost requests = List.find (\<lambda>q. level q < of_int cost) requests"

lemma memory_refused:
  assumes "requests \<noteq> []"
  shows "bd_refused (fst (memory_take requests cost st)) = first_refusing (memory_level st) cost requests"
proof -
  obtain w where "foldl (memory_step (memory_level st) cost) ([], None, Some 0) requests
      = (map (memory_level st) requests, first_refusing (memory_level st) cost requests, w)"
    using foldl_memory_step [of "memory_level st" cost "[]" None "Some 0" requests]
    by (auto simp: first_refusing_def)
  with assms show ?thesis by (simp add: memory_take_def Let_def allowed_decision_def)
qed

lemma script_refused_index:
  "snd (snd (snd (foldl (script_step level cost) (ts, al, w, k) (List.enumerate i requests)))) =
     (if al then (case first_refusing level cost requests of None \<Rightarrow> k
        | Some _ \<Rightarrow> i + length (takeWhile (\<lambda>q. \<not> level q < of_int cost) requests)) else k)"
proof (induction requests arbitrary: ts al w k i)
  case Nil
  then show ?case by (simp add: first_refusing_def)
next
  case (Cons r requests)
  show ?case
  proof (cases "level r < of_int cost")
    case True
    then show ?thesis
      using Cons.IH [of "ts @ [level r]" False "max \<lceil>(of_int cost - level r) / br_refill r * 1000\<rceil> w"
          "if al then i else k" "Suc i"]
      by (simp add: script_step_def Let_def first_refusing_def)
  next
    case False
    then show ?thesis using Cons.IH [of "ts @ [level r]" al w k "Suc i"]
      by (auto simp: script_step_def Let_def first_refusing_def split: option.split)
  qed
qed

lemma find_nth_takeWhile:
  "List.find P xs = Some x \<Longrightarrow> xs ! length (takeWhile (\<lambda>y. \<not> P y) xs) = x"
  by (induction xs) (auto split: if_splits)

lemma redis_refused:
  assumes "requests \<noteq> []"
  shows "bd_refused (fst (redis_take requests cost st)) = first_refusing (redis_level st) cost requests"
proof -
  obtain ts al w k where f: "foldl (script_step (redis_level st) cost) ([], True, 0, 0) (List.enumerate 1 requests)
      = (ts, al, w, k)" by (metis prod_cases4)
  with script_refused_index [of "redis_level st" cost "[]" True 0 0 1 requests]
  have "k = (case first_refusing (redis_level st) cost requests of None \<Rightarrow> 0
      | Some _ \<Rightarrow> 1 + length (takeWhile (\<lambda>q. \<not> redis_level st q < of_int cost) requests))" by simp
  with f assms show ?thesis
    by (auto simp: redis_take_def first_refusing_def dest: find_nth_takeWhile split: option.splits)
qed

text \<open>The script's wait covers every refusing bucket's.\<close>

lemma script_wait:
  assumes "foldl (script_step level cost) (ts, al, w, k) (List.enumerate i requests) = (ts', al', w', k')"
  shows "w \<le> w' \<and> (\<forall>q \<in> set requests. level q < of_int cost \<longrightarrow>
    (of_int cost - level q) / br_refill q * 1000 \<le> of_int w')"
  using assms
proof (induction requests arbitrary: ts al w k i)
  case (Cons r requests)
  show ?case
  proof (cases "level r < of_int cost")
    case True
    let ?x = "(of_int cost - level r) / br_refill r * 1000"
    from True Cons.prems Cons.IH [of "ts @ [level r]" False "max \<lceil>?x\<rceil> w" "if al then i else k" "Suc i"]
    have IH: "max \<lceil>?x\<rceil> w \<le> w' \<and> (\<forall>q \<in> set requests. level q < of_int cost \<longrightarrow>
        (of_int cost - level q) / br_refill q * 1000 \<le> of_int w')"
      by (simp add: script_step_def Let_def)
    then have "\<lceil>?x\<rceil> \<le> w'" by simp
    then have "?x \<le> of_int w'" by (simp add: ceiling_le_iff)
    with IH show ?thesis by auto
  next
    case False
    with Cons.prems Cons.IH [of "ts @ [level r]" al w k "Suc i"] show ?thesis
      by (simp add: script_step_def Let_def)
  qed
qed simp

lemma redis_level_later:
  assumes "redis_fit r st" "0 \<le> dt"
  shows "min (of_int (br_capacity r)) (redis_level st r + dt * br_refill r) \<le> redis_level (redis_later dt st) r"
proof (cases "rk_store st (br_key r)")
  case None
  then show ?thesis by (simp add: redis_level_def redis_later_def bucket_at_def)
next
  case (Some b)
  with assms(1) have b: "0 \<le> rb_tokens b" "rb_ts b \<le> rk_clock st" "0 < br_refill r" by (simp_all add: redis_fit_def)
  let ?cap = "rat_of_int (br_capacity r)" and ?held = "rb_tokens b + (rk_clock st - rb_ts b) * br_refill r"
  have pos: "0 \<le> dt * br_refill r" using assms(2) b(3) by simp
  have now: "redis_level st r = (if rk_clock st < rb_expires b then min ?cap ?held else ?cap)"
    using Some b by (simp add: redis_level_def bucket_at_def Let_def)
  have "redis_level (redis_later dt st) r =
      (if rk_clock st + dt < rb_expires b then min ?cap (?held + dt * br_refill r) else ?cap)"
    using Some b assms(2) by (simp add: redis_level_def redis_later_def bucket_at_def Let_def algebra_simps)
  then show ?thesis using now assms(2) pos by (auto simp: min_def)
qed

section \<open>One bucket per person\<close>

definition limit_counter :: "string option \<Rightarrow> rate_limit_read \<Rightarrow> string" where
  "limit_counter caller l =
     (case scope_applying (rl_scope l) (rl_use_case l) caller (rl_subject l) of
        Some s \<Rightarrow> bucket_key s | None \<Rightarrow> [])"

interpretation limit_rows: scoped_rows limit_row one_slot limit_counter "\<lambda>_. True"
  by unfold_locales (simp add: one_slot_def)

lemma personal_counter:
  assumes "per_person (rl_scope l)" "applies caller (limit_row l)"
  shows "limit_counter caller l = ''rl:{'' @ rl_use_case l @ ''}'' @ '':member:'' @ the caller"
  using assms
  by (cases caller) (auto simp: per_person_def applies_def limit_row_def limit_counter_def scope_applying_def
      bucket_key_def split: if_splits)

section \<open>Properties\<close>


definition empty_redis :: redis_buckets where
  "empty_redis = \<lparr>rk_clock = 0, rk_store = Map.empty\<rparr>"

definition empty_memory :: memory_buckets where
  "empty_memory = \<lparr>mem_clock = 0, mem_state = [], mem_takes = 0\<rparr>"


text \<open>
  C30: A request takes from every bucket it must pass or from none of them: it is admitted exactly
  when each holds its weight; admitted, each is short by that weight; refused, each holds what it held.
\<close>

theorem buckets_are_all_or_nothing:
  assumes "0 \<le> cost" and "distinct (map br_key requests)" and "length requests \<le> max_tracked_buckets"
    and "\<forall>q \<in> set requests. 0 < br_refill q" and "r \<in> set requests"
    and "redis_fit r st" and "redis_take requests cost st = (d, st1)"
    and "memory_fit r st'" and "memory_take requests cost st' = (d', st1')"
  shows "bd_allowed d = (\<forall>q \<in> set requests. of_int cost \<le> redis_level st q)
    \<and> redis_level st1 r = redis_level st r - (if bd_allowed d then of_int cost else 0)
    \<and> bd_allowed d' = (\<forall>q \<in> set requests. of_int cost \<le> memory_level st' q)
    \<and> memory_level st1' r = memory_level st' r - (if bd_allowed d' then of_int cost else 0)"
  using shared.take_law [OF assms(1,5,2,3,4,6,7)] per_process.take_law [OF assms(1,5,2,3,4,8,9)] by blast

theorem buckets_are_all_or_nothing_witness:
  "let a = per_minute ''a'' 60 ''use case'' None; b = per_minute ''b'' 60 ''member'' (Some 2) in
   redis_level (snd (redis_take [a, b] 3 empty_redis)) a = 60"
proof -
  let ?a = "per_minute ''a'' 60 ''use case'' None" and ?b = "per_minute ''b'' 60 ''member'' (Some 2)"
  obtain d st where t: "redis_take [?a, ?b] 3 empty_redis = (d, st)" by fastforce
  obtain d' st' where m: "memory_take [?a, ?b] 3 empty_memory = (d', st')" by fastforce
  have "redis_fit ?a empty_redis" "memory_fit ?a empty_memory"
    by (simp_all add: redis_fit_def memory_fit_def empty_redis_def empty_memory_def per_minute_def
        minimum_rpm_def Let_def)
  with buckets_are_all_or_nothing [OF _ _ _ _ _ _ t _ m, of ?a]
  have "bd_allowed d = (\<forall>q \<in> {?a, ?b}. 3 \<le> redis_level empty_redis q)
      \<and> redis_level st ?a = redis_level empty_redis ?a - (if bd_allowed d then 3 else 0)"
    by (simp add: per_minute_def minimum_rpm_def max_tracked_buckets_def Let_def)
  moreover have "redis_level empty_redis ?a = 60" "redis_level empty_redis ?b = 2"
    by (simp_all add: redis_level_def empty_redis_def bucket_at_def per_minute_def minimum_rpm_def Let_def)
  ultimately show ?thesis by (simp add: t Let_def)
qed

text \<open>
  The two implementations decide alike: on the same levels the script and the per-process
  buckets admit the same requests and blame the same bucket, the first that refuses.
\<close>

theorem both_buckets_decide_alike:
  assumes "requests \<noteq> []" and "0 \<le> cost" and "distinct (map br_key requests)"
    and "length requests \<le> max_tracked_buckets"
    and "\<forall>q \<in> set requests. redis_level st q = memory_level st' q"
  shows "bd_allowed (fst (redis_take requests cost st)) = bd_allowed (fst (memory_take requests cost st'))
    \<and> bd_refused (fst (redis_take requests cost st)) = bd_refused (fst (memory_take requests cost st'))"
proof -
  obtain r where r: "r \<in> set requests" using assms(1) by (cases requests) auto
  obtain d' s' where m: "memory_take requests cost st' = (d', s')" by fastforce
  have "bd_allowed d' = (\<forall>q \<in> set requests. of_int cost \<le> memory_level st' q)"
    using memory_take_at [OF assms(2) r assms(3,4) m] by blast
  moreover have "bd_allowed (fst (redis_take requests cost st)) = (\<forall>q \<in> set requests. of_int cost \<le> redis_level st q)"
    using redis_take_shape [OF assms(1), of cost st] by auto
  moreover have "first_refusing (redis_level st) cost requests = first_refusing (memory_level st') cost requests"
    unfolding first_refusing_def using assms(5) by (induction requests) auto
  ultimately show ?thesis
    using assms(5) redis_refused [OF assms(1), of cost st] memory_refused [OF assms(1), of cost st'] m by auto
qed

theorem both_buckets_decide_alike_witness:
  "let a = per_minute ''a'' 60 ''use case'' None; b = per_minute ''b'' 60 ''member'' (Some 2) in
   bd_refused (fst (memory_take [a, b] 3 empty_memory)) = bd_refused (fst (redis_take [a, b] 3 empty_redis))"
  using both_buckets_decide_alike [of "[per_minute ''a'' 60 ''use case'' None, per_minute ''b'' 60 ''member'' (Some 2)]"
      3 empty_redis empty_memory]
  by (simp add: Let_def per_minute_def minimum_rpm_def max_tracked_buckets_def redis_level_def memory_level_def
      empty_redis_def empty_memory_def bucket_at_def)



end
