(* ===== verification/Audit_Trail.thy ===== *)
theory Audit_Trail
  imports Money
begin

text \<open>
  The audit trail (\<open>gateway/src/aira_gateway/audit.py\<close>): the closed vocabulary of outcomes, what a
  request's handling collects as it goes, and the reductions that decide what of it may be stored.
  A decision of a pipeline step is a dictionary, here the list of its entries.
\<close>

section \<open>Outcomes\<close>

datatype outcome =
    Served
  | OutRateLimited
  | OutBudgetExceeded
  | BlockedByPipeline
  | ModelNotFound
  | InvalidRequest
  | UpstreamFailed
  | InternalFailed
  | NoCapableModel
  | RequestTooLarge
  | ClientGone
  | OutSuspended
  | Diagnostic

fun outcome_value :: "outcome \<Rightarrow> string" where
  "outcome_value Served = ''served''"
| "outcome_value OutRateLimited = ''rate_limited''"
| "outcome_value OutBudgetExceeded = ''budget_exceeded''"
| "outcome_value BlockedByPipeline = ''blocked_by_pipeline''"
| "outcome_value ModelNotFound = ''model_not_found''"
| "outcome_value InvalidRequest = ''invalid_request''"
| "outcome_value UpstreamFailed = ''upstream_error''"
| "outcome_value InternalFailed = ''internal_error''"
| "outcome_value NoCapableModel = ''no_capable_model''"
| "outcome_value RequestTooLarge = ''request_too_large''"
| "outcome_value ClientGone = ''client_gone''"
| "outcome_value OutSuspended = ''suspended''"
| "outcome_value Diagnostic = ''diagnostic''"

definition not_traffic :: "string list" where
  "not_traffic = [outcome_value Diagnostic]"

definition outcome_failures :: "string list" where
  "outcome_failures = [outcome_value UpstreamFailed, outcome_value InternalFailed]"

definition pipeline_operation_prefix :: string where
  "pipeline_operation_prefix = ''pipeline:''"

section \<open>The trail\<close>

type_synonym decision = "(string \<times> json) list"

record model_call =
  mc_step :: string
  mc_model :: string
  mc_usage :: canonical_usage

record audit_trail =
  at_operation :: string
  at_api :: string
  at_requested_model :: string
  at_model :: "string option"
  at_selection :: string
  at_decisions :: "decision list"
  at_body :: "json option"
  at_tools_declared :: int
  at_tool_calls :: "string list"
  at_model_calls :: "model_call list"
  at_served_region :: string

definition selection_direct :: string where "selection_direct = ''direct''"
definition selection_route :: string where "selection_route = ''route''"

definition fallback_selection :: "nat \<Rightarrow> string" where
  "fallback_selection index =
     (if index = 0 then selection_direct else ''fallback:'' @ show_nat index)"

definition served_model :: "audit_trail \<Rightarrow> string" where
  "served_model trail = (if truthy (at_model trail) then the (at_model trail) else at_requested_model trail)"

definition routed_to :: "string \<Rightarrow> audit_trail \<Rightarrow> audit_trail" where
  "routed_to model trail =
     (if model \<noteq> at_requested_model trail then trail\<lparr>at_selection := selection_route\<rparr> else trail)
       \<lparr>at_model := Some model\<rparr>"

definition passed_over_entry :: "string \<Rightarrow> string \<times> string \<Rightarrow> decision" where
  "passed_over_entry action entry =
     [(''step'', JStr ''dispatch''), (''action'', JStr action),
      (''to'', JStr (fst entry)), (''why'', JStr (snd entry))]"

definition passed_over ::
  "(string \<times> string) list \<Rightarrow> (string \<times> string) list \<Rightarrow> audit_trail \<Rightarrow> audit_trail" where
  \<comment> \<open>each entry a model and the reason it was moved past\<close>
  "passed_over skipped failed trail =
     trail\<lparr>at_decisions := at_decisions trail
       @ map (passed_over_entry ''skipped'') skipped @ map (passed_over_entry ''failed'') failed\<rparr>"

definition served_by :: "string \<Rightarrow> nat \<Rightarrow> audit_trail \<Rightarrow> audit_trail" where
  "served_by model candidate_index trail =
     (let trail' = trail\<lparr>at_model := Some model\<rparr> in
      if candidate_index > 0 then trail'\<lparr>at_selection := fallback_selection candidate_index\<rparr>
      else trail')"

section \<open>What may be stored\<close>

definition safe_decision_keys :: "string list" where
  "safe_decision_keys = [''step'', ''action'', ''flagged'', ''category'', ''from'', ''to'', ''why'',
     ''texts'', ''changed'']"

definition applied_actions :: "string list" where
  "applied_actions = [''redacted'', ''unchanged'', ''passed'']"

definition redaction_failed :: "decision list \<Rightarrow> bool" where
  \<comment> \<open>\<open>str\<close> of anything but one of these three strings is none of them\<close>
  "redaction_failed decisions =
     list_ex (\<lambda>d. json_get d ''step'' = Some (JStr ''pii_filter'')
       \<and> \<not> (case json_get d ''action'' of Some (JStr a) \<Rightarrow> a \<in> set applied_actions | _ \<Rightarrow> False)) decisions"

definition decision_summary :: "decision list \<Rightarrow> decision list option" where
  "decision_summary decisions =
     (let kept = map (List.filter (\<lambda>e. fst e \<in> set safe_decision_keys)) decisions;
          entries = List.filter (\<lambda>d. d \<noteq> []) kept
      in if entries = [] then None else Some entries)"

definition tool_summary :: "audit_trail \<Rightarrow> decision option" where
  "tool_summary trail =
     (if at_tools_declared trail = 0 \<and> at_tool_calls trail = [] then None
      else Some [(''declared'', JInt (at_tools_declared trail)),
                 (''called'', JList (map JStr (at_tool_calls trail)))])"

definition was_flagged :: "decision list option \<Rightarrow> string \<Rightarrow> bool" where
  "was_flagged decisions outcome =
     (outcome = outcome_value BlockedByPipeline
      \<or> list_ex (\<lambda>d. case json_get d ''flagged'' of Some v \<Rightarrow> json_truthy v | None \<Rightarrow> False)
          (case decisions of None \<Rightarrow> [] | Some ds \<Rightarrow> ds))"

lemma outcome_value_inj: "outcome_value a = outcome_value b \<longleftrightarrow> a = b"
  by (cases a; cases b) simp_all

lemma decision_summary_keys:
  "decision_summary ds = Some kept \<Longrightarrow> d \<in> set kept \<Longrightarrow> e \<in> set d \<Longrightarrow> fst e \<in> set safe_decision_keys"
  by (auto simp: decision_summary_def Let_def split: if_splits)

lemma redaction_failed_append [simp]:
  "redaction_failed (xs @ ys) \<longleftrightarrow> redaction_failed xs \<or> redaction_failed ys"
  by (simp add: redaction_failed_def)

lemma map_of_filter_fst:
  "P k \<Longrightarrow> map_of (List.filter (\<lambda>e. P (fst e)) es) k = map_of es k"
  by (induction es) auto

text \<open>
  The reduction for storage changes nothing a decision is judged by: what was a failed redaction,
  or a flag, in the full decisions is one in the stored summary.
\<close>

lemma summary_keeps_judgements:
  "redaction_failed (case decision_summary ds of None \<Rightarrow> [] | Some kept \<Rightarrow> kept) = redaction_failed ds"
  "was_flagged (decision_summary ds) out = was_flagged (Some ds) out"
proof -
  let ?keep = "List.filter (\<lambda>e. fst e \<in> set safe_decision_keys)"
  have get: "json_get (?keep d) k = json_get d k" if "k \<in> set safe_decision_keys" for d k
    using that map_of_filter_fst [of "\<lambda>k. k \<in> set safe_decision_keys" k d] by simp
  have kept: "(case decision_summary ds of None \<Rightarrow> [] | Some kept \<Rightarrow> kept)
      = List.filter (\<lambda>d. d \<noteq> []) (map ?keep ds)" for ds
    by (simp add: decision_summary_def Let_def)
  have drop: "list_ex P (List.filter (\<lambda>d. d \<noteq> []) xs) = list_ex P xs" if "\<not> P []" for P and xs :: "decision list"
    using that by (induction xs) auto
  have step: "''step'' \<in> set safe_decision_keys" "''action'' \<in> set safe_decision_keys"
    "''flagged'' \<in> set safe_decision_keys" by (simp_all add: safe_decision_keys_def)
  show "redaction_failed (case decision_summary ds of None \<Rightarrow> [] | Some kept \<Rightarrow> kept) = redaction_failed ds"
    unfolding kept redaction_failed_def
    by (subst drop) (simp_all add: list.pred_map list_ex_iff get [OF step(1), simplified] get [OF step(2), simplified])
  have "was_flagged (decision_summary ds) out = (out = outcome_value BlockedByPipeline
      \<or> list_ex (\<lambda>d. case json_get d ''flagged'' of Some v \<Rightarrow> json_truthy v | None \<Rightarrow> False)
          (List.filter (\<lambda>d. d \<noteq> []) (map ?keep ds)))"
    unfolding was_flagged_def kept [symmetric] by simp
  also have "\<dots> = was_flagged (Some ds) out"
    by (subst drop) (simp_all add: was_flagged_def list_ex_iff get [OF step(3), simplified])
  finally show "was_flagged (decision_summary ds) out = was_flagged (Some ds) out" .
qed

section \<open>Properties\<close>

text \<open>
  What is stored of the pipeline's decisions is an allow-list: no entry outside the known-safe keys
  reaches the column, so no model output about a prompt can; and nothing the row is judged by is
  lost on the way - a redaction that failed, and a flag, read the same from the summary.
\<close>

theorem stored_decisions_are_an_allow_list:
  "(\<forall>kept. decision_summary ds = Some kept \<longrightarrow>
      kept \<noteq> [] \<and> (\<forall>d \<in> set kept. \<forall>e \<in> set d. fst e \<in> set safe_decision_keys))
   \<and> redaction_failed (case decision_summary ds of None \<Rightarrow> [] | Some kept \<Rightarrow> kept) = redaction_failed ds
   \<and> was_flagged (decision_summary ds) out = was_flagged (Some ds) out"
proof (intro conjI allI impI ballI)
  show "kept \<noteq> []" if "decision_summary ds = Some kept" for kept
    using that by (auto simp: decision_summary_def Let_def split: if_splits)
  show "fst e \<in> set safe_decision_keys" if "decision_summary ds = Some kept" "d \<in> set kept" "e \<in> set d" for kept d e
    using that by (rule decision_summary_keys)
qed (rule summary_keeps_judgements)+

theorem stored_decisions_are_an_allow_list_witness:
  "decision_summary [[(''step'', JStr ''filter''), (''flagged'', JBool True), (''reasoning'', JStr ''...'')]]
     = Some [[(''step'', JStr ''filter''), (''flagged'', JBool True)]]
   \<and> was_flagged (Some [[(''step'', JStr ''filter''), (''flagged'', JBool True)]]) ''served''"
proof -
  let ?ds = "[[(''step'', JStr ''filter''), (''flagged'', JBool True), (''reasoning'', JStr ''...'')]]"
  have s: "decision_summary ?ds = Some [[(''step'', JStr ''filter''), (''flagged'', JBool True)]]"
    by (simp add: decision_summary_def safe_decision_keys_def)
  with stored_decisions_are_an_allow_list [of ?ds "''served''"]
  show ?thesis by (simp add: was_flagged_def)
qed

end
