(* ===== verification/Suspensions.thy ===== *)
theory Suspensions
  imports Clock
begin

text \<open>
  Stopping traffic (\<open>gateway/src/aira_gateway/anomalies/suspensions.py\<close>), and the vocabulary of
  anomaly rules both planes share (\<open>libs/src/aira_common/anomalies.py\<close>): which suspensions stop a
  caller, from a short-lived cache over the table, how a block and a throttle refuse, and the
  decision a fired rule writes.

  A service reads two clocks: a monotonic one for the age of its cache and the calendar one for
  expiry. Both are arguments, in microseconds; \<open>table\<close> is the suspension table as the load finds it.
\<close>

section \<open>The vocabulary of rules\<close>

datatype rule_kind =
    RefusalRate | ErrorRate | SpendSpike | RequestSpike | NewSourceIp | PayloadSize | BlockedPromptRate

datatype rule_action = Alert | Throttled | Block

datatype rule_target = TargetSubject | TargetCredential | TargetUseCase

fun kind_value :: "rule_kind \<Rightarrow> string" where
  "kind_value RefusalRate = ''refusal_rate''"
| "kind_value ErrorRate = ''error_rate''"
| "kind_value SpendSpike = ''spend_spike''"
| "kind_value RequestSpike = ''request_spike''"
| "kind_value NewSourceIp = ''new_source_ip''"
| "kind_value PayloadSize = ''payload_size''"
| "kind_value BlockedPromptRate = ''blocked_prompt_rate''"

fun action_value :: "rule_action \<Rightarrow> string" where
  "action_value Alert = ''alert''"
| "action_value Throttled = ''throttle''"
| "action_value Block = ''block''"

fun target_value :: "rule_target \<Rightarrow> string" where
  "target_value TargetSubject = ''subject''"
| "target_value TargetCredential = ''credential''"
| "target_value TargetUseCase = ''use_case''"

text \<open>An enumeration read from its stored word; \<open>None\<close> is the \<open>ValueError\<close>.\<close>

definition kind_of :: "string \<Rightarrow> rule_kind option" where
  "kind_of word = List.find (\<lambda>k. kind_value k = word)
     [RefusalRate, ErrorRate, SpendSpike, RequestSpike, NewSourceIp, PayloadSize, BlockedPromptRate]"

definition action_of :: "string \<Rightarrow> rule_action option" where
  "action_of word = List.find (\<lambda>a. action_value a = word) [Alert, Throttled, Block]"

definition target_of :: "string \<Rightarrow> rule_target option" where
  "target_of word = List.find (\<lambda>t. target_value t = word) [TargetSubject, TargetCredential, TargetUseCase]"

definition rate_kinds :: "rule_kind list" where
  "rate_kinds = [RefusalRate, ErrorRate, PayloadSize, BlockedPromptRate]"

definition ratio_kinds :: "rule_kind list" where
  "ratio_kinds = [SpendSpike, RequestSpike]"

definition needs_throttle_rate :: "rule_action \<Rightarrow> bool" where
  "needs_throttle_rate action = (action = Throttled)"

definition needs_parameter :: "rule_kind \<Rightarrow> bool" where
  "needs_parameter kind = (kind = PayloadSize)"

definition threshold_unit :: "rule_kind \<Rightarrow> string" where
  "threshold_unit kind =
     (if kind \<in> set rate_kinds then ''percent of requests''
      else if kind \<in> set ratio_kinds then ''percent of the previous window''
      else ''occurrences'')"

definition needs_sample :: "rule_kind \<Rightarrow> bool" where
  "needs_sample kind = (kind \<in> set rate_kinds \<or> kind \<in> set ratio_kinds)"

lemma vocabulary_roundtrip [simp]:
  "kind_of (kind_value k) = Some k"
  "action_of (action_value a) = Some a"
  "target_of (target_value t) = Some t"
  subgoal by (cases k) (simp_all add: kind_of_def)
  subgoal by (cases a) (simp_all add: action_of_def)
  subgoal by (cases t) (simp_all add: target_of_def)
  done

section \<open>Suspensions\<close>

record access_suspension =
  s_id :: string
  s_created_at :: "instant option"
  s_use_case :: "string option"
  s_target :: string
  s_target_value :: string
  s_action :: string
  s_throttle_rpm :: "int option"
  s_expires_at :: "instant option"
  s_author :: string
  s_reason :: string
  s_lifted_at :: "instant option"
  s_lifted_by :: "string option"

definition cache_ttl :: int where
  \<comment> \<open>\<open>CACHE_TTL_SECONDS\<close>, in microseconds\<close>
  "cache_ttl = 5000000"

definition rule_author :: string where
  "rule_author = ''rule:''"

record throttle =
  th_label :: string
  th_key :: string
  th_limit_rpm :: int
  th_target :: string
  th_author :: string
  th_reason :: string

datatype suspension_error =
    Suspended (susp_message: string) (susp_retry_after: string) (susp_reason: string)
  | UnknownTarget string

definition spaced :: "string \<Rightarrow> string" where
  \<comment> \<open>\<open>replace('_', ' ')\<close>\<close>
  "spaced s = map (\<lambda>c. if c = CHR ''_'' then CHR '' '' else c) s"

definition throttle_refusal :: "throttle \<Rightarrow> string \<Rightarrow> suspension_error" where
  "throttle_refusal t retry_after =
     Suspended (''Access for this '' @ spaced (th_target t) @ '' is throttled to ''
         @ show_int (th_limit_rpm t) @ '' request(s) a minute ('' @ th_author t @ '').'')
       retry_after (if th_reason t = [] then th_author t else th_reason t)"

definition in_force :: "instant \<Rightarrow> access_suspension \<Rightarrow> bool" where
  "in_force moment row =
     (s_lifted_at row = None \<and> (case s_expires_at row of None \<Rightarrow> True | Some e \<Rightarrow> e > moment))"

definition still_applies :: "access_suspension \<Rightarrow> instant \<Rightarrow> bool" where
  "still_applies row moment =
     (if s_lifted_at row \<noteq> None then False
      else case s_expires_at row of None \<Rightarrow> True | Some e \<Rightarrow> e > moment)"

definition suspension_matches ::
  "access_suspension \<Rightarrow> string option \<Rightarrow> string option \<Rightarrow> string option \<Rightarrow> string option
     \<Rightarrow> suspension_error + bool" where
  "suspension_matches row use_case subject credential person =
     (if s_use_case row \<noteq> None \<and> s_use_case row \<noteq> use_case then Inr False
      else
        (case target_of (s_target row) of
           None \<Rightarrow> Inl (UnknownTarget (s_target row))
         | Some TargetSubject \<Rightarrow>
             Inr (truthy subject \<and> Some (s_target_value row) = subject
                  \<or> truthy person \<and> Some (s_target_value row) = person)
         | Some TargetCredential \<Rightarrow> Inr (credential = Some (s_target_value row))
         | Some TargetUseCase \<Rightarrow> Inr (use_case = Some (s_target_value row))))"

definition retry_seconds :: "access_suspension \<Rightarrow> instant \<Rightarrow> int" where
  "retry_seconds row now =
     (case s_expires_at row of
        None \<Rightarrow> 60
      | Some e \<Rightarrow> max ((e - now) div micros_per_second) 1)"

fun matching_rows ::
  "string option \<Rightarrow> string option \<Rightarrow> string option \<Rightarrow> string option \<Rightarrow> access_suspension list
     \<Rightarrow> suspension_error + access_suspension list" where
  "matching_rows use_case subject credential person [] = Inr []"
| "matching_rows use_case subject credential person (row # rows) =
     sum_bind (suspension_matches row use_case subject credential person) (\<lambda>yes.
       sum_bind (matching_rows use_case subject credential person rows) (\<lambda>rest.
         Inr (if yes then row # rest else rest)))"

fun latest :: "('a \<Rightarrow> int) \<Rightarrow> 'a \<Rightarrow> 'a list \<Rightarrow> 'a" where
  \<comment> \<open>\<open>max(rows, key=...)\<close>: the first of the largest\<close>
  "latest key best [] = best"
| "latest key best (x # xs) = latest key (if key x > key best then x else best) xs"

section \<open>The service\<close>

record suspension_cache =
  sc_cached :: "access_suspension list"
  sc_loaded_at :: "int option"

definition invalidate_suspensions :: "suspension_cache \<Rightarrow> suspension_cache" where
  "invalidate_suspensions st = st\<lparr>sc_loaded_at := None\<rparr>"

definition load_suspensions :: "instant \<Rightarrow> access_suspension list \<Rightarrow> access_suspension list" where
  "load_suspensions now table = List.filter (in_force now) table"

definition active_suspensions ::
  "int \<Rightarrow> instant \<Rightarrow> access_suspension list \<Rightarrow> suspension_cache \<Rightarrow> access_suspension list \<times> suspension_cache" where
  "active_suspensions tick now table st =
     (let st' = (case sc_loaded_at st of
            Some t \<Rightarrow> if tick - t \<ge> cache_ttl
                      then \<lparr>sc_cached = load_suspensions now table, sc_loaded_at = Some tick\<rparr> else st
          | None \<Rightarrow> \<lparr>sc_cached = load_suspensions now table, sc_loaded_at = Some tick\<rparr>)
      in (List.filter (\<lambda>row. still_applies row now) (sc_cached st'), st'))"

definition throttle_of :: "access_suspension \<Rightarrow> throttle" where
  "throttle_of row = \<lparr>th_label = ''suspension '' @ s_target row @ '':'' @ s_target_value row,
     th_key = ''suspension:'' @ s_id row,
     th_limit_rpm = (case s_throttle_rpm row of None \<Rightarrow> 1 | Some n \<Rightarrow> if n = 0 then 1 else n),
     th_target = s_target row, th_author = s_author row, th_reason = s_reason row\<rparr>"

definition block_refusal :: "access_suspension \<Rightarrow> instant \<Rightarrow> suspension_error" where
  "block_refusal row now =
     Suspended (''Access for this '' @ spaced (s_target row) @ '' is suspended ('' @ s_author row @ '').'')
       (show_int (retry_seconds row now)) (if s_reason row = [] then s_author row else s_reason row)"

definition check_suspension ::
  "bool \<Rightarrow> int \<Rightarrow> instant \<Rightarrow> access_suspension list \<Rightarrow> string option \<Rightarrow> string option \<Rightarrow> string option
     \<Rightarrow> string option \<Rightarrow> suspension_cache \<Rightarrow> (suspension_error + throttle list) \<times> suspension_cache" where
  "check_suspension enforce tick now table use_case subject credential person st =
     (if \<not> enforce then (Inr [], st)
      else
        (case active_suspensions tick now table st of
           (rows, st') \<Rightarrow>
             (sum_bind (matching_rows use_case subject credential person rows) (\<lambda>matching.
                case List.filter (\<lambda>row. s_action row = action_value Block) matching of
                  b # bs \<Rightarrow>
                    Inl (block_refusal (latest (\<lambda>r. retry_seconds r now) b bs) now)
                | [] \<Rightarrow>
                    Inr (map throttle_of (List.filter
                      (\<lambda>row. s_action row = action_value Throttled
                         \<and> (case s_throttle_rpm row of None \<Rightarrow> False | Some n \<Rightarrow> n \<noteq> 0)) matching))),
              st')))"

definition suspension_from_rule ::
  "string \<Rightarrow> string \<Rightarrow> string option \<Rightarrow> string \<Rightarrow> string \<Rightarrow> string \<Rightarrow> int \<Rightarrow> int option \<Rightarrow> string \<Rightarrow> instant
     \<Rightarrow> access_suspension" where
  \<comment> \<open>\<open>ident\<close> and \<open>created_at\<close> are the column defaults\<close>
  "suspension_from_rule ident rule_name use_case target value action minutes throttle_rpm detail now =
     \<lparr>s_id = ident, s_created_at = Some now, s_use_case = use_case, s_target = target, s_target_value = value,
      s_action = action, s_throttle_rpm = throttle_rpm,
      s_expires_at = Some (now + max minutes 1 * micros_per_minute),
      s_author = rule_author @ rule_name, s_reason = take 500 detail,
      s_lifted_at = None, s_lifted_by = None\<rparr>"

section \<open>Readers who may not see addresses\<close>

definition new_addresses_from :: string where
  "new_addresses_from = ''not seen before: ''"

fun partition_at :: "string \<Rightarrow> string \<Rightarrow> string option" where
  \<comment> \<open>\<open>s.partition(sep)\<close> where it finds \<open>sep\<close>: what stands before it\<close>
  "partition_at sep [] = (if sep = [] then Some [] else None)"
| "partition_at sep (c # cs) =
     (if take (length sep) (c # cs) = sep then Some [] else map_option (Cons c) (partition_at sep cs))"

definition without_addresses :: "string \<Rightarrow> string" where
  "without_addresses detail =
     (case partition_at new_addresses_from detail of
        None \<Rightarrow> detail
      | Some head \<Rightarrow> head @ ''not seen before'')"

definition as_dict :: "access_suspension \<Rightarrow> bool \<Rightarrow> bool \<Rightarrow> (string \<times> json) list" where
  "as_dict row addresses withheld =
     (let text = (\<lambda>s. case s of None \<Rightarrow> JNull | Some t \<Rightarrow> JStr t);
          moment = (\<lambda>t. case t of None \<Rightarrow> JNull | Some m \<Rightarrow> JStr (isoformat m utc));
          reason = (if \<not> addresses \<and> take (length rule_author) (s_author row) = rule_author
                    then without_addresses (s_reason row) else s_reason row)
      in [(''id'', JStr (s_id row)), (''created_at'', moment (s_created_at row)),
          (''use_case'', text (s_use_case row)), (''target'', JStr (s_target row)),
          (''target_value'', if withheld then JNull else JStr (s_target_value row)),
          (''target_withheld'', JBool withheld), (''action'', JStr (s_action row)),
          (''throttle_rpm'', case s_throttle_rpm row of None \<Rightarrow> JNull | Some n \<Rightarrow> JInt n),
          (''expires_at'', moment (s_expires_at row)), (''author'', JStr (s_author row)),
          (''reason'', JStr reason), (''lifted_at'', moment (s_lifted_at row)),
          (''lifted_by'', text (s_lifted_by row))])"

section \<open>Which rows stop a caller\<close>

lemma still_applies_in_force: "still_applies row now = in_force now row"
  by (simp add: still_applies_def in_force_def)

lemma in_force_earlier: "in_force later row \<Longrightarrow> now \<le> later \<Longrightarrow> in_force now row"
  by (auto simp: in_force_def split: option.splits)

lemma set_matching_rows:
  "matching_rows uc su cr pe rows = Inr found
     \<Longrightarrow> set found = {row \<in> set rows. suspension_matches row uc su cr pe = Inr True}"
proof (induction rows arbitrary: found)
  case (Cons row rows)
  then obtain yes rest where "suspension_matches row uc su cr pe = Inr yes"
    and "matching_rows uc su cr pe rows = Inr rest" and "found = (if yes then row # rest else rest)"
    by (auto simp: sum_bind_Inr_iff)
  with Cons.IH [of rest] show ?case by (cases yes) auto
qed simp

lemma matching_rows_error:
  "matching_rows uc su cr pe rows = Inl e \<Longrightarrow> \<exists>t. e = UnknownTarget t"
proof (induction rows)
  case (Cons row rows)
  then show ?case
    by (auto simp: sum_bind_Inl_iff suspension_matches_def split: if_splits option.splits rule_target.splits)
qed simp

lemma latest_in: "latest key b bs \<in> set (b # bs)"
  by (induction bs arbitrary: b) (simp, fastforce)

lemma latest_greatest: "x \<in> set (b # bs) \<Longrightarrow> key x \<le> key (latest key b bs)"
proof (induction bs arbitrary: b x)
  case (Cons y bs)
  have "key b \<le> key (latest key (if key y > key b then y else b) bs)"
    and "key y \<le> key (latest key (if key y > key b then y else b) bs)"
    using Cons.IH [of "if key y > key b then y else b" "if key y > key b then y else b"]
    by (auto split: if_splits)
  with Cons show ?case by auto
qed simp

lemma active_rows: "row \<in> set (fst (active_suspensions tick now table st)) \<Longrightarrow> in_force now row"
  by (auto simp: active_suspensions_def Let_def still_applies_in_force)

lemma retry_seconds_pos: "0 < retry_seconds row now"
  by (auto simp: retry_seconds_def split: option.splits)

lemma retry_reaches_expiry:
  assumes "s_expires_at row = Some e" "now < e"
  shows "e < now + (retry_seconds row now + 1) * micros_per_second"
proof -
  have "(e - now) - (e - now) mod micros_per_second = (e - now) div micros_per_second * micros_per_second"
    by (simp add: minus_mod_eq_div_mult)
  moreover have "(e - now) mod micros_per_second < micros_per_second" by simp
  moreover have "(e - now) div micros_per_second \<le> retry_seconds row now"
    using assms by (simp add: retry_seconds_def)
  then have "(e - now) div micros_per_second * micros_per_second \<le> retry_seconds row now * micros_per_second"
    by (rule mult_right_mono) simp
  ultimately show ?thesis by (simp add: algebra_simps)
qed

text \<open>
  A caller is told to come back when the last of the blocks on them ends: a refusal names a
  block that matches the caller and is still in force, no other such block ends later than the
  announced wait, and after the announced seconds (and the fraction of one the header drops)
  every matching block that has an end has ended.
\<close>
theorem blocked_until_the_last_block_ends:
  assumes "check_suspension enforce tick now table uc su cr pe st = (Inl (Suspended message wait why), st')"
  shows "\<exists>row. row \<in> set (fst (active_suspensions tick now table st))
       \<and> s_action row = action_value Block \<and> in_force now row
       \<and> suspension_matches row uc su cr pe = Inr True
       \<and> wait = show_int (retry_seconds row now) \<and> 0 < retry_seconds row now
       \<and> (\<forall>other \<in> set (fst (active_suspensions tick now table st)).
            s_action other = action_value Block \<longrightarrow> suspension_matches other uc su cr pe = Inr True \<longrightarrow>
              retry_seconds other now \<le> retry_seconds row now
              \<and> (s_expires_at other \<noteq> None \<longrightarrow>
                   \<not> in_force (now + (retry_seconds row now + 1) * micros_per_second) other))"
proof -
  obtain rows c where act: "active_suspensions tick now table st = (rows, c)" by fastforce
  from assms obtain found where found: "matching_rows uc su cr pe rows = Inr found"
    by (auto simp: check_suspension_def act sum_bind_Inl_iff split: if_splits dest: matching_rows_error)
  with assms obtain b bs where blocks: "List.filter (\<lambda>row. s_action row = action_value Block) found = b # bs"
    by (cases "List.filter (\<lambda>row. s_action row = action_value Block) found")
       (simp_all add: check_suspension_def act split: if_splits)
  with assms found
  have "Suspended message wait why = block_refusal (latest (\<lambda>r. retry_seconds r now) b bs) now"
    by (simp add: check_suspension_def act split: if_splits)
  then have wait: "wait = show_int (retry_seconds (latest (\<lambda>r. retry_seconds r now) b bs) now)"
    by (simp only: block_refusal_def suspension_error.inject)
  let ?row = "latest (\<lambda>r. retry_seconds r now) b bs"
  have sel: "x \<in> set (b # bs) \<longleftrightarrow>
      x \<in> set rows \<and> s_action x = action_value Block \<and> suspension_matches x uc su cr pe = Inr True" for x
    unfolding blocks [symmetric] using set_matching_rows [OF found] by auto
  have "?row \<in> set (b # bs)" by (rule latest_in)
  moreover have "retry_seconds x now \<le> retry_seconds ?row now
      \<and> (s_expires_at x \<noteq> None \<longrightarrow> \<not> in_force (now + (retry_seconds ?row now + 1) * micros_per_second) x)"
    if "x \<in> set (b # bs)" for x
  proof -
    from that have le: "retry_seconds x now \<le> retry_seconds ?row now" by (rule latest_greatest)
    from that sel have live: "in_force now x" using active_rows [of x tick now table st] by (simp add: act)
    have "\<not> in_force (now + (retry_seconds ?row now + 1) * micros_per_second) x" if "s_expires_at x = Some e" for e
    proof -
      from live that have "now < e" by (simp add: in_force_def)
      from retry_reaches_expiry [OF that this] le
      have "e \<le> now + (retry_seconds ?row now + 1) * micros_per_second" by simp
      with that show ?thesis by (simp add: in_force_def)
    qed
    with le show ?thesis by auto
  qed
  ultimately show ?thesis using sel wait active_rows [of ?row tick now table st] retry_seconds_pos
    by (intro exI [of _ ?row]) (auto simp: act)
qed

text \<open>Two blocks on one key, one ending in ten seconds and one in ninety: the longer one speaks.\<close>

definition block_until :: "string \<Rightarrow> instant \<Rightarrow> access_suspension" where
  "block_until ident e = suspension_from_rule ident ''r'' None ''credential'' ''k1'' ''block'' 1 None ''why'' 0
     \<lparr>s_expires_at := Some e\<rparr>"

lemma blocked_until_the_last_block_ends_witness:
  "\<exists>row. row \<in> set (fst (active_suspensions 0 0 [block_until ''a'' 10000000, block_until ''b'' 90000000]
         \<lparr>sc_cached = [], sc_loaded_at = None\<rparr>))
       \<and> show_int 90 = show_int (retry_seconds row 0)"
proof -
  have "check_suspension True 0 0 [block_until ''a'' 10000000, block_until ''b'' 90000000] None None (Some ''k1'') None
      \<lparr>sc_cached = [], sc_loaded_at = None\<rparr>
    = (Inl (Suspended ''Access for this credential is suspended (rule:r).'' (show_int 90) ''why''),
       \<lparr>sc_cached = [block_until ''a'' 10000000, block_until ''b'' 90000000], sc_loaded_at = Some 0\<rparr>)"
    by code_simp
  from blocked_until_the_last_block_ends [OF this] show ?thesis by blast
qed

section \<open>A decision reaches every instance\<close>

text \<open>
  One gateway instance over time: both clocks and the table as anybody may write it, and this
  instance's cache. \<open>Asked\<close> is any request's check, whoever calls.
\<close>

record instance_state =
  w_tick :: int
  w_now :: instant
  w_table :: "access_suspension list"
  w_cache :: suspension_cache

inductive instance_step :: "instance_state \<Rightarrow> instance_state \<Rightarrow> bool" where
  Passed: "0 \<le> d \<Longrightarrow> 0 \<le> e \<Longrightarrow> instance_step w (w\<lparr>w_tick := w_tick w + d, w_now := w_now w + e\<rparr>)"
| Written: "instance_step w (w\<lparr>w_table := rows\<rparr>)"
| Dropped: "instance_step w (w\<lparr>w_cache := invalidate_suspensions (w_cache w)\<rparr>)"
| Asked: "instance_step w (w\<lparr>w_cache :=
    snd (check_suspension enforce (w_tick w) (w_now w) (w_table w) uc su cr pe (w_cache w))\<rparr>)"

inductive holding :: "access_suspension \<Rightarrow> instance_state \<Rightarrow> instance_state \<Rightarrow> bool" for row w where
  \<comment> \<open>a run throughout which the table holds the row\<close>
  Start: "row \<in> set (w_table w) \<Longrightarrow> holding row w w"
| Later: "holding row w w' \<Longrightarrow> instance_step w' w'' \<Longrightarrow> row \<in> set (w_table w'') \<Longrightarrow> holding row w w''"

definition cache_knows :: "access_suspension \<Rightarrow> int \<Rightarrow> instance_state \<Rightarrow> bool" where
  "cache_knows row start w \<longleftrightarrow>
     (case sc_loaded_at (w_cache w) of None \<Rightarrow> True
      | Some t \<Rightarrow> t \<le> start \<or> row \<in> set (sc_cached (w_cache w)) \<or> \<not> in_force (w_now w) row)"

definition sane_clock :: "instance_state \<Rightarrow> bool" where
  \<comment> \<open>the cache was loaded in the past\<close>
  "sane_clock w \<longleftrightarrow> (case sc_loaded_at (w_cache w) of None \<Rightarrow> True | Some t \<Rightarrow> t \<le> w_tick w)"

lemma check_suspension_cache:
  "snd (check_suspension enforce tick now table uc su cr pe st)
     = (if enforce then snd (active_suspensions tick now table st) else st)"
  by (simp add: check_suspension_def split: prod.splits)

lemma cache_knows_step:
  assumes "instance_step w w'" "cache_knows row start w" "row \<in> set (w_table w)"
  shows "cache_knows row start w'"
  using assms(1)
proof (cases rule: instance_step.cases)
  case (Passed d e)
  with assms show ?thesis
    using in_force_earlier [of "w_now w + e" row "w_now w"]
    by (auto simp: cache_knows_def split: option.splits)
next
  case Asked
  with assms show ?thesis
    by (auto simp: cache_knows_def check_suspension_cache active_suspensions_def load_suspensions_def
        Let_def split: option.splits)
qed (use assms in \<open>auto simp: cache_knows_def invalidate_suspensions_def split: option.splits\<close>)

lemma holding_cache_knows:
  assumes "holding row w w'" "sane_clock w"
  shows "cache_knows row (w_tick w) w' \<and> row \<in> set (w_table w')"
  using assms
proof (induction rule: holding.induct)
  case Start
  then show ?case by (auto simp: cache_knows_def sane_clock_def split: option.splits)
next
  case Later
  then show ?case by (auto intro: cache_knows_step)
qed

lemma matching_row_refuses:
  assumes "row \<in> set rows" "suspension_matches row uc su cr pe = Inr True"
    and "matching_rows uc su cr pe rows = Inr found"
  shows "row \<in> set found"
  using assms by (simp add: set_matching_rows)

text \<open>
  C32: A block stops its caller on every instance at most five seconds after it is written: once a
  blocking row in force has been in the table for the life of the cache, whatever requests, drops
  of the cache and other writes came in between, a matching caller's check refuses.
\<close>
theorem block_reaches_every_instance:
  assumes "sane_clock w" "holding row w w'"
    and "w_tick w + cache_ttl \<le> w_tick w'" "in_force (w_now w') row"
    and "s_action row = action_value Block" "suspension_matches row uc su cr pe = Inr True"
  shows "\<exists>refusal. fst (check_suspension True (w_tick w') (w_now w') (w_table w') uc su cr pe (w_cache w'))
    = Inl refusal"
proof -
  let ?act = "active_suspensions (w_tick w') (w_now w') (w_table w') (w_cache w')"
  from holding_cache_knows assms(1,2)
  have "cache_knows row (w_tick w) w'" and "row \<in> set (w_table w')" by auto
  with assms(3,4) have "row \<in> set (fst ?act)"
    by (auto simp: active_suspensions_def cache_knows_def load_suspensions_def still_applies_in_force
        Let_def split: option.splits)
  moreover obtain rows c where act: "?act = (rows, c)" by fastforce
  ultimately have row: "row \<in> set rows" by simp
  show ?thesis
  proof (cases "matching_rows uc su cr pe rows")
    case (Inr found)
    from matching_row_refuses [OF row assms(6) Inr] assms(5)
    have "List.filter (\<lambda>row. s_action row = action_value Block) found \<noteq> []"
      by (auto simp: filter_empty_conv)
    then obtain b bs where "List.filter (\<lambda>row. s_action row = action_value Block) found = b # bs"
      by (cases "List.filter (\<lambda>row. s_action row = action_value Block) found") simp_all
    with Inr show ?thesis by (simp add: check_suspension_def act)
  qed (simp add: check_suspension_def act)
qed

lemma block_reaches_every_instance_witness:
  "\<exists>refusal. fst (check_suspension True 5000000 5000000 [block_until ''a'' 90000000] None None (Some ''k1'') None
      \<lparr>sc_cached = [], sc_loaded_at = Some 0\<rparr>) = Inl refusal"
proof -
  let ?w = "\<lparr>w_tick = 0, w_now = 0, w_table = [block_until ''a'' 90000000],
    w_cache = \<lparr>sc_cached = [], sc_loaded_at = Some 0\<rparr>\<rparr>"
  let ?w' = "?w\<lparr>w_tick := w_tick ?w + 5000000, w_now := w_now ?w + 5000000\<rparr>"
  have start: "holding (block_until ''a'' 90000000) ?w ?w" by (rule Start) simp
  have step: "instance_step ?w ?w'" by (rule Passed) simp_all
  have "holding (block_until ''a'' 90000000) ?w ?w'" by (rule Later [OF start step]) simp
  moreover have "in_force 5000000 (block_until ''a'' 90000000)"
    and "s_action (block_until ''a'' 90000000) = ''block''"
    and "suspension_matches (block_until ''a'' 90000000) None None (Some ''k1'') None = Inr True"
    by code_simp+
  ultimately show ?thesis
    using block_reaches_every_instance [of ?w "block_until ''a'' 90000000" ?w' None None "Some ''k1''" None]
    by (simp add: sane_clock_def cache_ttl_def)
qed

end
