(* ===== verification/Anomalies.thy ===== *)
theory Anomalies
  imports Audit_Trail Read_Models Suspensions "HOL-Library.List_Lexorder" "HOL-Library.Char_ord"
begin

text \<open>
  Detecting anomalies (\<open>gateway/src/aira_gateway/anomalies/\<close>): \<open>evaluator.py\<close>, which measures one rule
  against the audit trail, and \<open>service.py\<close>, the tick that evaluates the rules whose use cases saw
  traffic, writes what it found and carries out the actions.

  A query groups in an order the database chooses; the model takes the order of first appearance,
  which no statement depends on. A displayed share is the exact quotient rounded half to even (the
  code divides in floating point for the display only; every comparison is on integers in both).
\<close>

section \<open>Measuring one rule\<close>

record finding =
  f_target_value :: string
  f_observed :: int
  f_sample :: int
  f_detail :: string

definition counted_outcomes :: "rule_kind \<Rightarrow> string list option option" where
  \<comment> \<open>\<open>_COUNTED_OUTCOMES\<close>; \<open>Some None\<close> counts whatever was not served\<close>
  "counted_outcomes kind =
     (case kind of
        RefusalRate \<Rightarrow> Some None
      | ErrorRate \<Rightarrow> Some (Some [outcome_value UpstreamFailed])
      | BlockedPromptRate \<Rightarrow> Some (Some [outcome_value BlockedByPipeline])
      | _ \<Rightarrow> None)"

definition group_by :: "rule_target \<Rightarrow> request_log \<Rightarrow> string option" where
  "group_by target row =
     (case target of
        TargetSubject \<Rightarrow> Some (request_person row)
      | TargetCredential \<Rightarrow> q_credential row
      | TargetUseCase \<Rightarrow> q_use_case row)"

definition measured :: "anomaly_rule_read \<Rightarrow> rule_target \<Rightarrow> bool \<Rightarrow> request_log \<Rightarrow> bool" where
  "measured rule target spend row \<longleftrightarrow>
     (ar_use_case rule \<noteq> None \<longrightarrow> q_use_case row = ar_use_case rule)
     \<and> truthy (group_by target row)
     \<and> (case q_outcome row of None \<Rightarrow> True | Some out \<Rightarrow> out \<notin> set not_traffic)
     \<and> (spend \<or> take (length pipeline_operation_prefix) (q_operation row) \<noteq> pipeline_operation_prefix)"

definition window_since :: "anomaly_rule_read \<Rightarrow> instant \<Rightarrow> instant" where
  "window_since rule now = now - ar_window_minutes rule * micros_per_minute"

definition window_before :: "anomaly_rule_read \<Rightarrow> instant \<Rightarrow> instant" where
  "window_before rule now = now - 2 * (ar_window_minutes rule * micros_per_minute)"

definition rounded_share :: "int \<Rightarrow> int \<Rightarrow> int" where
  \<comment> \<open>\<open>round(num / den)\<close>, half to even\<close>
  "rounded_share num den =
     (let q = num div den; r = num mod den
      in if 2 * r < den then q else if 2 * r > den then q + 1 else if even q then q else q + 1)"

definition rows_of :: "rule_target \<Rightarrow> string \<Rightarrow> request_log list \<Rightarrow> request_log list" where
  "rows_of target v rows = List.filter (\<lambda>row. group_by target row = Some v) rows"

definition groups :: "rule_target \<Rightarrow> request_log list \<Rightarrow> string list" where
  "groups target rows = keep_first (List.map_filter (group_by target) rows)"

definition share_of ::
  "anomaly_rule_read \<Rightarrow> string \<Rightarrow> request_log list \<Rightarrow> (request_log \<Rightarrow> bool) \<Rightarrow> string \<Rightarrow> finding option" where
  "share_of rule v rows hit described =
     (let total = int (length rows); matched = int (length (List.filter hit rows))
      in if total < max (ar_min_sample rule) 1 then None
         else if matched * 100 < ar_threshold rule * total then None
         else let share = rounded_share (matched * 100) total in
           Some \<lparr>f_target_value = v, f_observed = share, f_sample = total,
             f_detail = show_int share @ ''% '' @ described @ '' over '' @ show_int total
               @ '' requests in '' @ show_int (ar_window_minutes rule) @ '' min''\<rparr>)"

definition evaluate_share ::
  "request_log list \<Rightarrow> anomaly_rule_read \<Rightarrow> rule_target \<Rightarrow> instant \<Rightarrow> (request_log \<Rightarrow> bool) \<Rightarrow> (request_log \<Rightarrow> bool)
     \<Rightarrow> string \<Rightarrow> finding list" where
  \<comment> \<open>\<open>known\<close> is \<open>known_only\<close>, true where there is none\<close>
  "evaluate_share logs rule target now hit known described =
     (let rows = List.filter (\<lambda>row. window_since rule now \<le> q_created_at row \<and> known row
                     \<and> measured rule target False row) logs
      in List.map_filter (\<lambda>v. share_of rule v (rows_of target v rows) hit described) (groups target rows))"

definition rate_hit :: "string list option \<Rightarrow> request_log \<Rightarrow> bool" where
  "rate_hit counted row =
     (case q_outcome row of
        None \<Rightarrow> False
      | Some out \<Rightarrow> (case counted of None \<Rightarrow> out \<noteq> outcome_value Served | Some outs \<Rightarrow> out \<in> set outs))"

definition evaluate_rate ::
  "request_log list \<Rightarrow> anomaly_rule_read \<Rightarrow> rule_target \<Rightarrow> rule_kind \<Rightarrow> string list option \<Rightarrow> instant
     \<Rightarrow> finding list" where
  "evaluate_rate logs rule target kind counted now =
     evaluate_share logs rule target now (rate_hit counted) (\<lambda>_. True) (spaced (kind_value kind))"

definition evaluate_payload_size ::
  "request_log list \<Rightarrow> anomaly_rule_read \<Rightarrow> rule_target \<Rightarrow> instant \<Rightarrow> finding list" where
  "evaluate_payload_size logs rule target now =
     (case ar_parameter rule of
        None \<Rightarrow> []
      | Some n \<Rightarrow>
          if n = 0 then []
          else evaluate_share logs rule target now
            (\<lambda>row. case q_request_bytes row of None \<Rightarrow> False | Some b \<Rightarrow> n \<le> b)
            (\<lambda>row. q_request_bytes row \<noteq> None)
            (''requests of at least '' @ show_int n @ '' bytes''))"

definition between :: "instant \<Rightarrow> instant \<Rightarrow> (request_log \<Rightarrow> bool) \<Rightarrow> request_log list \<Rightarrow> request_log list" where
  "between start stop keep logs =
     List.filter (\<lambda>row. start \<le> q_created_at row \<and> q_created_at row < stop \<and> keep row) logs"

definition ratio_amount :: "bool \<Rightarrow> request_log list \<Rightarrow> int" where
  "ratio_amount spend rows =
     (if spend then sum_list (map (\<lambda>row. case q_cost_nanos row of None \<Rightarrow> 0 | Some c \<Rightarrow> c) rows)
      else int (length rows))"

definition ratio_of ::
  "anomaly_rule_read \<Rightarrow> bool \<Rightarrow> string \<Rightarrow> request_log list \<Rightarrow> request_log list \<Rightarrow> finding option" where
  \<comment> \<open>the rows of one target in this window, and in the one before\<close>
  "ratio_of rule spend v rows previous =
     (let amount = ratio_amount spend rows; was = ratio_amount spend previous
      in if int (length rows) < max (ar_min_sample rule) 1 then None
         else if was \<le> 0 then None
         else if amount * 100 < ar_threshold rule * was then None
         else let share = rounded_share (amount * 100) was in
           Some \<lparr>f_target_value = v, f_observed = share, f_sample = int (length rows),
             f_detail = (if spend then ''spend'' else ''requests'') @ '' at '' @ show_int share
               @ ''% of the previous '' @ show_int (ar_window_minutes rule) @ '' min (''
               @ show_int amount @ '' against '' @ show_int was @ '')''\<rparr>)"

definition evaluate_ratio ::
  "request_log list \<Rightarrow> anomaly_rule_read \<Rightarrow> rule_target \<Rightarrow> rule_kind \<Rightarrow> instant \<Rightarrow> finding list" where
  "evaluate_ratio logs rule target kind now =
     (let spend = (kind = SpendSpike);
          current = between (window_since rule now) (now + micros_per_second) (measured rule target spend) logs;
          previous = between (window_before rule now) (window_since rule now) (measured rule target spend) logs
      in List.map_filter (\<lambda>v. ratio_of rule spend v (rows_of target v current) (rows_of target v previous))
           (groups target current))"

fun joined :: "string \<Rightarrow> string list \<Rightarrow> string" where
  \<comment> \<open>\<open>sep.join(parts)\<close>\<close>
  "joined sep [] = []"
| "joined sep [s] = s"
| "joined sep (s # t # ts) = s @ sep @ joined sep (t # ts)"

definition addresses_of :: "request_log list \<Rightarrow> string list" where
  "addresses_of rows = keep_first (List.map_filter q_source_ip rows)"

definition new_source_detail :: "string list \<Rightarrow> string" where
  "new_source_detail fresh =
     ''used from '' @ show_int (int (length fresh)) @ '' address(es) '' @ new_addresses_from @ joined '', '' fresh"

definition new_source_of ::
  "anomaly_rule_read \<Rightarrow> string \<Rightarrow> string list \<Rightarrow> string list \<Rightarrow> finding option" where
  "new_source_of rule v addresses known =
     (if known = [] then None
      else let fresh = sort (List.filter (\<lambda>a. a \<notin> set known) addresses) in
        if int (length fresh) < ar_threshold rule then None
        else Some \<lparr>f_target_value = v, f_observed = int (length fresh), f_sample = int (length addresses),
          f_detail = new_source_detail fresh\<rparr>)"

definition evaluate_new_source ::
  "request_log list \<Rightarrow> anomaly_rule_read \<Rightarrow> rule_target \<Rightarrow> instant \<Rightarrow> finding list" where
  "evaluate_new_source logs rule target now =
     (let keep = (\<lambda>row. q_source_ip row \<noteq> None \<and> measured rule target False row);
          current = between (window_since rule now) (now + micros_per_second) keep logs;
          known = between (window_before rule now) (window_since rule now) keep logs
      in List.map_filter (\<lambda>v. new_source_of rule v (addresses_of (rows_of target v current))
             (addresses_of (rows_of target v known)))
           (groups target current))"

definition evaluate_rule :: "request_log list \<Rightarrow> anomaly_rule_read \<Rightarrow> instant \<Rightarrow> finding list" where
  "evaluate_rule logs rule now =
     (case kind_of (ar_kind rule) of
        None \<Rightarrow> []
      | Some kind \<Rightarrow>
         (case target_of (ar_target rule) of
            None \<Rightarrow> []
          | Some target \<Rightarrow>
             (case counted_outcomes kind of
                Some counted \<Rightarrow> evaluate_rate logs rule target kind counted now
              | None \<Rightarrow>
                  if kind = PayloadSize then evaluate_payload_size logs rule target now
                  else if kind \<in> set ratio_kinds then evaluate_ratio logs rule target kind now
                  else if kind = NewSourceIp then evaluate_new_source logs rule target now
                  else [])))"

section \<open>Recording and enforcing\<close>

definition not_enforced :: string where
  "not_enforced = ''detected_not_enforced''"

definition enforced_actions :: "string list" where
  "enforced_actions = [''blocked'', ''throttled'']"

definition observed_ceiling :: int where
  "observed_ceiling = 2 ^ 31 - 1"

text \<open>
  What a session writes to, and the service: how often it ticks, the suspension service it was
  given (whether that enforces, and its cache), and how far it has evaluated. \<open>ids\<close> draws the
  identifier of a written decision.
\<close>

record detection =
  d_events :: "anomaly_event list"
  d_suspensions :: "access_suspension list"

record anomaly_service =
  an_interval :: int
  an_suspensions :: "(bool \<times> suspension_cache) option"
  an_since :: "instant option"

definition enforcing :: "anomaly_service \<Rightarrow> bool" where
  "enforcing sv = (case an_suspensions sv of None \<Rightarrow> False | Some (enforce, _) \<Rightarrow> enforce)"

definition enforce_action ::
  "(nat \<Rightarrow> string) \<Rightarrow> bool \<Rightarrow> anomaly_rule_read \<Rightarrow> finding \<Rightarrow> rule_action \<Rightarrow> instant \<Rightarrow> detection
     \<Rightarrow> string \<times> detection" where
  "enforce_action ids on rule f action now w =
     (if action = Alert then (action_value Alert, w)
      else if \<not> on \<or> ar_action_minutes rule = None \<or> ar_action_minutes rule = Some 0 then (not_enforced, w)
      else ((if action = Block then ''blocked'' else ''throttled''),
        w\<lparr>d_suspensions := d_suspensions w @ [suspension_from_rule (ids (length (d_suspensions w)))
            (ar_name rule) (ar_use_case rule) (ar_target rule) (f_target_value f) (action_value action)
            (the (ar_action_minutes rule)) (ar_throttle_rpm rule) (f_detail f) now]\<rparr>))"

definition fired_recently :: "anomaly_rule_read \<Rightarrow> string \<Rightarrow> instant \<Rightarrow> detection \<Rightarrow> bool" where
  "fired_recently rule v now w =
     list_ex (\<lambda>e. ev_rule_id e = ar_id rule \<and> ev_target_value e = v
       \<and> ev_created_at e > now - ar_window_minutes rule * micros_per_minute) (d_events w)"

definition event_of :: "anomaly_rule_read \<Rightarrow> finding \<Rightarrow> string \<Rightarrow> instant \<Rightarrow> anomaly_event" where
  "event_of rule f taken now =
     \<lparr>ev_created_at = now, ev_rule_id = ar_id rule, ev_rule_name = ar_name rule, ev_kind = ar_kind rule,
      ev_use_case = (if ar_use_case rule \<noteq> None then ar_use_case rule
        else if ar_target rule = target_value TargetUseCase then Some (f_target_value f) else None),
      ev_target = ar_target rule, ev_target_value = f_target_value f,
      ev_observed = min (f_observed f) observed_ceiling, ev_threshold = ar_threshold rule,
      ev_sample = f_sample f, ev_window_minutes = ar_window_minutes rule, ev_action_taken = taken,
      ev_detail = take 500 (f_detail f)\<rparr>"

definition record_finding ::
  "(nat \<Rightarrow> string) \<Rightarrow> bool \<Rightarrow> anomaly_rule_read \<Rightarrow> instant \<Rightarrow> finding \<Rightarrow> detection
     \<Rightarrow> anomaly_event list \<times> detection" where
  "record_finding ids on rule now f w =
     (if fired_recently rule (f_target_value f) now w then ([], w)
      else
        (case (case action_of (ar_action rule) of
                 None \<Rightarrow> (not_enforced, w)
               | Some action \<Rightarrow> enforce_action ids on rule f action now w) of
           (taken, w') \<Rightarrow>
             let e = event_of rule f taken now in ([e], w'\<lparr>d_events := d_events w' @ [e]\<rparr>)))"

fun record_findings ::
  "(nat \<Rightarrow> string) \<Rightarrow> bool \<Rightarrow> anomaly_rule_read \<Rightarrow> instant \<Rightarrow> finding list \<Rightarrow> detection
     \<Rightarrow> anomaly_event list \<times> detection" where
  "record_findings ids on rule now [] w = ([], w)"
| "record_findings ids on rule now (f # fs) w =
     (case record_finding ids on rule now f w of (es, w') \<Rightarrow>
        case record_findings ids on rule now fs w' of (es', w'') \<Rightarrow> (es @ es', w''))"

text \<open>\<open>stored\<close> says for which rules the database accepts what the savepoint flushes.\<close>

fun evaluate_rules ::
  "(nat \<Rightarrow> string) \<Rightarrow> bool \<Rightarrow> (int \<Rightarrow> bool) \<Rightarrow> request_log list \<Rightarrow> instant \<Rightarrow> anomaly_rule_read list \<Rightarrow> detection
     \<Rightarrow> anomaly_event list \<times> detection" where
  "evaluate_rules ids on stored logs now [] w = ([], w)"
| "evaluate_rules ids on stored logs now (rule # rules) w =
     (case (if stored (ar_id rule) then record_findings ids on rule now (evaluate_rule logs rule now) w
            else ([], w)) of (es, w') \<Rightarrow>
        case evaluate_rules ids on stored logs now rules w' of (es', w'') \<Rightarrow> (es @ es', w''))"

definition touched_since :: "request_log list \<Rightarrow> instant \<Rightarrow> anomaly_service \<Rightarrow> string option list" where
  "touched_since logs moment sv =
     (let since = (case an_since sv of Some t \<Rightarrow> t | None \<Rightarrow> moment - an_interval sv)
      in keep_first (map q_use_case (List.filter (\<lambda>row. since \<le> q_created_at row) logs)))"

definition applicable_rules :: "anomaly_rule_read list \<Rightarrow> string option list \<Rightarrow> anomaly_rule_read list" where
  "applicable_rules rules touched =
     List.filter (\<lambda>rule. ar_enabled rule \<and> (ar_use_case rule = None \<or> ar_use_case rule \<in> set touched)) rules"

definition evaluate_touched ::
  "(nat \<Rightarrow> string) \<Rightarrow> bool \<Rightarrow> (int \<Rightarrow> bool) \<Rightarrow> request_log list \<Rightarrow> anomaly_rule_read list \<Rightarrow> string option list
     \<Rightarrow> instant \<Rightarrow> detection \<Rightarrow> anomaly_event list \<times> detection" where
  "evaluate_touched ids on stored logs rules touched moment w =
     (if touched = [] then ([], w)
      else evaluate_rules ids on stored logs moment (applicable_rules rules touched) w)"

text \<open>
  One round. \<open>claimed\<close> is the advisory lock's answer, \<open>raises\<close> that the database failed outside a
  savepoint: the round then ends with the exception and nothing has changed.
\<close>

record tick_oracle =
  t_ids :: "nat \<Rightarrow> string"
  t_claimed :: bool
  t_raises :: bool
  t_stored :: "int \<Rightarrow> bool"

definition tick ::
  "tick_oracle \<Rightarrow> request_log list \<Rightarrow> anomaly_rule_read list \<Rightarrow> instant \<Rightarrow> anomaly_service \<Rightarrow> detection
     \<Rightarrow> anomaly_event list option \<times> anomaly_service \<times> detection" where
  "tick db logs rules moment sv w =
     (if t_raises db then (None, sv, w)
      else if \<not> t_claimed db then (Some [], sv\<lparr>an_since := Some moment\<rparr>, w)
      else
        (case evaluate_touched (t_ids db) (enforcing sv) (t_stored db) logs rules
                (touched_since logs moment sv) moment w of
           (written, w') \<Rightarrow>
             (Some written,
              sv\<lparr>an_since := Some moment,
                 an_suspensions := (if list_ex (\<lambda>e. ev_action_taken e \<in> set enforced_actions) written
                   then map_option (\<lambda>(enforce, cache). (enforce, invalidate_suspensions cache)) (an_suspensions sv)
                   else an_suspensions sv)\<rparr>,
              if written = [] then w else w')))"

section \<open>What a rate reports\<close>

lemma in_map_filter: "y \<in> set (List.map_filter f xs) \<longleftrightarrow> (\<exists>x \<in> set xs. f x = Some y)"
  by (induction xs) (auto simp: List.map_filter_simps split: option.splits)

lemma map_filter_key:
  "(\<And>v f. g v = Some f \<Longrightarrow> key f = v) \<Longrightarrow> map key (List.map_filter g vs) = List.filter (\<lambda>v. g v \<noteq> None) vs"
  by (induction vs) (auto simp: List.map_filter_simps split: option.splits)

lemma share_of_target: "share_of rule v rows hit described = Some f \<Longrightarrow> f_target_value f = v"
  by (auto simp: share_of_def Let_def split: if_splits)

lemma share_of_fires:
  "share_of rule v rows hit described \<noteq> None \<longleftrightarrow>
     max (ar_min_sample rule) 1 \<le> int (length rows)
     \<and> ar_threshold rule * int (length rows) \<le> int (length (List.filter hit rows)) * 100"
  by (auto simp: share_of_def Let_def)

lemma share_targets:
  "map f_target_value (evaluate_share logs rule target now hit known described) =
     (let rows = List.filter (\<lambda>row. window_since rule now \<le> q_created_at row \<and> known row
                     \<and> measured rule target False row) logs
      in List.filter (\<lambda>v. share_of rule v (rows_of target v rows) hit described \<noteq> None) (groups target rows))"
  unfolding evaluate_share_def Let_def by (rule map_filter_key) (rule share_of_target)

lemma rows_of_filter:
  "rows_of target v (List.filter P logs) = List.filter (\<lambda>row. P row \<and> group_by target row = Some v) logs"
  by (simp add: rows_of_def)

lemma in_groups: "v \<in> set (groups target rows) \<longleftrightarrow> rows_of target v rows \<noteq> []"
  by (auto simp: groups_def in_map_filter rows_of_def filter_empty_conv)

text \<open>
  C33: A rate rule reports a target exactly when that target's own requests in the window (of the
  rule's use case, traffic, not a pipeline step's call) are as many as the sample asks for and the
  share of counted outcomes among them is at least the threshold, compared exactly; and it reports
  each target once.
\<close>
theorem rate_fires_exactly_at_its_threshold:
  fixes logs rule target now v
  defines "mine \<equiv> List.filter (\<lambda>row. window_since rule now \<le> q_created_at row \<and> measured rule target False row
      \<and> group_by target row = Some v) logs"
  assumes "kind_of (ar_kind rule) = Some kind" "target_of (ar_target rule) = Some target"
    and "counted_outcomes kind = Some counted"
  shows "((\<exists>f \<in> set (evaluate_rule logs rule now). f_target_value f = v) \<longleftrightarrow>
      max (ar_min_sample rule) 1 \<le> int (length mine)
      \<and> ar_threshold rule * int (length mine) \<le> int (length (List.filter (rate_hit counted) mine)) * 100)
      \<and> distinct (map f_target_value (evaluate_rule logs rule now))"
proof -
  let ?rows = "List.filter (\<lambda>row. window_since rule now \<le> q_created_at row \<and> measured rule target False row) logs"
  from assms(2-4) have rule: "evaluate_rule logs rule now
      = evaluate_share logs rule target now (rate_hit counted) (\<lambda>_. True) (spaced (kind_value kind))"
    by (simp add: evaluate_rule_def evaluate_rate_def)
  have targets: "map f_target_value (evaluate_rule logs rule now) = List.filter
      (\<lambda>v. share_of rule v (rows_of target v ?rows) (rate_hit counted) (spaced (kind_value kind)) \<noteq> None)
      (groups target ?rows)"
    unfolding rule share_targets by (simp add: Let_def)
  then have "distinct (map f_target_value (evaluate_rule logs rule now))"
    by (simp add: groups_def)
  have mine: "rows_of target v ?rows = mine"
    unfolding rows_of_filter mine_def by (simp add: conj_assoc)
  have "(\<exists>f \<in> set (evaluate_rule logs rule now). f_target_value f = v)
      \<longleftrightarrow> v \<in> set (map f_target_value (evaluate_rule logs rule now))" by auto
  also have "\<dots> \<longleftrightarrow> mine \<noteq> [] \<and> share_of rule v mine (rate_hit counted) (spaced (kind_value kind)) \<noteq> None"
    unfolding targets using in_groups [of v target ?rows] by (auto simp: mine)
  also have "\<dots> \<longleftrightarrow> max (ar_min_sample rule) 1 \<le> int (length mine)
      \<and> ar_threshold rule * int (length mine) \<le> int (length (List.filter (rate_hit counted) mine)) * 100"
    unfolding share_of_fires by auto
  finally show ?thesis using \<open>distinct _\<close> by blast
qed

text \<open>Three of eight requests refused are not 38 percent of them, and are 37 percent.\<close>

definition sample_log :: "string option \<Rightarrow> request_log" where
  "sample_log out = \<lparr>q_created_at = 0, q_subject = ''u'', q_username = None, q_use_case = Some ''uc'',
     q_source_ip = None, q_credential = None, q_operation = ''generate'', q_outcome = out,
     q_request_bytes = None, q_cost_nanos = None\<rparr>"

definition sample_rule :: "int \<Rightarrow> anomaly_rule_read" where
  "sample_rule threshold = \<lparr>ar_id = 1, ar_use_case = None, ar_name = ''r'', ar_kind = ''refusal_rate'',
     ar_window_minutes = 15, ar_threshold = threshold, ar_parameter = None, ar_min_sample = 5,
     ar_action = ''block'', ar_target = ''subject'', ar_action_minutes = Some 60, ar_throttle_rpm = None,
     ar_enabled = True\<rparr>"

definition sample_logs :: "request_log list" where
  "sample_logs = replicate 5 (sample_log (Some ''served'')) @ replicate 3 (sample_log (Some ''suspended''))"

lemma rate_fires_exactly_at_its_threshold_witness:
  "(\<exists>f \<in> set (evaluate_rule sample_logs (sample_rule 37) 0). f_target_value f = ''u'')
   \<and> \<not> (\<exists>f \<in> set (evaluate_rule sample_logs (sample_rule 38) 0). f_target_value f = ''u'')"
proof -
  have kind: "kind_of (ar_kind (sample_rule t)) = Some RefusalRate"
    and target: "target_of (ar_target (sample_rule t)) = Some TargetSubject" for t
    by (simp_all add: sample_rule_def kind_of_def target_of_def)
  have mine: "length (List.filter P (List.filter (\<lambda>row. window_since (sample_rule t) 0 \<le> q_created_at row
       \<and> measured (sample_rule t) TargetSubject False row \<and> group_by TargetSubject row = Some ''u'') sample_logs))
     = length (List.filter P sample_logs)" for t P
    by (simp add: sample_logs_def sample_log_def sample_rule_def window_since_def measured_def group_by_def
        request_person_def not_traffic_def pipeline_operation_prefix_def)
  have "length sample_logs = 8" and "length (List.filter (rate_hit None) sample_logs) = 3"
    by (simp_all add: sample_logs_def sample_log_def rate_hit_def)
  with rate_fires_exactly_at_its_threshold [OF kind [of 37] target [of 37], where counted = None and logs = sample_logs and now = 0 and v = "''u''"]
    rate_fires_exactly_at_its_threshold [OF kind [of 38] target [of 38], where counted = None and logs = sample_logs and now = 0 and v = "''u''"]
    mine [of "\<lambda>_. True"] mine [of "rate_hit None"]
  show ?thesis by (simp add: counted_outcomes_def sample_rule_def)
qed

section \<open>What a round writes\<close>

text \<open>
  The specification of a round: it only appends, its events keep their distance (\<open>spaced_events\<close>),
  and every event that claims an action stands for one written decision (\<open>carried_out\<close>).
\<close>

definition cooled_down :: "anomaly_event \<Rightarrow> anomaly_event \<Rightarrow> bool" where
  "cooled_down e e' \<longleftrightarrow>
     (ev_rule_id e = ev_rule_id e' \<and> ev_target_value e = ev_target_value e' \<longrightarrow>
        ev_created_at e + ev_window_minutes e' * micros_per_minute \<le> ev_created_at e')"

definition spaced_events :: "anomaly_event list \<Rightarrow> bool" where
  "spaced_events es \<longleftrightarrow> sorted_wrt cooled_down es"

definition carried_out :: "anomaly_event \<Rightarrow> access_suspension \<Rightarrow> bool" where
  "carried_out e s \<longleftrightarrow>
     s_target s = ev_target e \<and> s_target_value s = ev_target_value e
     \<and> s_author s = rule_author @ ev_rule_name e \<and> s_reason s = ev_detail e
     \<and> s_action s = (if ev_action_taken e = ''blocked'' then action_value Block else action_value Throttled)
     \<and> (\<exists>t. s_expires_at s = Some t \<and> ev_created_at e < t) \<and> s_lifted_at s = None"

definition claims_action :: "anomaly_event \<Rightarrow> bool" where
  "claims_action e \<longleftrightarrow> ev_action_taken e \<in> set enforced_actions"

definition round_of :: "bool \<Rightarrow> detection \<Rightarrow> anomaly_event list \<Rightarrow> detection \<Rightarrow> bool" where
  "round_of on w es w' \<longleftrightarrow>
     d_events w' = d_events w @ es
     \<and> (spaced_events (d_events w) \<longrightarrow> spaced_events (d_events w'))
     \<and> (\<exists>new. d_suspensions w' = d_suspensions w @ new
          \<and> list_all2 carried_out (List.filter claims_action es) new \<and> (\<not> on \<longrightarrow> new = []))"

lemma round_of_nothing: "round_of on w [] w"
  by (simp add: round_of_def)

lemma round_of_append:
  assumes "round_of on w es w'" "round_of on w' es' w''"
  shows "round_of on w (es @ es') w''"
  using assms by (auto simp: round_of_def intro: list_all2_appendI)

lemma event_of_spaced:
  assumes "spaced_events es" "\<not> fired_recently rule (f_target_value f) now \<lparr>d_events = es, d_suspensions = ss\<rparr>"
  shows "spaced_events (es @ [event_of rule f taken now])"
  using assms by (auto simp: spaced_events_def sorted_wrt_append cooled_down_def fired_recently_def
      event_of_def list_ex_iff)

lemma fired_recently_events:
  "fired_recently rule v now w \<longleftrightarrow> fired_recently rule v now \<lparr>d_events = d_events w, d_suspensions = ss\<rparr>"
  by (simp add: fired_recently_def)

lemma action_words:
  "\<not> claims_action (event_of rule f (action_value Alert) now)"
  "\<not> claims_action (event_of rule f not_enforced now)"
  "claims_action (event_of rule f ''blocked'' now)"
  "claims_action (event_of rule f ''throttled'' now)"
  by (simp_all add: claims_action_def event_of_def enforced_actions_def not_enforced_def)

lemma enforced_once:
  assumes "enforce_action ids on rule f action now w = (taken, w')"
    and "\<not> fired_recently rule (f_target_value f) now w"
  shows "round_of on w [event_of rule f taken now] (w'\<lparr>d_events := d_events w' @ [event_of rule f taken now]\<rparr>)"
proof -
  from assms(2) have "\<not> fired_recently rule (f_target_value f) now \<lparr>d_events = d_events w, d_suspensions = []\<rparr>"
    by (simp add: fired_recently_def)
  note spaced = event_of_spaced [OF _ this]
  show ?thesis
  proof (cases "action = Alert \<or> \<not> on \<or> ar_action_minutes rule = None \<or> ar_action_minutes rule = Some 0")
    case True
    with assms(1) have "w' = w" and "\<not> claims_action (event_of rule f taken now)"
      by (auto simp: enforce_action_def action_words simp del: action_value.simps split: if_splits)
    with spaced show ?thesis by (simp add: round_of_def)
  next
    case False
    let ?s = "suspension_from_rule (ids (length (d_suspensions w))) (ar_name rule) (ar_use_case rule) (ar_target rule)
            (f_target_value f) (action_value action) (the (ar_action_minutes rule)) (ar_throttle_rpm rule)
            (f_detail f) now"
    from False assms(1) have "on" and taken: "taken = (if action = Block then ''blocked'' else ''throttled'')"
      and w': "w' = w\<lparr>d_suspensions := d_suspensions w @ [?s]\<rparr>"
      by (auto simp: enforce_action_def split: if_splits)
    from False taken have "carried_out (event_of rule f taken now) ?s"
      by (cases action) (simp_all add: carried_out_def event_of_def suspension_from_rule_def)
    moreover from taken have "claims_action (event_of rule f taken now)" by (simp add: action_words)
    ultimately show ?thesis using spaced \<open>on\<close> by (simp add: round_of_def w')
  qed
qed

lemma not_enforced_round:
  assumes "\<not> fired_recently rule (f_target_value f) now w"
  shows "round_of on w [event_of rule f not_enforced now]
    (w\<lparr>d_events := d_events w @ [event_of rule f not_enforced now]\<rparr>)"
proof -
  from assms have "\<not> fired_recently rule (f_target_value f) now \<lparr>d_events = d_events w, d_suspensions = []\<rparr>"
    by (simp add: fired_recently_def)
  from event_of_spaced [OF _ this] show ?thesis by (simp add: round_of_def action_words)
qed

lemma record_finding_round:
  assumes "record_finding ids on rule now f w = (es, w')"
  shows "round_of on w es w'"
proof (cases "fired_recently rule (f_target_value f) now w")
  case True
  with assms have "es = []" "w' = w" by (simp_all add: record_finding_def)
  then show ?thesis by (simp add: round_of_nothing)
next
  case False
  show ?thesis
  proof (cases "action_of (ar_action rule)")
    case None
    with False assms not_enforced_round [OF False] show ?thesis by (auto simp: record_finding_def Let_def)
  next
    case (Some action)
    obtain taken w1 where act: "enforce_action ids on rule f action now w = (taken, w1)" by fastforce
    from False assms Some act enforced_once [OF act False] show ?thesis
      by (auto simp: record_finding_def Let_def)
  qed
qed

lemma record_findings_round:
  "record_findings ids on rule now fs w = (es, w') \<Longrightarrow> round_of on w es w'"
proof (induction fs arbitrary: w es w')
  case (Cons f fs)
  then obtain es1 w1 es2 where "record_finding ids on rule now f w = (es1, w1)"
    and "record_findings ids on rule now fs w1 = (es2, w')" and "es = es1 @ es2"
    by (auto split: prod.splits)
  with Cons.IH [of w1 es2 w'] show ?case by (auto intro: round_of_append record_finding_round)
qed (simp add: round_of_nothing)

lemma evaluate_rules_round:
  "evaluate_rules ids on stored logs now rules w = (es, w') \<Longrightarrow> round_of on w es w'"
proof (induction rules arbitrary: w es w')
  case (Cons rule rules)
  then obtain es1 w1 es2 where one: "(if stored (ar_id rule)
        then record_findings ids on rule now (evaluate_rule logs rule now) w else ([], w)) = (es1, w1)"
    and rest: "evaluate_rules ids on stored logs now rules w1 = (es2, w')" and "es = es1 @ es2"
    by (auto split: prod.splits)
  from one have "round_of on w es1 w1"
    by (auto intro: record_findings_round round_of_nothing split: if_splits)
  with Cons.IH [OF rest] \<open>es = _\<close> show ?case by (simp add: round_of_append)
qed (simp add: round_of_nothing)

lemma round_of_no_events: "round_of on w [] w' \<Longrightarrow> w' = w"
  by (auto simp: round_of_def)

lemma tick_round:
  assumes "tick db logs rules now sv w = (Some es, sv', w')"
  shows "round_of (enforcing sv) w es w'"
proof -
  obtain written w'' where run: "evaluate_touched (t_ids db) (enforcing sv) (t_stored db) logs rules
      (touched_since logs now sv) now w = (written, w'')" by fastforce
  then have "round_of (enforcing sv) w written w''"
    by (auto simp: evaluate_touched_def intro: evaluate_rules_round round_of_nothing split: if_splits)
  with assms run show ?thesis
    by (auto simp: tick_def round_of_nothing split: if_splits)
qed

text \<open>Every round of every instance, over whatever the tables hold by then.\<close>

inductive detector_reachable :: "detection \<Rightarrow> bool" where
  Installed: "detector_reachable \<lparr>d_events = [], d_suspensions = []\<rparr>"
| Round: "detector_reachable w \<Longrightarrow> tick db logs rules now sv w = (result, sv', w') \<Longrightarrow> detector_reachable w'"
| Managed: "detector_reachable w \<Longrightarrow> detector_reachable (w\<lparr>d_suspensions := ss\<rparr>)"
| Pruned: "detector_reachable w \<Longrightarrow> detector_reachable (w\<lparr>d_events := List.filter kept (d_events w)\<rparr>)"

lemma tick_raises: "tick db logs rules now sv w = (None, sv', w') \<Longrightarrow> sv' = sv \<and> w' = w"
  by (auto simp: tick_def split: if_splits prod.splits)

lemma reachable_spaced: "detector_reachable w \<Longrightarrow> spaced_events (d_events w)"
proof (induction rule: detector_reachable.induct)
  case (Round w db logs rules now sv result sv' w')
  then show ?case
    using tick_round [of db logs rules now sv w _ sv' w'] tick_raises [of db logs rules now sv w sv' w']
    by (cases result) (auto simp: round_of_def)
qed (simp_all add: spaced_events_def sorted_wrt_filter)

text \<open>
  C34: A finding is written once per window: whatever rounds run, on whichever instance, at whatever
  moments and however the rules change in between, two events of one rule about one target are at
  least the later event's window apart.
\<close>
theorem findings_keep_their_distance:
  assumes "detector_reachable w" "i < j" "j < length (d_events w)"
    and "ev_rule_id (d_events w ! i) = ev_rule_id (d_events w ! j)"
    and "ev_target_value (d_events w ! i) = ev_target_value (d_events w ! j)"
  shows "ev_created_at (d_events w ! i) + ev_window_minutes (d_events w ! j) * micros_per_minute
    \<le> ev_created_at (d_events w ! j)"
proof -
  from assms(1) have "sorted_wrt cooled_down (d_events w)"
    by (simp add: reachable_spaced flip: spaced_events_def)
  with assms(2,3) have "cooled_down (d_events w ! i) (d_events w ! j)"
    by (simp add: sorted_wrt_nth_less)
  with assms(4,5) show ?thesis by (simp add: cooled_down_def)
qed

text \<open>
  C35: A rule stops nobody without saying so and never for good: a round that ends appends to the
  events and to the suspensions, the events that claim an action correspond one to one, in order,
  to the suspensions written, each of those ends after the moment it was decided and is on the
  event's target in the rule's name, and where suspensions are not enforced none is written.
\<close>
theorem actions_are_recorded_and_end:
  assumes "tick db logs rules now sv w = (Some es, sv', w')"
  shows "d_events w' = d_events w @ es
    \<and> (\<exists>new. d_suspensions w' = d_suspensions w @ new
         \<and> list_all2 carried_out (List.filter claims_action es) new \<and> (\<not> enforcing sv \<longrightarrow> new = []))"
  using tick_round [OF assms] by (simp add: round_of_def)

text \<open>
  One rule the database cannot store stops no other: a round writes exactly what it would have
  written without the failing rules; and a round that raises changes nothing and keeps its
  watermark, so that the next one reads the same traffic.
\<close>
theorem failing_rules_stop_no_other:
  "evaluate_rules ids on stored logs now rules w
     = evaluate_rules ids on (\<lambda>_. True) logs now (List.filter (\<lambda>rule. stored (ar_id rule)) rules) w
   \<and> (\<forall>db sv. t_raises db \<longrightarrow> tick db logs rules now sv w = (None, sv, w)
        \<and> touched_since logs now sv = touched_since logs now (fst (snd (tick db logs rules now sv w))))"
proof -
  have "evaluate_rules ids on stored logs now rules w
     = evaluate_rules ids on (\<lambda>_. True) logs now (List.filter (\<lambda>rule. stored (ar_id rule)) rules) w"
    by (induction rules arbitrary: w) (auto split: prod.splits)
  then show ?thesis by (simp add: tick_def)
qed

text \<open>One rule and the same traffic twice, the second round exactly one window after the first.\<close>

definition sample_db :: tick_oracle where
  "sample_db = \<lparr>t_ids = (\<lambda>_. ''id''), t_claimed = True, t_raises = False, t_stored = (\<lambda>_. True)\<rparr>"

definition sample_service :: anomaly_service where
  "sample_service = \<lparr>an_interval = 900000000, an_suspensions = Some (True, \<lparr>sc_cached = [], sc_loaded_at = None\<rparr>),
     an_since = None\<rparr>"

abbreviation sample_tick :: "instant \<Rightarrow> detection \<Rightarrow> anomaly_event list option \<times> anomaly_service \<times> detection" where
  "sample_tick now w \<equiv> tick sample_db sample_logs [sample_rule 37] now sample_service w"

definition sample_event :: "instant \<Rightarrow> anomaly_event" where
  "sample_event now = event_of (sample_rule 37)
     \<lparr>f_target_value = ''u'', f_observed = 38, f_sample = 8,
      f_detail = ''38% refusal rate over 8 requests in 15 min''\<rparr> ''blocked'' now"

definition sample_suspension :: "instant \<Rightarrow> access_suspension" where
  "sample_suspension now = suspension_from_rule ''id'' ''r'' None ''subject'' ''u'' ''block'' 60 None
     ''38% refusal rate over 8 requests in 15 min'' now"

lemma sample_ticks:
  "\<exists>sv. sample_tick 0 \<lparr>d_events = [], d_suspensions = []\<rparr>
     = (Some [sample_event 0], sv, \<lparr>d_events = [sample_event 0], d_suspensions = [sample_suspension 0]\<rparr>)"
  "\<exists>sv. sample_tick 900000000 \<lparr>d_events = [sample_event 0], d_suspensions = [sample_suspension 0]\<rparr>
     = (Some [sample_event 900000000], sv, \<lparr>d_events = [sample_event 0, sample_event 900000000],
         d_suspensions = [sample_suspension 0, sample_suspension 900000000]\<rparr>)"
proof -
  have "(case sample_tick 0 \<lparr>d_events = [], d_suspensions = []\<rparr> of (es, _, w) \<Rightarrow> (es, w))
     = (Some [sample_event 0], \<lparr>d_events = [sample_event 0], d_suspensions = [sample_suspension 0]\<rparr>)"
    by code_simp
  then show "\<exists>sv. sample_tick 0 \<lparr>d_events = [], d_suspensions = []\<rparr>
     = (Some [sample_event 0], sv, \<lparr>d_events = [sample_event 0], d_suspensions = [sample_suspension 0]\<rparr>)"
    by (auto split: prod.splits)
  have "(case sample_tick 900000000 \<lparr>d_events = [sample_event 0], d_suspensions = [sample_suspension 0]\<rparr> of
       (es, _, w) \<Rightarrow> (es, w))
     = (Some [sample_event 900000000], \<lparr>d_events = [sample_event 0, sample_event 900000000],
         d_suspensions = [sample_suspension 0, sample_suspension 900000000]\<rparr>)"
    by code_simp
  then show "\<exists>sv. sample_tick 900000000 \<lparr>d_events = [sample_event 0], d_suspensions = [sample_suspension 0]\<rparr>
     = (Some [sample_event 900000000], sv, \<lparr>d_events = [sample_event 0, sample_event 900000000],
         d_suspensions = [sample_suspension 0, sample_suspension 900000000]\<rparr>)"
    by (auto split: prod.splits)
qed

lemma findings_keep_their_distance_witness:
  "ev_created_at (sample_event 0) + 15 * micros_per_minute \<le> ev_created_at (sample_event 900000000)"
proof -
  from sample_ticks obtain sv sv' where one: "sample_tick 0 \<lparr>d_events = [], d_suspensions = []\<rparr>
     = (Some [sample_event 0], sv, \<lparr>d_events = [sample_event 0], d_suspensions = [sample_suspension 0]\<rparr>)"
    and two: "sample_tick 900000000 \<lparr>d_events = [sample_event 0], d_suspensions = [sample_suspension 0]\<rparr>
     = (Some [sample_event 900000000], sv', \<lparr>d_events = [sample_event 0, sample_event 900000000],
         d_suspensions = [sample_suspension 0, sample_suspension 900000000]\<rparr>)" by blast
  from findings_keep_their_distance [OF Round [OF Round [OF Installed one] two], of 0 1] show ?thesis
    by (simp add: sample_event_def event_of_def sample_rule_def)
qed

lemma actions_are_recorded_and_end_witness:
  "list_all2 carried_out (List.filter claims_action [sample_event 0]) [sample_suspension 0]"
proof -
  from sample_ticks(1) obtain sv where "sample_tick 0 \<lparr>d_events = [], d_suspensions = []\<rparr>
     = (Some [sample_event 0], sv, \<lparr>d_events = [sample_event 0], d_suspensions = [sample_suspension 0]\<rparr>)" by blast
  from actions_are_recorded_and_end [OF this] show ?thesis by simp
qed

lemma failing_rules_stop_no_other_witness:
  "evaluate_rules (\<lambda>_. ''id'') True (\<lambda>i. i \<noteq> 1) sample_logs 0 [sample_rule 37, (sample_rule 37)\<lparr>ar_id := 2\<rparr>]
       \<lparr>d_events = [], d_suspensions = []\<rparr>
     = evaluate_rules (\<lambda>_. ''id'') True (\<lambda>_. True) sample_logs 0 [(sample_rule 37)\<lparr>ar_id := 2\<rparr>]
       \<lparr>d_events = [], d_suspensions = []\<rparr>
   \<and> tick (sample_db\<lparr>t_raises := True\<rparr>) sample_logs [sample_rule 37, (sample_rule 37)\<lparr>ar_id := 2\<rparr>] 0 sample_service
       \<lparr>d_events = [], d_suspensions = []\<rparr> = (None, sample_service, \<lparr>d_events = [], d_suspensions = []\<rparr>)"
proof -
  have "ar_id (sample_rule 37) = 1" by (simp add: sample_rule_def)
  then have "List.filter (\<lambda>rule. ar_id rule \<noteq> 1) [sample_rule 37, (sample_rule 37)\<lparr>ar_id := 2\<rparr>]
      = [(sample_rule 37)\<lparr>ar_id := 2\<rparr>]" by simp
  then show ?thesis
    using failing_rules_stop_no_other [of "\<lambda>_. ''id''" True "\<lambda>i. i \<noteq> 1" sample_logs 0
        "[sample_rule 37, (sample_rule 37)\<lparr>ar_id := 2\<rparr>]" "\<lparr>d_events = [], d_suspensions = []\<rparr>"]
    by (auto dest!: spec [of _ "sample_db\<lparr>t_raises := True\<rparr>"] spec [of _ sample_service] simp del: evaluate_rules.simps)
qed

section \<open>Who may read the addresses\<close>

lemma partition_at_first:
  "c \<notin> set pre \<Longrightarrow> partition_at (c # sep) (pre @ (c # sep) @ rest) = Some pre"
proof (induction pre)
  case (Cons d pre)
  have "partition_at (c # sep) (d # pre @ (c # sep) @ rest)
      = map_option (Cons d) (partition_at (c # sep) (pre @ (c # sep) @ rest))"
    using Cons.prems by auto
  with Cons show ?case by simp
qed simp

lemma without_addresses_new_source:
  assumes "length fresh < 10 ^ 100"
  shows "without_addresses (take 500 (new_source_detail fresh))
    = ''used from '' @ show_int (int (length fresh)) @ '' address(es) not seen before''"
proof -
  let ?n = "show_nat (length fresh)"
  let ?pre = "''used from '' @ ?n @ '' address(es) ''"
  have "length ?n \<le> 100" using assms by (intro length_show_nat_bound) simp_all
  then have fits: "length (?pre @ new_addresses_from) \<le> 500" by (simp add: new_addresses_from_def)
  have "take k (p @ rest) = p @ take (k - length p) rest" if "length p \<le> k" for p rest :: string and k
    using that by simp
  from this [OF fits] have cut: "take 500 (?pre @ new_addresses_from @ rest)
      = ?pre @ new_addresses_from @ take (500 - length (?pre @ new_addresses_from)) rest" for rest
    by (simp only: append_assoc)
  have "CHR ''n'' \<notin> set ?pre" using show_nat_digits [of "length fresh"] by auto
  then have "partition_at new_addresses_from (?pre @ new_addresses_from @ rest) = Some ?pre" for rest
    using partition_at_first [of "CHR ''n''" ?pre "''ot seen before: ''" rest]
    by (simp add: new_addresses_from_def)
  then have "without_addresses (?pre @ new_addresses_from @ rest) = ?pre @ ''not seen before''" for rest
    by (simp only: without_addresses_def option.case)
  then show ?thesis
    using cut [of "joined '', '' fresh"] by (simp add: new_source_detail_def show_int_def)
qed

text \<open>
  A reader without the incident permission learns nothing of the addresses: two findings of as
  many new addresses read the same, as an event's description and as the suspension a rule wrote
  for it, whatever the addresses are and wherever the column cuts the description.
\<close>
theorem addresses_are_withheld:
  assumes "length fresh = length others" "length fresh < 10 ^ 100"
  shows "without_addresses (take 500 (new_source_detail fresh))
      = without_addresses (take 500 (new_source_detail others))
    \<and> as_dict (suspension_from_rule ident name uc target value action minutes rpm (new_source_detail fresh) now)
        False withheld
      = as_dict (suspension_from_rule ident name uc target value action minutes rpm (new_source_detail others) now)
          False withheld"
  using without_addresses_new_source [of fresh] without_addresses_new_source [of others] assms
  by (simp add: as_dict_def Let_def suspension_from_rule_def rule_author_def)

lemma addresses_are_withheld_witness:
  "without_addresses (take 500 (new_source_detail [''10.0.0.1''])) = without_addresses (take 500 (new_source_detail [''10.9.9.9'']))"
  using addresses_are_withheld [of "[''10.0.0.1'']" "[''10.9.9.9'']"] by simp

end
