(* ===== verification/Canonical.thy ===== *)
theory Canonical
  imports Gateway_Prelude
begin

text \<open>
  The provider-agnostic request every surface maps to and every upstream speaks
  (\<open>gateway/src/aira_gateway/core/canonical.py\<close>): messages as ordered lists of parts, the three kinds
  of request (a generation, an embedding, a ranking) and the pairing of tool results with the calls
  they answer. Bytes are strings of characters; a schema document is its JSON. The three requests
  share the fields a chain of models rewrites, so they extend one record.
\<close>

section \<open>Parts and messages\<close>

definition sampling_controls :: "string list" where
  "sampling_controls = [''top_p'', ''top_k'', ''seed'', ''presence_penalty'', ''frequency_penalty'', ''stop_sequences'']"

definition max_tools :: nat where "max_tools = 128"
definition max_messages :: nat where "max_messages = 10000"
definition max_message_parts :: nat where "max_message_parts = 2 * max_messages"

definition too_long_a_conversation :: "nat \<Rightarrow> nat \<Rightarrow> string option" where
  "too_long_a_conversation messages parts =
     (if messages > max_messages
      then Some (''The request carries '' @ show_nat messages @ '' turns, more than the '' @ show_nat max_messages
        @ '' one request may. A conversation that long is past every model's context window; send its recent turns.'')
      else if parts > max_message_parts
      then Some (''The request carries '' @ show_nat parts @ '' parts across its turns, more than the ''
        @ show_nat max_message_parts @ '' one request may.'')
      else None)"

datatype role = System | User | Model

record data_part =
  dp_media_type :: string
  dp_data :: string

record tool_call =
  tc_id :: string
  tc_name :: string
  tc_arguments :: json_object
  tc_signature :: "string option"

record tool_result =
  tr_call_id :: string
  tr_name :: string
  tr_content :: string
  tr_attachments :: "data_part list"

datatype part =
    TextPart string
  | DataPart data_part
  | ToolCallPart tool_call
  | ToolResultPart tool_result

record message =
  msg_role :: role
  msg_parts :: "part list"

fun part_text :: "part \<Rightarrow> string" where
  "part_text (TextPart t) = t"
| "part_text _ = []"

definition message_text :: "message \<Rightarrow> string" where
  "message_text m = concat (map part_text (msg_parts m))"

fun part_call :: "part \<Rightarrow> tool_call option" where
  "part_call (ToolCallPart c) = Some c"
| "part_call _ = None"

fun part_result :: "part \<Rightarrow> tool_result option" where
  "part_result (ToolResultPart r) = Some r"
| "part_result _ = None"

definition message_calls :: "message \<Rightarrow> tool_call list" where
  "message_calls m = List.map_filter part_call (msg_parts m)"

definition message_results :: "message \<Rightarrow> tool_result list" where
  "message_results m = List.map_filter part_result (msg_parts m)"

fun part_attachments :: "part \<Rightarrow> data_part list" where
  "part_attachments (DataPart d) = [d]"
| "part_attachments (ToolResultPart r) = tr_attachments r"
| "part_attachments _ = []"

section \<open>Requests\<close>

record thinking =
  th_mode :: string
  th_tokens :: "int option"

record speech =
  sp_voice :: "string option"
  sp_speakers :: "(string \<times> string) list"
  sp_language :: "string option"

record tool_declaration =
  td_name :: string
  td_description :: string
  td_parameters :: "json option"

record addressed =
  rq_model :: string
  rq_addressing :: json_object

record canonical_request = addressed +
  rq_messages :: "message list"
  rq_temperature :: "rat option"
  rq_max_output_tokens :: "int option"
  rq_thinking :: "thinking option"
  rq_thinking_from_default :: bool
  rq_top_p :: "rat option"
  rq_top_k :: "int option"
  rq_seed :: "int option"
  rq_presence_penalty :: "rat option"
  rq_frequency_penalty :: "rat option"
  rq_stop_sequences :: "string list"
  rq_response_schema :: "json option"
  rq_response_json_schema :: "json option"
  rq_tools :: "tool_declaration list"
  rq_cache_prefix :: bool
  rq_include_reasoning :: bool
  rq_cache_ttl :: string
  rq_speech :: "speech option"

record embedding_request = addressed +
  em_texts :: "string list"
  em_task_type :: "string option"
  em_dimensions :: "int option"
  em_aggregate :: bool
  em_task_in_text :: bool

record rerank_record =
  rr_id :: string
  rr_title :: string
  rr_content :: string

record rerank_request = addressed +
  re_query :: string
  re_records :: "rerank_record list"
  re_top_n :: "nat option"
  re_ids_only :: bool

definition last_user_text :: "canonical_request \<Rightarrow> string" where
  "last_user_text rq =
     (case List.find (\<lambda>m. msg_role m = User) (rev (rq_messages rq)) of
        Some m \<Rightarrow> message_text m
      | None \<Rightarrow> if rq_messages rq = [] then [] else message_text (last (rq_messages rq)))"

definition request_attachments :: "canonical_request \<Rightarrow> data_part list" where
  "request_attachments rq = concat (map (\<lambda>m. concat (map part_attachments (msg_parts m))) (rq_messages rq))"

definition media_types :: "canonical_request \<Rightarrow> string list" where
  "media_types rq = keep_first (map dp_media_type (request_attachments rq))"

definition structured :: "canonical_request \<Rightarrow> bool" where
  "structured rq = (rq_response_schema rq \<noteq> None \<or> rq_response_json_schema rq \<noteq> None)"

fun control_set :: "canonical_request \<Rightarrow> string \<Rightarrow> bool" where
  \<comment> \<open>\<open>getattr(self, name)\<close> is neither \<open>None\<close> nor \<open>()\<close>\<close>
  "control_set rq name =
     (if name = ''top_p'' then rq_top_p rq \<noteq> None
      else if name = ''top_k'' then rq_top_k rq \<noteq> None
      else if name = ''seed'' then rq_seed rq \<noteq> None
      else if name = ''presence_penalty'' then rq_presence_penalty rq \<noteq> None
      else if name = ''frequency_penalty'' then rq_frequency_penalty rq \<noteq> None
      else if name = ''stop_sequences'' then rq_stop_sequences rq \<noteq> []
      else False)"

definition sampling_requested :: "canonical_request \<Rightarrow> string list" where
  "sampling_requested rq = List.filter (control_set rq) sampling_controls"

definition asks_nothing :: "canonical_request \<Rightarrow> bool" where
  \<comment> \<open>\<open>is_empty\<close>\<close>
  "asks_nothing rq =
     (\<not> list_ex (\<lambda>m. py_strip (message_text m) \<noteq> []) (rq_messages rq)
      \<and> request_attachments rq = []
      \<and> \<not> list_ex (\<lambda>m. message_results m \<noteq> []) (rq_messages rq))"

definition embedding_size :: "embedding_request \<Rightarrow> nat" where
  "embedding_size e = length (em_texts e)"

definition records_per_ranking_unit :: int where
  "records_per_ranking_unit = 100"

definition ranking_units :: "rerank_request \<Rightarrow> int" where
  "ranking_units r = max 1 (- ((- int (length (re_records r))) div records_per_ranking_unit))"

definition ranking_texts :: "rerank_request \<Rightarrow> string list" where
  "ranking_texts r = re_query r # concat (map (\<lambda>d. [rr_title d, rr_content d]) (re_records r))"

text \<open>The wire name a platform knows a model by: the alias its addressing names, its own otherwise.\<close>

definition wire_name :: "string \<Rightarrow> json_object \<Rightarrow> string" where
  "wire_name model addressing =
     (case map_of addressing ''model'' of
        Some (JStr named) \<Rightarrow> if py_strip named \<noteq> [] then py_strip named else model
      | _ \<Rightarrow> model)"

section \<open>Pairing tool results with their calls\<close>

text \<open>\<open>open_calls.remove(answered)\<close> removes the first equal call.\<close>

definition answering :: "tool_call list \<Rightarrow> tool_result \<Rightarrow> tool_call option" where
  "answering open_calls r =
     (case List.find (\<lambda>c. tc_id c = tr_call_id r) open_calls of
        Some c \<Rightarrow> Some c
      | None \<Rightarrow> List.find (\<lambda>c. tc_name c = tr_name r) open_calls)"

fun pair_parts :: "tool_call list \<Rightarrow> part list \<Rightarrow> part list \<times> tool_call list" where
  "pair_parts open_calls [] = ([], open_calls)"
| "pair_parts open_calls (ToolResultPart r # parts) =
     (case answering open_calls r of
        None \<Rightarrow> (case pair_parts open_calls parts of (ps, oc) \<Rightarrow> (ToolResultPart r # ps, oc))
      | Some c \<Rightarrow>
          (case pair_parts (remove1 c open_calls) parts of
             (ps, oc) \<Rightarrow> (ToolResultPart (r\<lparr>tr_call_id := tc_id c\<rparr>) # ps, oc)))"
| "pair_parts open_calls (p # parts) = (case pair_parts open_calls parts of (ps, oc) \<Rightarrow> (p # ps, oc))"

fun pair_messages :: "tool_call list \<Rightarrow> message list \<Rightarrow> message list" where
  "pair_messages open_calls [] = []"
| "pair_messages open_calls (m # ms) =
     (if msg_role m = Model then m # pair_messages (message_calls m) ms
      else (case pair_parts open_calls (msg_parts m) of
              (ps, oc) \<Rightarrow> m\<lparr>msg_parts := ps\<rparr> # pair_messages oc ms))"

definition paired_tool_results :: "message list \<Rightarrow> message list" where
  "paired_tool_results ms = pair_messages [] ms"

subsection \<open>What pairing keeps\<close>

lemma answering_in: "answering oc r = Some c \<Longrightarrow> c \<in> set oc"
  by (auto simp: answering_def find_Some_iff split: option.splits)

lemma find_by_id:
  "distinct (map tc_id oc) \<Longrightarrow> c \<in> set oc \<Longrightarrow> List.find (\<lambda>d. tc_id d = tc_id c) oc = Some c"
proof (induction oc)
  case (Cons d oc)
  then show ?case by (auto simp: image_iff)
qed simp

lemma answering_again:
  "distinct (map tc_id oc) \<Longrightarrow> answering oc r = Some c \<Longrightarrow> answering oc (r\<lparr>tr_call_id := tc_id c\<rparr>) = Some c"
  using answering_in [of oc r c] find_by_id [of oc c] by (simp add: answering_def)

lemma distinct_remove1_map: "distinct (map f xs) \<Longrightarrow> distinct (map f (remove1 x xs))"
  by (induction xs) (auto dest: subsetD [OF set_remove1_subset])

lemma pair_parts_again:
  "distinct (map tc_id oc) \<Longrightarrow> pair_parts oc ps = (qs, oc') \<Longrightarrow> pair_parts oc qs = (qs, oc') \<and> distinct (map tc_id oc')"
proof (induction oc ps arbitrary: qs oc' rule: pair_parts.induct [case_names Nil Result Text Data Call])
  case (Result oc r ps)
  show ?case
  proof (cases "answering oc r")
    case None
    with Result.prems obtain ps' where rest: "pair_parts oc ps = (ps', oc')" and qs: "qs = ToolResultPart r # ps'"
      by (auto split: prod.splits)
    with Result.IH(1) [OF None Result.prems(1) rest] None show ?thesis by simp
  next
    case (Some c)
    with Result.prems obtain ps' where rest: "pair_parts (remove1 c oc) ps = (ps', oc')"
      and qs: "qs = ToolResultPart (r\<lparr>tr_call_id := tc_id c\<rparr>) # ps'"
      by (auto split: prod.splits)
    have "distinct (map tc_id (remove1 c oc))" using Result.prems(1) by (rule distinct_remove1_map)
    from Result.IH(2) [OF Some this rest] answering_again [OF Result.prems(1) Some] show ?thesis by (simp add: qs)
  qed
next
  case (Text oc x ps)
  from Text.prems(2) obtain ps' where "pair_parts oc ps = (ps', oc')" and "qs = TextPart x # ps'"
    by (auto split: prod.splits)
  with Text.IH [OF Text.prems(1)] show ?case by simp
next
  case (Data oc x ps)
  from Data.prems(2) obtain ps' where "pair_parts oc ps = (ps', oc')" and "qs = DataPart x # ps'"
    by (auto split: prod.splits)
  with Data.IH [OF Data.prems(1)] show ?case by simp
next
  case (Call oc x ps)
  from Call.prems(2) obtain ps' where "pair_parts oc ps = (ps', oc')" and "qs = ToolCallPart x # ps'"
    by (auto split: prod.splits)
  with Call.IH [OF Call.prems(1)] show ?case by simp
qed simp

lemma pair_messages_again:
  assumes "distinct (map tc_id oc)" "\<forall>m \<in> set ms. distinct (map tc_id (message_calls m))"
  shows "pair_messages oc (pair_messages oc ms) = pair_messages oc ms"
  using assms
proof (induction oc ms rule: pair_messages.induct)
  case (2 oc m ms)
  show ?case
  proof (cases "msg_role m = Model")
    case False
    obtain ps oc' where ps: "pair_parts oc (msg_parts m) = (ps, oc')" by fastforce
    from pair_parts_again [OF "2.prems"(1) ps] "2.IH"(2) [OF False ps [symmetric]] "2.prems"(2)
    have "pair_messages oc' (pair_messages oc' ms) = pair_messages oc' ms"
      and "pair_parts oc ps = (ps, oc')" by auto
    with False ps show ?thesis by simp
  qed (use 2 in simp)
qed simp

definition blank_result :: "part \<Rightarrow> part" where
  "blank_result p = (case p of ToolResultPart r \<Rightarrow> ToolResultPart (r\<lparr>tr_call_id := []\<rparr>) | _ \<Rightarrow> p)"

lemma pair_parts_blank: "pair_parts oc ps = (qs, oc') \<Longrightarrow> map blank_result qs = map blank_result ps"
  by (induction oc ps arbitrary: qs oc' rule: pair_parts.induct)
     (auto simp: blank_result_def split: prod.splits option.splits)

lemma pair_messages_blank:
  "map (\<lambda>m. m\<lparr>msg_parts := map blank_result (msg_parts m)\<rparr>) (pair_messages oc ms)
     = map (\<lambda>m. m\<lparr>msg_parts := map blank_result (msg_parts m)\<rparr>) ms"
  by (induction oc ms rule: pair_messages.induct) (auto dest: pair_parts_blank split: prod.splits)

text \<open>
  Pairing tool results with their calls is settled after one pass and touches nothing else:
  where the calls of each model turn have ids of their own, pairing a paired conversation changes
  nothing, and a paired conversation differs from the sent one only in the call ids of its results.
\<close>
theorem pairing_settles:
  assumes "\<forall>m \<in> set ms. distinct (map tc_id (message_calls m))"
  shows "paired_tool_results (paired_tool_results ms) = paired_tool_results ms
    \<and> map (\<lambda>m. m\<lparr>msg_parts := map blank_result (msg_parts m)\<rparr>) (paired_tool_results ms)
        = map (\<lambda>m. m\<lparr>msg_parts := map blank_result (msg_parts m)\<rparr>) ms"
  unfolding paired_tool_results_def using pair_messages_again [of "[]" ms] assms
  by (simp add: pair_messages_blank)

text \<open>A call replayed under one id and answered under another, as the Gemini wire has it.\<close>

definition sample_turns :: "message list" where
  "sample_turns =
     [\<lparr>msg_role = Model, msg_parts = [ToolCallPart \<lparr>tc_id = ''c1'', tc_name = ''f'', tc_arguments = [], tc_signature = None\<rparr>]\<rparr>,
      \<lparr>msg_role = User, msg_parts = [ToolResultPart
         \<lparr>tr_call_id = ''x'', tr_name = ''f'', tr_content = ''ok'', tr_attachments = []\<rparr>]\<rparr>]"

lemma pairing_settles_witness:
  "paired_tool_results (paired_tool_results sample_turns) = paired_tool_results sample_turns
   \<and> map message_results (paired_tool_results sample_turns)
       = [[], [\<lparr>tr_call_id = ''c1'', tr_name = ''f'', tr_content = ''ok'', tr_attachments = []\<rparr>]]"
proof -
  have "\<forall>m \<in> set sample_turns. distinct (map tc_id (message_calls m))" by code_simp
  from pairing_settles [OF this]
  have "paired_tool_results (paired_tool_results sample_turns) = paired_tool_results sample_turns" by blast
  moreover have "map message_results (paired_tool_results sample_turns)
       = [[], [\<lparr>tr_call_id = ''c1'', tr_name = ''f'', tr_content = ''ok'', tr_attachments = []\<rparr>]]" by code_simp
  ultimately show ?thesis by blast
qed

end
