(* ===== verification/Catalog.thy ===== *)
theory Catalog
  imports Read_Models Canonical
begin

text \<open>
  What the gateway is allowed to do with a model: the capability vocabulary both planes share
  (\<open>libs/src/aira_common/models.py\<close>), which capability stands in for which kind of request
  (\<open>libs/src/aira_common/fallback.py\<close>), and the catalogue (\<open>gateway/src/aira_gateway/catalog.py\<close>): the
  declaration read from a row, what is asked of it, and one request's memoised view.

  The model table is the list of its rows in the order a query returns them; \<open>model\<close> is its primary key.
\<close>

section \<open>Capabilities\<close>

datatype capability =
    Generate | Embed | StructuredOutput | ThinkingCap | Attachments | Tools | PromptCaching | SpeechCap | Rerank

fun capability_value :: "capability \<Rightarrow> string" where
  "capability_value Generate = ''generate''"
| "capability_value Embed = ''embed''"
| "capability_value StructuredOutput = ''structured_output''"
| "capability_value ThinkingCap = ''thinking''"
| "capability_value Attachments = ''attachments''"
| "capability_value Tools = ''tools''"
| "capability_value PromptCaching = ''prompt_caching''"
| "capability_value SpeechCap = ''speech''"
| "capability_value Rerank = ''rerank''"

definition capability_of :: "string \<Rightarrow> capability option" where
  "capability_of word = List.find (\<lambda>c. capability_value c = word)
     [Generate, Embed, StructuredOutput, ThinkingCap, Attachments, Tools, PromptCaching, SpeechCap, Rerank]"

datatype thinking_mode = Disabled | Limited | Auto

fun mode_value :: "thinking_mode \<Rightarrow> string" where
  "mode_value Disabled = ''disabled''"
| "mode_value Limited = ''limited''"
| "mode_value Auto = ''auto''"

definition mode_of :: "string \<Rightarrow> thinking_mode option" where
  "mode_of word = List.find (\<lambda>m. mode_value m = word) [Disabled, Limited, Auto]"

definition is_control_mode :: "string \<Rightarrow> bool" where
  "is_control_mode word = (mode_of word \<noteq> None)"

definition self_deployed :: string where
  "self_deployed = ''self_deployed''"

definition baseline_capabilities :: "capability set" where
  "baseline_capabilities = {Generate, Embed}"

fun string_of_json :: "json \<Rightarrow> string option" where
  "string_of_json (JStr s) = Some s"
| "string_of_json _ = None"

fun parse_capabilities :: "json option \<Rightarrow> capability set" where
  "parse_capabilities (Some (JList values)) =
     set (List.map_filter (\<lambda>v. Option.bind (string_of_json v) capability_of) values)"
| "parse_capabilities _ = {}"

datatype fallback_kind = KindGenerate | KindEmbed | KindRerank

fun kind_capability :: "fallback_kind \<Rightarrow> capability" where
  "kind_capability KindGenerate = Generate"
| "kind_capability KindEmbed = Embed"
| "kind_capability KindRerank = Rerank"

fun serves :: "fallback_kind \<Rightarrow> capability set" where
  "serves KindGenerate = {Generate, SpeechCap}"
| "serves KindEmbed = {Embed}"
| "serves KindRerank = {Rerank}"

definition can_serve :: "capability set \<Rightarrow> fallback_kind \<Rightarrow> bool" where
  "can_serve capabilities kind = (capabilities \<inter> serves kind \<noteq> {})"

section \<open>Declarations\<close>

definition max_model_name :: nat where "max_model_name = 128"

definition max_accountable_tokens :: int where "max_accountable_tokens = 2 ^ 31 - 1"

definition fallback_attachment_tokens :: int where "fallback_attachment_tokens = 3000"

definition known_attachment_tokens :: "string \<Rightarrow> int option" where
  "known_attachment_tokens =
     map_of [(''image'', 1600), (''application/pdf'', 3000), (''text'', 2000)]"

definition default_attachment_tokens :: "string \<Rightarrow> int" where
  "default_attachment_tokens media_type =
     (case known_attachment_tokens media_type of
        Some n \<Rightarrow> n
      | None \<Rightarrow>
          (case known_attachment_tokens (takeWhile (\<lambda>c. c \<noteq> CHR ''/'') media_type) of
             Some n \<Rightarrow> n
           | None \<Rightarrow> fallback_attachment_tokens))"

record model_declaration =
  d_name :: string
  d_declared :: bool
  d_in_catalog :: bool
  d_approved :: bool
  d_capabilities :: "capability set"
  d_context_window :: "int option"
  d_max_output_tokens :: "int option"
  d_default_max_output_tokens :: "int option"
  d_thinking :: "json_object option"
  d_embedding :: "json_object option"
  d_attachments :: json_object
  d_provider :: string
  d_addressing :: json_object
  d_publisher :: string
  d_platform :: string
  d_hosting :: string
  d_deprecated :: bool
  d_fixed_sampling :: bool
  d_default_sampling :: "json_object option"
  d_numeric_id :: "int option"

definition undeclared :: "string \<Rightarrow> model_declaration" where
  \<comment> \<open>\<open>ModelDeclaration(name=model)\<close>: the defaults of its fields\<close>
  "undeclared model =
     \<lparr>d_name = model, d_declared = False, d_in_catalog = False, d_approved = True,
      d_capabilities = baseline_capabilities, d_context_window = None, d_max_output_tokens = None,
      d_default_max_output_tokens = None, d_thinking = None, d_embedding = None, d_attachments = [],
      d_provider = [], d_addressing = [], d_publisher = [], d_platform = [], d_hosting = [],
      d_deprecated = False, d_fixed_sampling = False, d_default_sampling = None, d_numeric_id = None\<rparr>"

definition block :: "json_object option \<Rightarrow> string \<Rightarrow> json option" where
  \<comment> \<open>\<open>(self.thinking or {}).get(key)\<close>\<close>
  "block b key = Option.bind b (\<lambda>entries. map_of entries key)"

definition regions :: "model_declaration \<Rightarrow> string list" where
  "regions d =
     (let raw = (case map_of (d_addressing d) ''regions'' of
            None \<Rightarrow> JNull | Some v \<Rightarrow> v);
          raw = (if raw = JNull
                 then (case map_of (d_addressing d) ''region'' of Some (JStr s) \<Rightarrow> JList [JStr s] | _ \<Rightarrow> JList [])
                 else raw);
          raw = (case raw of JStr s \<Rightarrow> JList [JStr s] | _ \<Rightarrow> raw)
      in case raw of
           JList vs \<Rightarrow> keep_first (List.filter (\<lambda>s. s \<noteq> [])
             (map py_strip (List.map_filter string_of_json vs)))
         | _ \<Rightarrow> [])"

definition can :: "model_declaration \<Rightarrow> capability \<Rightarrow> bool" where
  "can d c = (c \<in> d_capabilities d)"

definition declared_wire_name :: "model_declaration \<Rightarrow> string" where
  "declared_wire_name d = wire_name (d_name d) (d_addressing d)"

definition is_self_deployed :: "model_declaration \<Rightarrow> bool" where
  "is_self_deployed d = (d_hosting d = self_deployed)"

definition declared_media_types :: "model_declaration \<Rightarrow> string list" where
  "declared_media_types d =
     (case json_object_of (map_of (d_attachments d) ''media_types'') of
        None \<Rightarrow> [] | Some types \<Rightarrow> keep_first (map fst types))"

definition attachment_tokens :: "model_declaration \<Rightarrow> string list \<Rightarrow> int" where
  "attachment_tokens d types =
     (case json_object_of (map_of (d_attachments d) ''media_types'') of
        None \<Rightarrow> 0
      | Some declared \<Rightarrow>
          sum_list (map (\<lambda>media_type.
            (let spec = map_of declared media_type;
                 stated = (case json_object_of spec of None \<Rightarrow> None | Some s \<Rightarrow> json_int (map_of s ''tokens''))
             in case stated of
                  Some n \<Rightarrow> if n > 0 then n else default_attachment_tokens media_type
                | None \<Rightarrow> if spec \<noteq> None then default_attachment_tokens media_type else 0)) types))"

text \<open>
  An entry of \<open>modes\<close> that is itself a list or an object makes the code raise (it cannot be looked up in
  a set); Management writes words only, and here such an entry counts as no mode.
\<close>

definition thinking_modes :: "model_declaration \<Rightarrow> thinking_mode list" where
  "thinking_modes d =
     (case block (d_thinking d) ''modes'' of
        Some (JList ms) \<Rightarrow> keep_first (List.map_filter (\<lambda>m. Option.bind (string_of_json m) mode_of) ms)
      | _ \<Rightarrow> [])"

definition thinking_levels :: "model_declaration \<Rightarrow> string list" where
  "thinking_levels d =
     (case block (d_thinking d) ''levels'' of
        Some (JList ls) \<Rightarrow>
          keep_first (List.filter (\<lambda>s. s \<noteq> []) (map (ascii_lower \<circ> py_strip) (List.map_filter string_of_json ls)))
      | _ \<Rightarrow> [])"

definition offers_thinking :: "model_declaration \<Rightarrow> bool" where
  "offers_thinking d = (thinking_modes d \<noteq> [] \<or> thinking_levels d \<noteq> [])"

definition thinking_bounds :: "model_declaration \<Rightarrow> int option \<times> int option" where
  "thinking_bounds d =
     (json_int (block (d_thinking d) ''min_tokens''), json_int (block (d_thinking d) ''max_tokens''))"

definition thinking_default :: "model_declaration \<Rightarrow> json_object option" where
  "thinking_default d = json_object_of (block (d_thinking d) ''default'')"

text \<open>The declared task types: only words can equal a task type, but every entry counts as declared.\<close>

definition embedding_task_types :: "model_declaration \<Rightarrow> json list" where
  "embedding_task_types d =
     (case block (d_embedding d) ''task_types'' of Some (JList ts) \<Rightarrow> ts | _ \<Rightarrow> [])"

fun truth_value :: "json \<Rightarrow> bool" where
  \<comment> \<open>\<open>bool(value)\<close>\<close>
  "truth_value JNull = False"
| "truth_value (JBool b) = b"
| "truth_value (JInt i) = (i \<noteq> 0)"
| "truth_value (JFloat r) = (r \<noteq> 0)"
| "truth_value (JStr s) = (s \<noteq> [])"
| "truth_value (JList vs) = (vs \<noteq> [])"
| "truth_value (JObj es) = (es \<noteq> [])"

definition supports_batch :: "model_declaration \<Rightarrow> bool" where
  "supports_batch d = (case block (d_embedding d) ''supports_batch'' of None \<Rightarrow> False | Some v \<Rightarrow> truth_value v)"

definition embedding_dimensions :: "model_declaration \<Rightarrow> int list" where
  "embedding_dimensions d =
     (case block (d_embedding d) ''dimensions'' of
        Some (JList vs) \<Rightarrow> keep_first (List.map_filter (\<lambda>v. json_int (Some v)) vs)
      | _ \<Rightarrow> [])"

definition default_dimensions :: "model_declaration \<Rightarrow> int option" where
  "default_dimensions d = json_int (block (d_embedding d) ''default'')"

definition sampling_defaults :: "model_declaration \<Rightarrow> rat option \<times> int option" where
  \<comment> \<open>\<open>top_p\<close> and \<open>top_k\<close>, each only where the control can take it\<close>
  "sampling_defaults d =
     (let top_p = (case block (d_default_sampling d) ''top_p'' of
            Some (JInt i) \<Rightarrow> Some (of_int i) | Some (JFloat r) \<Rightarrow> Some r | _ \<Rightarrow> None)
      in ((case top_p of Some r \<Rightarrow> if 0 < r \<and> r \<le> 1 then Some r else None | None \<Rightarrow> None),
          (case json_int (block (d_default_sampling d) ''top_k'') of
             Some k \<Rightarrow> if k \<ge> 1 then Some k else None | None \<Rightarrow> None)))"

definition output_cap :: "model_declaration \<Rightarrow> int option \<Rightarrow> int option" where
  "output_cap d requested = (if requested \<noteq> None then requested else d_default_max_output_tokens d)"

section \<open>The catalogue\<close>

definition is_lookupable :: "string \<Rightarrow> bool" where
  "is_lookupable model =
     (model \<noteq> [] \<and> length model \<le> max_model_name
      \<and> \<not> list_ex (\<lambda>c. (of_char c :: nat) < 0x20 \<or> (of_char c :: nat) = 0x7F) model)"

definition from_record :: "string \<Rightarrow> model_read \<Rightarrow> model_declaration" where
  "from_record model row =
     (let capabilities = parse_capabilities (m_capabilities row); declared = (capabilities \<noteq> {})
      in \<lparr>d_name = model, d_declared = declared, d_in_catalog = True, d_approved = m_approved row,
          d_capabilities = (if declared then capabilities else baseline_capabilities),
          d_context_window = m_context_window row, d_max_output_tokens = m_max_output_tokens row,
          d_default_max_output_tokens = m_default_max_output_tokens row,
          d_thinking = json_object_of (m_thinking row), d_embedding = json_object_of (m_embedding row),
          d_attachments = (case json_object_of (m_attachments row) of None \<Rightarrow> [] | Some o' \<Rightarrow> o'),
          d_provider = m_provider row,
          d_addressing = (case json_object_of (m_addressing row) of None \<Rightarrow> [] | Some o' \<Rightarrow> o'),
          d_publisher = m_publisher row, d_platform = m_platform row, d_hosting = m_hosting row,
          d_deprecated = m_deprecated row, d_fixed_sampling = m_fixed_sampling row,
          d_default_sampling = json_object_of (m_default_sampling row), d_numeric_id = m_numeric_id row\<rparr>)"

definition declared_model :: "model_read list \<Rightarrow> string \<Rightarrow> model_declaration" where
  "declared_model rows model =
     (if \<not> is_lookupable model then undeclared model
      else case List.find (\<lambda>row. m_model row = model) rows of
             None \<Rightarrow> undeclared model
           | Some row \<Rightarrow> from_record model row)"

definition catalogued :: "model_read list \<Rightarrow> model_declaration list" where
  "catalogued rows = map (\<lambda>row. from_record (m_model row) row) rows"

datatype catalog_error = AmbiguousModelId int "string list"

definition by_numeric_id :: "model_read list \<Rightarrow> int \<Rightarrow> catalog_error + string option" where
  \<comment> \<open>the names of an ambiguous id as the query returns them (the error sorts them)\<close>
  "by_numeric_id rows n =
     (case map m_model (List.filter (\<lambda>row. m_numeric_id row = Some n) rows) of
        [] \<Rightarrow> Inr None
      | [name] \<Rightarrow> Inr (Some name)
      | names \<Rightarrow> Inl (AmbiguousModelId n names))"

text \<open>One request's view: every model is read once.\<close>

type_synonym catalog_view = "string \<Rightarrow> model_declaration option"

definition per_request :: catalog_view where
  "per_request = Map.empty"

definition memo_declaration :: "model_read list \<Rightarrow> catalog_view \<Rightarrow> string \<Rightarrow> model_declaration \<times> catalog_view" where
  "memo_declaration rows seen model =
     (case seen model of
        Some d \<Rightarrow> (d, seen)
      | None \<Rightarrow> let d = declared_model rows model in (d, seen(model \<mapsto> d)))"

fun memo_answers :: "catalog_view \<Rightarrow> (model_read list \<times> string) list \<Rightarrow> model_declaration list" where
  \<comment> \<open>the questions of one request in order, each with the table as it is by then\<close>
  "memo_answers seen [] = []"
| "memo_answers seen ((rows, model) # asks) =
     (case memo_declaration rows seen model of (d, seen') \<Rightarrow> d # memo_answers seen' asks)"

section \<open>Facts\<close>

lemma declaration_name [simp]: "d_name (declared_model rows model) = model"
  by (simp add: declared_model_def undeclared_def from_record_def Let_def split: option.split)

lemma distinct_regions [simp]: "distinct (regions d)"
  unfolding regions_def Let_def by (auto split: json.split)

lemma undeclared_capabilities:
  "\<not> d_declared (declared_model rows model) \<Longrightarrow> d_capabilities (declared_model rows model) = baseline_capabilities"
  by (auto simp: declared_model_def undeclared_def from_record_def Let_def split: option.splits if_splits)

lemma uncatalogued_undeclared:
  "\<not> d_in_catalog (declared_model rows model) \<Longrightarrow> declared_model rows model = undeclared model"
  by (auto simp: declared_model_def from_record_def Let_def split: option.splits if_splits)

lemma memo_answers_seen:
  assumes "seen model = Some d" "i < length asks" "snd (asks ! i) = model"
  shows "memo_answers seen asks ! i = d"
  using assms
proof (induction asks arbitrary: seen i)
  case (Cons ask asks)
  obtain rows m where ask: "ask = (rows, m)" by fastforce
  obtain a seen' where memo: "memo_declaration rows seen m = (a, seen')" by fastforce
  have kept: "seen' model = Some d"
    using memo Cons.prems(1) by (auto simp: memo_declaration_def Let_def split: option.splits)
  show ?case
  proof (cases i)
    case 0
    with Cons.prems ask memo show ?thesis by (auto simp: memo_declaration_def)
  next
    case (Suc j)
    with Cons.prems kept Cons.IH [of seen' j] ask memo show ?thesis by simp
  qed
qed simp

lemma length_memo_answers [simp]: "length (memo_answers seen asks) = length asks"
  by (induction seen asks rule: memo_answers.induct) (auto split: prod.splits)

lemma memo_answers_agree:
  "i < j \<Longrightarrow> j < length asks \<Longrightarrow> snd (asks ! i) = snd (asks ! j) \<Longrightarrow>
     memo_answers seen asks ! i = memo_answers seen asks ! j"
proof (induction asks arbitrary: seen i j)
  case (Cons ask asks)
  obtain rows m where ask: "ask = (rows, m)" by fastforce
  obtain a seen' where memo: "memo_declaration rows seen m = (a, seen')" by fastforce
  obtain k where j: "j = Suc k" using Cons.prems(1) by (cases j) auto
  show ?case
  proof (cases i)
    case 0
    have "seen' m = Some a" using memo by (auto simp: memo_declaration_def Let_def split: option.splits)
    from memo_answers_seen [of seen' m a k asks, OF this] 0 Cons.prems ask memo j show ?thesis by simp
  next
    case (Suc l)
    with Cons.prems Cons.IH [of l k seen'] ask memo j show ?thesis by simp
  qed
qed simp

text \<open>
  Every check of one request decides about the same declaration: whatever the catalogue becomes
  while a request is served, all its questions about one model get the answer the first of them got.
\<close>
theorem one_declaration_per_request:
  assumes "i < j" "j < length asks" "snd (asks ! i) = snd (asks ! j)"
  shows "memo_answers per_request asks ! i = memo_answers per_request asks ! j"
  using assms by (rule memo_answers_agree)

text \<open>A model catalogued between two questions stays unknown to the request that asked first.\<close>

definition sample_model :: model_read where
  "sample_model = \<lparr>m_model = ''m'', m_approved = True, m_display_name = [], m_provider = ''vertex'',
     m_input_price_per_million_nanos = None, m_output_price_per_million_nanos = None,
     m_cached_input_price_per_million_nanos = None, m_cache_write_price_per_million_nanos = None,
     m_long_context_threshold = None, m_long_context_input_price_per_million_nanos = None,
     m_long_context_output_price_per_million_nanos = None,
     m_long_context_cached_input_price_per_million_nanos = None,
     m_long_context_cache_write_price_per_million_nanos = None,
     m_capabilities = Some (JList [JStr ''generate'']), m_publisher = [], m_platform = [], m_addressing = None,
     m_underlying_model = [], m_context_window = None, m_max_output_tokens = None,
     m_default_max_output_tokens = None, m_thinking = None, m_embedding = None, m_attachments = None,
     m_hosting = ''managed'', m_deprecated = False, m_fixed_sampling = False, m_default_sampling = None,
     m_numeric_id = None\<rparr>"

lemma one_declaration_per_request_witness:
  "\<not> d_in_catalog (memo_answers per_request [([], ''m''), ([sample_model], ''m'')] ! 1)
   \<and> d_in_catalog (declared_model [sample_model] ''m'')"
proof -
  have "memo_answers per_request [([], ''m''), ([sample_model], ''m'')] ! 0 = undeclared ''m''"
    and "d_in_catalog (declared_model [sample_model] ''m'')" and "\<not> d_in_catalog (undeclared ''m'')"
    by code_simp+
  with one_declaration_per_request [of 0 1 "[([], ''m''), ([sample_model], ''m'')]"]
  show ?thesis by simp
qed

end
