(* ===== verification/Thinking_Settings.thy ===== *)
theory Thinking_Settings
  imports Catalog
begin

text \<open>
  Resolving a thinking setting against the model that will serve it (\<open>gateway/src/aira_gateway/thinking.py\<close>).
  A rejection is a constructor that carries the values its sentence names; \<open>thinking_code\<close> is the code
  the caller switches on.
\<close>

section \<open>The setting\<close>

definition max_mode_length :: nat where "max_mode_length = 32"

datatype thinking_rejected =
    ModeNotAWord
  | ModeNotOffered string string "string list"
  | TokensNotTaken string
  | TokensMissing
  | TokensNotPositive int
  | TokensBelow int int
  | TokensAbove int int
  | TokensUnaccountable int
  | BudgetFillsAllowance int int

fun thinking_code :: "thinking_rejected \<Rightarrow> string" where
  "thinking_code ModeNotAWord = ''INVALID_THINKING_MODE''"
| "thinking_code (ModeNotOffered _ _ _) = ''INVALID_THINKING_MODE''"
| "thinking_code (TokensNotTaken _) = ''UNEXPECTED_THINKING_TOKEN_COUNT''"
| "thinking_code TokensMissing = ''MISSING_THINKING_TOKEN_COUNT''"
| "thinking_code (TokensNotPositive _) = ''THINKING_TOKEN_COUNT_TOO_LOW''"
| "thinking_code (TokensBelow _ _) = ''THINKING_TOKEN_COUNT_TOO_LOW''"
| "thinking_code (TokensAbove _ _) = ''THINKING_TOKEN_COUNT_TOO_HIGH''"
| "thinking_code (TokensUnaccountable _) = ''THINKING_TOKEN_COUNT_TOO_HIGH''"
| "thinking_code (BudgetFillsAllowance _ _) = ''THINKING_TOKEN_COUNT_TOO_HIGH''"

definition mode_from :: "string \<Rightarrow> thinking_rejected + string" where
  "mode_from raw =
     (let mode = ascii_lower (py_strip raw)
      in if mode = [] \<or> length mode > max_mode_length then Inl ModeNotAWord else Inr mode)"

definition default_for :: "model_declaration \<Rightarrow> thinking option" where
  "default_for d =
     (case thinking_default d of
        None \<Rightarrow> None
      | Some dflt \<Rightarrow>
          (case map_of dflt ''mode'' of
             Some (JStr mode) \<Rightarrow>
               if py_strip mode = [] then None
               else Some \<lparr>th_mode = ascii_lower (py_strip mode), th_tokens = json_int (map_of dflt ''tokens'')\<rparr>
           | _ \<Rightarrow> None))"

definition offered_modes :: "model_declaration \<Rightarrow> string list" where
  "offered_modes d = map mode_value (thinking_modes d) @ thinking_levels d"

definition limited_budget :: "int option \<Rightarrow> model_declaration \<Rightarrow> thinking_rejected + int" where
  "limited_budget tokens d =
     (case tokens of
        None \<Rightarrow> Inl TokensMissing
      | Some n \<Rightarrow>
          if n < 1 then Inl (TokensNotPositive n)
          else (case thinking_bounds d of (minimum, maximum) \<Rightarrow>
            if (case minimum of None \<Rightarrow> False | Some lo \<Rightarrow> n < lo) then Inl (TokensBelow n (the minimum))
            else if (case maximum of None \<Rightarrow> False | Some hi \<Rightarrow> n > hi) then Inl (TokensAbove n (the maximum))
            else if n > max_accountable_tokens then Inl (TokensUnaccountable n)
            else Inr n))"

definition validated :: "thinking \<Rightarrow> model_declaration \<Rightarrow> thinking_rejected + thinking option" where
  "validated requested d =
     (let mode = th_mode requested in
      if mode = mode_value Disabled \<and> \<not> offers_thinking d
      then (if th_tokens requested \<noteq> None then Inl (TokensNotTaken mode) else Inr None)
      else if \<not> can d ThinkingCap \<or> mode \<notin> set (offered_modes d)
      then Inl (ModeNotOffered (d_name d) mode (offered_modes d))
      else if mode \<noteq> mode_value Limited \<and> th_tokens requested \<noteq> None then Inl (TokensNotTaken mode)
      else if mode = mode_value Limited
      then sum_bind (limited_budget (th_tokens requested) d)
             (\<lambda>n. Inr (Some \<lparr>th_mode = mode, th_tokens = Some n\<rparr>))
      else Inr (Some \<lparr>th_mode = mode, th_tokens = None\<rparr>))"

definition resolve_thinking :: "thinking option \<Rightarrow> model_declaration \<Rightarrow> thinking_rejected + thinking option" where
  "resolve_thinking requested d =
     (case requested of None \<Rightarrow> Inr (default_for d) | Some r \<Rightarrow> validated r d)"

definition for_a_classifier :: "model_declaration \<Rightarrow> thinking_rejected + thinking option" where
  "for_a_classifier d =
     (if Disabled \<notin> set (thinking_modes d) then Inr None
      else resolve_thinking (Some \<lparr>th_mode = mode_value Disabled, th_tokens = None\<rparr>) d)"

definition check_budget_fits :: "thinking option \<Rightarrow> int option \<Rightarrow> thinking_rejected + unit" where
  "check_budget_fits setting allowance =
     (case setting of
        None \<Rightarrow> Inr ()
      | Some s \<Rightarrow>
          if th_mode s \<noteq> mode_value Limited then Inr ()
          else (case (th_tokens s, allowance) of
                  (Some n, Some c) \<Rightarrow> if n \<ge> c then Inl (BudgetFillsAllowance n c) else Inr ()
                | _ \<Rightarrow> Inr ()))"

definition reserved_tokens :: "thinking option \<Rightarrow> model_declaration \<Rightarrow> int" where
  "reserved_tokens setting d =
     (case setting of
        None \<Rightarrow> 0
      | Some s \<Rightarrow>
          if th_mode s = mode_value Disabled then 0
          else if th_mode s = mode_value Limited then (case th_tokens s of None \<Rightarrow> 0 | Some n \<Rightarrow> n)
          else (case snd (thinking_bounds d) of None \<Rightarrow> 0 | Some n \<Rightarrow> n))"

datatype thinking_refusal =
    NoSuchThinking bool string
  | BudgetOutside "int option" "int option" int

definition permitted_by :: "thinking option \<Rightarrow> model_declaration \<Rightarrow> thinking_refusal option" where
  "permitted_by setting d =
     (case setting of
        None \<Rightarrow> None
      | Some s \<Rightarrow>
          if th_mode s = mode_value Disabled then None
          else if \<not> can d ThinkingCap \<or> th_mode s \<notin> set (offered_modes d)
          then Some (NoSuchThinking (d_declared d) (th_mode s))
          else if th_mode s = mode_value Limited
          then (case th_tokens s of
                  None \<Rightarrow> None
                | Some n \<Rightarrow> (case thinking_bounds d of (minimum, maximum) \<Rightarrow>
                    if (case minimum of None \<Rightarrow> False | Some lo \<Rightarrow> n < lo)
                       \<or> (case maximum of None \<Rightarrow> False | Some hi \<Rightarrow> n > hi)
                    then Some (BudgetOutside minimum maximum n) else None))
          else None)"

section \<open>What a resolved setting is worth\<close>

lemma limited_budget_bounds:
  assumes "limited_budget tokens d = Inr n"
  shows "tokens = Some n \<and> 1 \<le> n \<and> n \<le> max_accountable_tokens
    \<and> (\<forall>lo. fst (thinking_bounds d) = Some lo \<longrightarrow> lo \<le> n) \<and> (\<forall>hi. snd (thinking_bounds d) = Some hi \<longrightarrow> n \<le> hi)"
  using assms by (auto simp: limited_budget_def split: option.splits prod.splits if_splits)

definition servable :: "thinking \<Rightarrow> model_declaration \<Rightarrow> bool" where
  \<comment> \<open>what a model is asked for is something it offers, within every bound\<close>
  "servable s d \<longleftrightarrow>
     can d ThinkingCap \<and> th_mode s \<in> set (offered_modes d)
     \<and> (if th_mode s = mode_value Limited
        then (case th_tokens s of
                None \<Rightarrow> False
              | Some n \<Rightarrow> 1 \<le> n \<and> n \<le> max_accountable_tokens
                  \<and> (\<forall>lo. fst (thinking_bounds d) = Some lo \<longrightarrow> lo \<le> n)
                  \<and> (\<forall>hi. snd (thinking_bounds d) = Some hi \<longrightarrow> n \<le> hi))
        else th_tokens s = None)"

lemma validated_servable: "validated s d = Inr (Some r) \<Longrightarrow> r = s \<and> servable s d"
  by (cases s) (auto simp: validated_def servable_def Let_def sum_bind_Inr_iff
      dest!: limited_budget_bounds split: if_splits)

text \<open>
  A setting the caller named is sent as it was named or refused, and only where the model offers
  it: resolved, it is the caller's own, its mode is one the model declares, a budget is between one
  token and the model's and the gateway's ceilings, and no other mode carries a budget.
\<close>
theorem resolved_thinking_is_the_callers:
  assumes "resolve_thinking (Some s) d = Inr (Some r)"
  shows "r = s \<and> servable s d"
  using assms validated_servable by (simp add: resolve_thinking_def)

text \<open>A model that thinks within a budget of 128 to 1000 tokens, or at the vendor's own level.\<close>

definition thinker :: model_declaration where
  "thinker = (undeclared ''t'')\<lparr>d_declared := True, d_in_catalog := True, d_capabilities := {Generate, ThinkingCap},
     d_thinking := Some [(''modes'', JList [JStr ''limited'']), (''levels'', JList [JStr ''high'']),
       (''min_tokens'', JInt 128), (''max_tokens'', JInt 1000)]\<rparr>"

lemma resolved_thinking_is_the_callers_witness:
  "servable \<lparr>th_mode = ''limited'', th_tokens = Some 500\<rparr> thinker"
proof -
  have "resolve_thinking (Some \<lparr>th_mode = ''limited'', th_tokens = Some 500\<rparr>) thinker
      = Inr (Some \<lparr>th_mode = ''limited'', th_tokens = Some 500\<rparr>)" by code_simp
  from resolved_thinking_is_the_callers [OF this] show ?thesis by blast
qed

lemma validated_iff_permitted:
  assumes "th_mode s \<noteq> mode_value Disabled"
    and "if th_mode s = mode_value Limited then \<exists>n. th_tokens s = Some n \<and> 1 \<le> n \<and> n \<le> max_accountable_tokens
         else th_tokens s = None"
  shows "validated s d = Inr (Some s) \<longleftrightarrow> permitted_by (Some s) d = None"
  using assms
  by (cases s) (auto simp: validated_def permitted_by_def Let_def sum_bind_Inr_iff limited_budget_def
      split: if_splits option.splits prod.splits)

text \<open>
  The condition a chain asks of a candidate and the resolution that fits it agree: a setting some
  model accepted (anything but switching thinking off) is permitted at another model exactly where
  resolving it there succeeds, and then it is sent there unchanged. No stand-in thinks less than was
  asked for.
\<close>
theorem chain_and_resolution_agree_on_thinking:
  assumes "resolve_thinking (Some s) d0 = Inr (Some r)" and "th_mode s \<noteq> mode_value Disabled"
  shows "permitted_by (Some s) d = None \<longleftrightarrow> resolve_thinking (Some s) d = Inr (Some s)"
proof -
  from assms have "servable s d0" by (simp add: resolve_thinking_def validated_servable)
  with assms(2) have "validated s d = Inr (Some s) \<longleftrightarrow> permitted_by (Some s) d = None"
    by (intro validated_iff_permitted) (auto simp: servable_def split: if_splits option.splits)
  then show ?thesis by (simp add: resolve_thinking_def)
qed

lemma chain_and_resolution_agree_on_thinking_witness:
  "permitted_by (Some \<lparr>th_mode = ''high'', th_tokens = None\<rparr>) (undeclared ''m'') \<noteq> None
   \<and> resolve_thinking (Some \<lparr>th_mode = ''high'', th_tokens = None\<rparr>) (undeclared ''m'')
       \<noteq> Inr (Some \<lparr>th_mode = ''high'', th_tokens = None\<rparr>)"
proof -
  have resolved: "resolve_thinking (Some \<lparr>th_mode = ''high'', th_tokens = None\<rparr>) thinker
      = Inr (Some \<lparr>th_mode = ''high'', th_tokens = None\<rparr>)" by code_simp
  have mode: "th_mode \<lparr>th_mode = ''high'', th_tokens = None\<rparr> \<noteq> mode_value Disabled" by simp
  have "permitted_by (Some \<lparr>th_mode = ''high'', th_tokens = None\<rparr>) (undeclared ''m'') \<noteq> None"
    by code_simp
  with chain_and_resolution_agree_on_thinking [OF resolved mode, of "undeclared ''m''"] show ?thesis by simp
qed

lemma reserved_covers_budget:
  "servable s d \<Longrightarrow> th_mode s = mode_value Limited \<Longrightarrow> th_tokens s = Some (reserved_tokens (Some s) d)"
  by (auto simp: servable_def reserved_tokens_def split: if_splits option.splits)

text \<open>
  C40: A pipeline step asking what to tell its model about thinking raises, contrary to its promise to
  answer, exactly for a model whose declaration lists the mode \<open>disabled\<close> without the thinking
  capability (which Management accepts); for every other model it answers, with at most a plain off.
\<close>
theorem classifier_thinking_raises_iff:
  "for_a_classifier d =
     (if Disabled \<notin> set (thinking_modes d) then Inr None
      else if can d ThinkingCap then Inr (Some \<lparr>th_mode = ''disabled'', th_tokens = None\<rparr>)
      else Inl (ModeNotOffered (d_name d) ''disabled'' (offered_modes d)))"
proof (cases "Disabled \<in> set (thinking_modes d)")
  case True
  then have "offers_thinking d" and "''disabled'' \<in> set (offered_modes d)"
    by (force simp: offers_thinking_def offered_modes_def image_iff)+
  with True show ?thesis by (simp add: for_a_classifier_def resolve_thinking_def validated_def Let_def)
qed (simp add: for_a_classifier_def)

end
