(* ===== verification/Embeddings.thy ===== *)
theory Embeddings
  imports Catalog
begin

text \<open>
  Validating an embedding request against the model that will serve it
  (\<open>gateway/src/aira_gateway/embedding.py\<close>), and how a stand-in on its fallback chain is held to it
  (\<open>embedding_fit\<close> of \<open>gateway/src/aira_gateway/api/serving/fallbacks.py\<close>). A rejection carries the values
  its sentence names. The digest of the stored vectors (\<open>describe_vectors\<close>) is SHA-256 and not modelled.
\<close>

section \<open>Validation\<close>

definition task_types :: "string list" where
  "task_types = [''RETRIEVAL_QUERY'', ''RETRIEVAL_DOCUMENT'', ''SEMANTIC_SIMILARITY'', ''CLASSIFICATION'',
     ''CLUSTERING'', ''CODE_RETRIEVAL_QUERY'', ''QUESTION_ANSWERING'', ''FACT_VERIFICATION'']"

definition default_task_type :: string where
  "default_task_type = ''RETRIEVAL_QUERY''"

datatype embedding_rejected =
    NoEmbedding string
  | EmptyInput
  | BatchTooLarge nat nat
  | TextTooLong nat nat
  | NoBatch string
  | UnknownTaskType string
  | NoTaskTypes string string
  | TaskTypeUnsupported string string
  | NoDimensions string int
  | DimensionsUnsupported string "int list" int

fun embedding_code :: "embedding_rejected \<Rightarrow> string" where
  "embedding_code (NoEmbedding _) = ''NO_EMBEDDING_CAPABILITIES''"
| "embedding_code EmptyInput = ''EMPTY_EMBEDDING_INPUT''"
| "embedding_code (BatchTooLarge _ _) = ''EMBEDDING_BOUND_EXCEEDED''"
| "embedding_code (TextTooLong _ _) = ''EMBEDDING_BOUND_EXCEEDED''"
| "embedding_code (NoBatch _) = ''EMBEDDING_AGGREGATION_NOT_SUPPORTED''"
| "embedding_code (UnknownTaskType _) = ''INVALID_EMBEDDING_TASK_TYPE''"
| "embedding_code (NoTaskTypes _ _) = ''INVALID_EMBEDDING_TASK_TYPE''"
| "embedding_code (TaskTypeUnsupported _ _) = ''INVALID_EMBEDDING_TASK_TYPE''"
| "embedding_code (NoDimensions _ _) = ''INVALID_EMBEDDING_DIMENSIONS''"
| "embedding_code (DimensionsUnsupported _ _ _) = ''INVALID_EMBEDDING_DIMENSIONS''"

record embedding_bounds =
  eb_max_batch :: nat
  eb_max_total_chars :: nat

definition standard_bounds :: embedding_bounds where
  "standard_bounds = \<lparr>eb_max_batch = 256, eb_max_total_chars = 1000000\<rparr>"

definition check_shape :: "embedding_request \<Rightarrow> embedding_bounds \<Rightarrow> embedding_rejected + unit" where
  "check_shape e bounds =
     (if em_texts e = [] \<or> list_ex (\<lambda>t. py_strip t = []) (em_texts e) then Inl EmptyInput
      else if length (em_texts e) > eb_max_batch bounds
      then Inl (BatchTooLarge (length (em_texts e)) (eb_max_batch bounds))
      else let total = sum_list (map length (em_texts e)) in
           if total > eb_max_total_chars bounds then Inl (TextTooLong total (eb_max_total_chars bounds))
           else Inr ())"

definition task_type_for :: "string option \<Rightarrow> model_declaration \<Rightarrow> string option \<Rightarrow> embedding_rejected + string option" where
  "task_type_for requested d dflt =
     (let declared = embedding_task_types d in
      case requested of
        None \<Rightarrow> Inr (case dflt of None \<Rightarrow> None | Some t \<Rightarrow> if JStr t \<in> set declared then Some t else None)
      | Some raw \<Rightarrow>
          let normalised = ascii_upper (py_strip raw) in
          if normalised \<notin> set task_types then Inl (UnknownTaskType raw)
          else if declared = [] then Inl (NoTaskTypes (d_name d) normalised)
          else if JStr normalised \<notin> set declared then Inl (TaskTypeUnsupported (d_name d) normalised)
          else Inr (Some normalised))"

definition dimensions_for :: "int option \<Rightarrow> model_declaration \<Rightarrow> embedding_rejected + int option" where
  "dimensions_for requested d =
     (case requested of
        None \<Rightarrow> Inr (default_dimensions d)
      | Some n \<Rightarrow>
          if embedding_dimensions d = [] then Inl (NoDimensions (d_name d) n)
          else if n \<notin> set (embedding_dimensions d)
          then Inl (DimensionsUnsupported (d_name d) (embedding_dimensions d) n)
          else Inr (Some n))"

definition validate_embedding ::
  "embedding_request \<Rightarrow> model_declaration \<Rightarrow> embedding_bounds \<Rightarrow> string option
     \<Rightarrow> embedding_rejected + embedding_request" where
  "validate_embedding e d bounds dflt =
     (if \<not> can d Embed then Inl (NoEmbedding (d_name d))
      else sum_bind (check_shape e bounds) (\<lambda>_.
        if length (em_texts e) > 1 \<and> \<not> supports_batch d then Inl (NoBatch (d_name d))
        else sum_bind (task_type_for (em_task_type e) d dflt) (\<lambda>task.
          sum_bind (dimensions_for (em_dimensions e) d) (\<lambda>width.
            Inr (e\<lparr>em_task_type := task, em_dimensions := width\<rparr>)))))"

section \<open>A stand-in on the chain\<close>

datatype unfit_embedding =
    WidthUndeclared string
  | TaskIsAPrompt string
  | NotValid embedding_rejected

definition embedding_fit ::
  "(string \<Rightarrow> model_declaration) \<Rightarrow> embedding_bounds \<Rightarrow> embedding_request \<Rightarrow> embedding_request
     \<Rightarrow> unfit_embedding + embedding_request" where
  "embedding_fit catalog bounds asked addressed =
     (if rq_model addressed = rq_model asked then Inr addressed
      else if em_dimensions asked = None then Inl (WidthUndeclared (rq_model asked))
      else let d = catalog (rq_model addressed) in
        if em_task_in_text asked \<and> declared_wire_name d \<noteq> declared_wire_name (catalog (rq_model asked))
        then Inl (TaskIsAPrompt (rq_model asked))
        else (case validate_embedding addressed d bounds None of
                Inl e \<Rightarrow> Inl (NotValid e)
              | Inr fitted \<Rightarrow> Inr (fitted\<lparr>rq_addressing := d_addressing d\<rparr>)))"

section \<open>What a served embedding is\<close>

lemma dimensions_forD:
  "dimensions_for requested d = Inr width \<Longrightarrow>
     (requested \<noteq> None \<longrightarrow> width = requested \<and> the requested \<in> set (embedding_dimensions d))
     \<and> (requested = None \<longrightarrow> width = default_dimensions d)"
  by (auto simp: dimensions_for_def split: option.splits if_splits)

lemma task_type_forD:
  "task_type_for requested d dflt = Inr (Some task) \<Longrightarrow> JStr task \<in> set (embedding_task_types d)"
  by (auto simp: task_type_for_def Let_def split: option.splits if_splits)

text \<open>
  A stand-in gives vectors of the width the caller's index takes: whatever a candidate other than
  the model asked for is sent keeps the texts and the width of the validated request, the width is one
  the candidate declares, its task type is one the candidate declares, a batch goes only to a model
  that takes one, and it is addressed where the candidate is.
\<close>
theorem stand_in_keeps_the_width:
  assumes "embedding_fit catalog bounds asked (asked\<lparr>rq_model := model, rq_addressing := there\<rparr>) = Inr sent"
    and "model \<noteq> rq_model asked"
  shows "rq_model sent = model \<and> em_texts sent = em_texts asked \<and> rq_addressing sent = d_addressing (catalog model)
    \<and> (\<exists>width. em_dimensions asked = Some width \<and> em_dimensions sent = Some width
         \<and> width \<in> set (embedding_dimensions (catalog model)))
    \<and> can (catalog model) Embed
    \<and> (\<forall>task. em_task_type sent = Some task \<longrightarrow> JStr task \<in> set (embedding_task_types (catalog model)))
    \<and> (1 < length (em_texts asked) \<longrightarrow> supports_batch (catalog model))"
proof -
  let ?d = "catalog model"
  from assms obtain width where width: "em_dimensions asked = Some width"
    by (auto simp: embedding_fit_def split: if_splits)
  with assms obtain fitted where valid:
      "validate_embedding (asked\<lparr>rq_model := model, rq_addressing := there\<rparr>) ?d bounds None = Inr fitted"
    and sent: "sent = fitted\<lparr>rq_addressing := d_addressing ?d\<rparr>"
    by (auto simp: embedding_fit_def Let_def split: if_splits sum.splits)
  from valid obtain task w where fitted: "fitted = asked\<lparr>rq_model := model, rq_addressing := there,
        em_task_type := task, em_dimensions := w\<rparr>"
    and "task_type_for (em_task_type asked) ?d None = Inr task"
    and "dimensions_for (em_dimensions asked) ?d = Inr w"
    and "can ?d Embed" and "1 < length (em_texts asked) \<longrightarrow> supports_batch ?d"
    by (auto simp: validate_embedding_def sum_bind_Inr_iff split: if_splits)
  with width task_type_forD [of "em_task_type asked" ?d None] dimensions_forD [of "em_dimensions asked" ?d w]
  show ?thesis by (auto simp: sent)
qed

text \<open>An index 768 wide, and a stand-in that declares 768 and 1536.\<close>

definition embedder :: "string \<Rightarrow> model_declaration" where
  "embedder model = (undeclared model)\<lparr>d_declared := True, d_in_catalog := True, d_capabilities := {Embed},
     d_embedding := Some [(''dimensions'', JList [JInt 768, JInt 1536]), (''default'', JInt 768)],
     d_addressing := [(''region'', JStr ''eu'')]\<rparr>"

definition sample_embedding :: embedding_request where
  "sample_embedding = \<lparr>rq_model = ''a'', rq_addressing = [], em_texts = [''t''], em_task_type = None,
     em_dimensions = Some 768, em_aggregate = False, em_task_in_text = False\<rparr>"

lemma stand_in_keeps_the_width_witness:
  "\<exists>sent. embedding_fit embedder \<lparr>eb_max_batch = 4, eb_max_total_chars = 10\<rparr> sample_embedding (sample_embedding\<lparr>rq_model := ''b'', rq_addressing := []\<rparr>)
       = Inr sent \<and> em_dimensions sent = Some 768"
proof -
  have "embedding_fit embedder \<lparr>eb_max_batch = 4, eb_max_total_chars = 10\<rparr> sample_embedding (sample_embedding\<lparr>rq_model := ''b'', rq_addressing := []\<rparr>)
      = Inr (sample_embedding\<lparr>rq_model := ''b'', rq_addressing := [(''region'', JStr ''eu'')]\<rparr>)"
    by code_simp
  from this stand_in_keeps_the_width [OF this] show ?thesis by (auto simp: sample_embedding_def)
qed

lemma validate_embedding_again:
  "validate_embedding e d bounds dflt = Inr e' \<Longrightarrow> em_dimensions e \<noteq> None \<Longrightarrow> em_dimensions e' = em_dimensions e"
  by (auto simp: validate_embedding_def sum_bind_Inr_iff split: if_splits dest!: dimensions_forD)

end
