(* ===== verification/Upstreams.thy ===== *)
theory Upstreams
  imports Canonical
begin

text \<open>
  Where requests may be processed (\<open>gateway/src/aira_gateway/residency.py\<close>) and which adapter serves
  which model (\<open>ProviderRegistry\<close> and the classification of in-stream errors of
  \<open>gateway/src/aira_gateway/upstreams/base.py\<close>). An adapter is the record of what it declares; what it
  answers when called is a parameter of the chains that call it.
\<close>

section \<open>Residency\<close>

definition eu_regions_google :: "string list" where
  "eu_regions_google = [''eu'', ''europe-west1'', ''europe-west3'', ''europe-west4'', ''europe-north1'']"

definition eu_regions_azure :: "string list" where
  "eu_regions_azure = [''westeurope'', ''northeurope'', ''germanywestcentral'', ''swedencentral'', ''francecentral'']"

definition default_allowed_regions :: "string list" where
  "default_allowed_regions = eu_regions_google @ eu_regions_azure"

fun split_on :: "char \<Rightarrow> string \<Rightarrow> string list" where
  \<comment> \<open>\<open>text.split(sep)\<close>\<close>
  "split_on sep [] = [[]]"
| "split_on sep (c # cs) =
     (if c = sep then [] # split_on sep cs
      else case split_on sep cs of [] \<Rightarrow> [[c]] | w # ws \<Rightarrow> (c # w) # ws)"

definition stripped_words :: "char \<Rightarrow> string \<Rightarrow> string list" where
  "stripped_words sep text = List.filter (\<lambda>w. w \<noteq> []) (map py_strip (split_on sep text))"

definition parse_allowed :: "string \<Rightarrow> string list" where
  "parse_allowed configured =
     (case stripped_words CHR '','' configured of [] \<Rightarrow> default_allowed_regions | rs \<Rightarrow> rs)"

definition model_region_entry :: "string \<Rightarrow> (string \<times> string list) option" where
  \<comment> \<open>one \<open>region=model,model\<close>; \<open>None\<close> is malformed\<close>
  "model_region_entry entry =
     (let region = takeWhile (\<lambda>c. c \<noteq> CHR ''='') entry; rest = drop (length region) entry;
          names = stripped_words CHR '','' (tl rest)
      in if rest = [] \<or> py_strip region = [] \<or> names = [] then None else Some (py_strip region, names))"

fun parse_model_regions :: "string list \<Rightarrow> string + (string \<times> string) list" where
  \<comment> \<open>over the stripped entries that are not empty; the result lists which (model, region) is permitted\<close>
  "parse_model_regions [] = Inr []"
| "parse_model_regions (entry # entries) =
     (case model_region_entry entry of
        None \<Rightarrow> Inl entry
      | Some (region, names) \<Rightarrow>
          sum_bind (parse_model_regions entries) (\<lambda>rest. Inr (map (\<lambda>name. (name, region)) names @ rest)))"

definition allowed_model_regions :: "string \<Rightarrow> string + (string \<times> string) list" where
  "allowed_model_regions configured = parse_model_regions (stripped_words CHR '';'' configured)"

definition region_permitted :: "string list \<Rightarrow> (string \<times> string) list \<Rightarrow> string \<Rightarrow> string \<Rightarrow> bool" where
  \<comment> \<open>\<open>check_region\<close> does not raise\<close>
  "region_permitted allowed for_models model region = (region \<in> set allowed \<or> (model, region) \<in> set for_models)"

section \<open>Errors inside a stream\<close>

definition stream_failure_words :: "(string \<times> int) list" where
  "stream_failure_words =
     [(''invalid_request_error'', 400), (''INVALID_ARGUMENT'', 400), (''FAILED_PRECONDITION'', 400),
      (''authentication_error'', 401), (''UNAUTHENTICATED'', 401), (''permission_error'', 403),
      (''PERMISSION_DENIED'', 403), (''not_found_error'', 404), (''NOT_FOUND'', 404),
      (''request_too_large'', 413), (''rate_limit_error'', 429), (''rate_limit_exceeded'', 429),
      (''insufficient_quota'', 429), (''RESOURCE_EXHAUSTED'', 429), (''api_error'', 500),
      (''server_error'', 500), (''INTERNAL'', 500), (''overloaded_error'', 503), (''UNAVAILABLE'', 503),
      (''timeout_error'', 504), (''DEADLINE_EXCEEDED'', 504)]"

definition stream_failure_default :: int where
  "stream_failure_default = 502"

fun digits_value :: "string \<Rightarrow> int \<Rightarrow> int" where
  "digits_value [] acc = acc"
| "digits_value (c # cs) acc = digits_value cs (acc * 10 + (int (of_char c) - 48))"

definition all_digits :: "string \<Rightarrow> bool" where
  "all_digits s = (s \<noteq> [] \<and> list_all (\<lambda>c. 48 \<le> (of_char c :: nat) \<and> (of_char c :: nat) \<le> 57) s)"

definition stream_failure_status :: "json_object \<Rightarrow> int" where
  "stream_failure_status details =
     (let code = map_of details ''code'';
          number = (case code of
              Some (JStr s) \<Rightarrow> if all_digits s then Some (digits_value s 0) else None
            | _ \<Rightarrow> json_int code);
          word = (\<lambda>key. case map_of details key of Some (JStr w) \<Rightarrow> map_of stream_failure_words w | _ \<Rightarrow> None)
      in case number of
           Some n \<Rightarrow> if 400 \<le> n \<and> n \<le> 599 then n
                     else (case List.map_filter word [''type'', ''status'', ''code''] of
                             s # _ \<Rightarrow> s | [] \<Rightarrow> stream_failure_default)
         | None \<Rightarrow> (case List.map_filter word [''type'', ''status'', ''code''] of
                      s # _ \<Rightarrow> s | [] \<Rightarrow> stream_failure_default))"

section \<open>Adapters and the registry\<close>

record upstream_model =
  um_name :: string
  um_version :: string
  um_supported_methods :: "string list"
  um_provider :: string
  um_publisher :: string
  um_region :: string

text \<open>
  What an adapter declares; an attribute an adapter may lack is the value \<open>getattr\<close> falls back to.
  \<open>up_schema_refusal\<close> is the dialect's own check of a schema, absent where it has none.
\<close>

record upstream =
  up_type :: string
  up_serves_provider :: string
  up_serves_publisher :: string
  up_models :: "upstream_model list"
  up_provenance :: "(string \<times> string \<times> string) option"
  up_sampling_controls :: "string list"
  up_speaks :: bool
  up_ranks :: bool
  up_is_test_double :: bool
  up_schema_refusal :: "(json \<Rightarrow> string option) option"

record registry =
  rg_all :: "upstream list"
  rg_by_model :: "(string \<times> upstream) list"
  rg_models :: "(string \<times> upstream_model) list"
  rg_by_provider :: "((string \<times> string) \<times> upstream) list"

datatype ambiguous_model =
    TwoClaimProvider string string
  | TwoOfferModel string string string

fun register_models :: "upstream \<Rightarrow> upstream_model list \<Rightarrow> registry \<Rightarrow> ambiguous_model + registry" where
  "register_models up [] reg = Inr reg"
| "register_models up (m # ms) reg =
     (case map_of (rg_by_model reg) (um_name m) of
        Some other \<Rightarrow> Inl (TwoOfferModel (um_name m) (up_type other) (up_type up))
      | None \<Rightarrow> register_models up ms
          (reg\<lparr>rg_by_model := rg_by_model reg @ [(um_name m, up)], rg_models := rg_models reg @ [(um_name m, m)]\<rparr>))"

definition register_claim :: "upstream \<Rightarrow> registry \<Rightarrow> ambiguous_model + registry" where
  "register_claim up reg =
     (let claim = (up_serves_provider up, up_serves_publisher up) in
      if fst claim = [] then Inr reg
      else if map_of (rg_by_provider reg) claim \<noteq> None then Inl (TwoClaimProvider (fst claim) (snd claim))
      else Inr (reg\<lparr>rg_by_provider := rg_by_provider reg @ [(claim, up)]\<rparr>))"

fun register_all :: "upstream list \<Rightarrow> registry \<Rightarrow> ambiguous_model + registry" where
  "register_all [] reg = Inr reg"
| "register_all (up # ups) reg =
     sum_bind (register_claim up reg) (\<lambda>reg1.
       sum_bind (register_models up (up_models up) reg1) (\<lambda>reg2. register_all ups reg2))"

definition build_registry :: "upstream list \<Rightarrow> ambiguous_model + registry" where
  "build_registry ups =
     register_all ups \<lparr>rg_all = ups, rg_by_model = [], rg_models = [], rg_by_provider = []\<rparr>"

definition exact_provider :: "registry \<Rightarrow> string \<Rightarrow> string \<Rightarrow> upstream option" where
  "exact_provider reg provider publisher =
     (if publisher = [] then None else map_of (rg_by_provider reg) (provider, publisher))"

definition provider_for :: "registry \<Rightarrow> string \<Rightarrow> string \<Rightarrow> string \<Rightarrow> upstream option" where
  "provider_for reg model provider publisher =
     (case map_of (rg_by_model reg) model of
        Some up \<Rightarrow> Some up
      | None \<Rightarrow>
          if provider = [] then None
          else (case exact_provider reg provider publisher of
                  Some up \<Rightarrow> Some up
                | None \<Rightarrow> map_of (rg_by_provider reg) (provider, [])))"

definition get_model :: "registry \<Rightarrow> string \<Rightarrow> upstream_model option" where
  "get_model reg name = map_of (rg_models reg) name"

definition named_provider :: "registry \<Rightarrow> string \<Rightarrow> upstream option" where
  \<comment> \<open>\<open>by_name().get(provider)\<close>: of several claims to one name the last remains\<close>
  "named_provider reg provider =
     map_of (rev (map (\<lambda>(claim, up). (fst claim, up)) (rg_by_provider reg))) provider"

definition provenance_for :: "registry \<Rightarrow> string \<Rightarrow> string \<Rightarrow> (string \<times> string \<times> string) option" where
  "provenance_for reg provider publisher =
     (let exact = exact_provider reg provider publisher in
      case (case exact of Some up \<Rightarrow> Some up | None \<Rightarrow> named_provider reg provider) of
        None \<Rightarrow> None
      | Some up \<Rightarrow>
          (case List.find (\<lambda>m. um_provider m \<noteq> []) (up_models up) of
             Some m \<Rightarrow> Some (um_provider m, um_publisher m, um_region m)
           | None \<Rightarrow>
               (case up_provenance up of
                  Some declared \<Rightarrow> Some declared
                | None \<Rightarrow> if exact \<noteq> None then Some (provider, publisher, []) else None)))"

section \<open>The registry resolves one way\<close>

definition registry_ok :: "registry \<Rightarrow> bool" where
  "registry_ok reg \<longleftrightarrow> distinct (map fst (rg_by_model reg)) \<and> distinct (map fst (rg_by_provider reg))
     \<and> (\<forall>(name, up) \<in> set (rg_by_model reg). name \<in> um_name ` set (up_models up))
     \<and> (\<forall>(claim, up) \<in> set (rg_by_provider reg). claim = (up_serves_provider up, up_serves_publisher up))
     \<and> map fst (rg_models reg) = map fst (rg_by_model reg)"

lemma map_of_None_fst: "map_of xs k = None \<Longrightarrow> k \<notin> set (map fst xs)"
  by (simp add: map_of_eq_None_iff)

lemma register_models_ok:
  "register_models up ms reg = Inr reg' \<Longrightarrow> registry_ok reg \<Longrightarrow> set ms \<subseteq> set (up_models up) \<Longrightarrow>
     registry_ok reg' \<and> set (rg_by_model reg) \<union> {(um_name m, up) |m. m \<in> set ms} = set (rg_by_model reg')
     \<and> rg_by_provider reg' = rg_by_provider reg"
proof (induction up ms reg arbitrary: reg' rule: register_models.induct)
  case (2 up m ms reg)
  let ?reg = "reg\<lparr>rg_by_model := rg_by_model reg @ [(um_name m, up)], rg_models := rg_models reg @ [(um_name m, m)]\<rparr>"
  from "2.prems"(1) have fresh: "map_of (rg_by_model reg) (um_name m) = None"
    and rest: "register_models up ms ?reg = Inr reg'" by (simp_all split: option.splits)
  have "registry_ok ?reg"
    using "2.prems"(2,3) map_of_None_fst [OF fresh] by (auto simp: registry_ok_def)
  from "2.IH" [OF fresh rest this] "2.prems"(3) show ?case by auto
qed simp

lemma register_claim_ok:
  "register_claim up reg = Inr reg' \<Longrightarrow> registry_ok reg \<Longrightarrow> registry_ok reg' \<and> rg_by_model reg' = rg_by_model reg
     \<and> set (rg_by_provider reg) \<subseteq> set (rg_by_provider reg')
     \<and> (up_serves_provider up \<noteq> [] \<longrightarrow> ((up_serves_provider up, up_serves_publisher up), up) \<in> set (rg_by_provider reg'))"
  by (auto simp: register_claim_def Let_def registry_ok_def dest: map_of_None_fst split: if_splits)

lemma register_all_ok:
  "register_all ups reg = Inr reg' \<Longrightarrow> registry_ok reg \<Longrightarrow> registry_ok reg'
     \<and> set (rg_by_model reg) \<subseteq> set (rg_by_model reg') \<and> set (rg_by_provider reg) \<subseteq> set (rg_by_provider reg')
     \<and> (\<forall>up \<in> set ups. (\<forall>m \<in> set (up_models up). (um_name m, up) \<in> set (rg_by_model reg'))
          \<and> (up_serves_provider up \<noteq> [] \<longrightarrow>
               ((up_serves_provider up, up_serves_publisher up), up) \<in> set (rg_by_provider reg')))"
proof (induction ups arbitrary: reg)
  case (Cons up ups)
  from Cons.prems(1) obtain reg1 reg2 where claim: "register_claim up reg = Inr reg1"
    and models: "register_models up (up_models up) reg1 = Inr reg2" and rest: "register_all ups reg2 = Inr reg'"
    by (auto simp: sum_bind_Inr_iff)
  from register_claim_ok [OF claim Cons.prems(2)] register_models_ok [OF models]
  have "registry_ok reg2" and "set (rg_by_model reg) \<subseteq> set (rg_by_model reg2)"
    and "set (rg_by_provider reg) \<subseteq> set (rg_by_provider reg2)"
    and "\<forall>m \<in> set (up_models up). (um_name m, up) \<in> set (rg_by_model reg2)"
    and "up_serves_provider up \<noteq> [] \<longrightarrow>
      ((up_serves_provider up, up_serves_publisher up), up) \<in> set (rg_by_provider reg2)"
    by auto
  with Cons.IH [OF rest] show ?case by auto
qed simp

text \<open>
  Which adapter serves a model is never decided by the order of registration: where the gateway
  boots, a configured model is served by the one adapter that offers it, and a catalogued one by the
  one adapter that claims its provider and publisher, else by the one that claims the whole provider.
\<close>
theorem registry_resolves_one_way:
  assumes "build_registry ups = Inr reg" "up \<in> set ups"
  shows "(\<forall>m \<in> set (up_models up). provider_for reg (um_name m) provider publisher = Some up)
    \<and> (up_serves_provider up \<noteq> [] \<longrightarrow> map_of (rg_by_model reg) model = None \<longrightarrow>
        provider_for reg model (up_serves_provider up) (up_serves_publisher up) = Some up)"
proof -
  have "registry_ok \<lparr>rg_all = ups, rg_by_model = [], rg_models = [], rg_by_provider = []\<rparr>"
    by (simp add: registry_ok_def)
  with assms(1) register_all_ok have ok: "registry_ok reg"
    and all: "\<forall>up \<in> set ups. (\<forall>m \<in> set (up_models up). (um_name m, up) \<in> set (rg_by_model reg))
          \<and> (up_serves_provider up \<noteq> [] \<longrightarrow>
               ((up_serves_provider up, up_serves_publisher up), up) \<in> set (rg_by_provider reg))"
    unfolding build_registry_def by blast+
  from ok have distinct: "distinct (map fst (rg_by_model reg))" "distinct (map fst (rg_by_provider reg))"
    by (simp_all add: registry_ok_def)
  have "provider_for reg (um_name m) provider publisher = Some up" if "m \<in> set (up_models up)" for m
  proof -
    have "map_of (rg_by_model reg) (um_name m) = Some up"
      using that assms(2) all distinct(1) by (intro map_of_is_SomeI) auto
    then show ?thesis by (simp add: provider_for_def)
  qed
  moreover have "provider_for reg model (up_serves_provider up) (up_serves_publisher up) = Some up"
    if "up_serves_provider up \<noteq> []" "map_of (rg_by_model reg) model = None"
  proof -
    have "map_of (rg_by_provider reg) (up_serves_provider up, up_serves_publisher up) = Some up"
      using that assms(2) all distinct(2) by (auto intro: map_of_is_SomeI)
    with that show ?thesis
      by (cases "up_serves_publisher up = []") (simp_all add: provider_for_def exact_provider_def)
  qed
  ultimately show ?thesis by blast
qed

definition sample_upstream :: "string \<Rightarrow> upstream" where
  "sample_upstream publisher = \<lparr>up_type = ''Vertex'', up_serves_provider = ''vertex'', up_serves_publisher = publisher,
     up_models = [], up_provenance = None, up_sampling_controls = [], up_speaks = False, up_ranks = False,
     up_is_test_double = False, up_schema_refusal = None\<rparr>"

lemma registry_resolves_one_way_witness:
  "\<exists>reg. build_registry [sample_upstream ''google'', sample_upstream ''anthropic''] = Inr reg
     \<and> provider_for reg ''claude'' ''vertex'' ''anthropic'' = Some (sample_upstream ''anthropic'')"
proof -
  let ?reg = "\<lparr>rg_all = [sample_upstream ''google'', sample_upstream ''anthropic''], rg_by_model = [], rg_models = [],
      rg_by_provider = [((''vertex'', ''google''), sample_upstream ''google''),
        ((''vertex'', ''anthropic''), sample_upstream ''anthropic'')]\<rparr>"
  have "build_registry [sample_upstream ''google'', sample_upstream ''anthropic''] = Inr ?reg"
    by (simp add: build_registry_def register_claim_def sample_upstream_def)
  from this registry_resolves_one_way [OF this, of "sample_upstream ''anthropic''"] show ?thesis
    by (auto simp: sample_upstream_def)
qed

end
