(* ===== verification/Dispatch.thy ===== *)
theory Dispatch
  imports Upstreams
begin

text \<open>
  The chain of models a request falls back along (\<open>gateway/src/aira_gateway/pipeline/dispatch.py\<close>): one
  walk over the candidates, and the three forms built on it: an answer, vectors or a ranking, and a
  stream that is opened by its first chunk.

  What the chain asks per candidate are parameters that see its position, so they may answer
  differently each time: the catalogue's routing, the conditions, the fit and the call. Releasing the
  stream of a candidate that is passed over is not modelled. \<open>wk_called\<close> lists the calls that were
  made (each leaves its own model-access record).
\<close>

section \<open>Candidates\<close>

datatype call_error =
    UpstreamFailure string "int option"
  | AmbiguousAddress string
  | RegionRefused string
  | DialectUnsupported string
  | is_unexpected: Unexpected (unexpected_why: string)

record routing =
  rt_provider :: string
  rt_publisher :: string
  rt_addressing :: json_object

datatype ('why, 'unfit) skip_reason =
    Unserved
  | Refused 'why
  | Unfit 'unfit
  | NowhereToSend string
  | CannotSay string

record attempted =
  aw_model :: string
  aw_reason :: string

record ('r, 'why, 'unfit, 'a) chain =
  ch_registry :: registry
  ch_routing :: "(nat \<Rightarrow> string \<Rightarrow> routing) option"
  ch_permits :: "(nat \<Rightarrow> string \<Rightarrow> 'why option) option"
  ch_fit :: "(nat \<Rightarrow> 'r addressed_scheme \<Rightarrow> 'unfit + 'r addressed_scheme) option"
  ch_call :: "nat \<Rightarrow> upstream \<Rightarrow> 'r addressed_scheme \<Rightarrow> call_error + 'a"

definition why_failed :: "string \<Rightarrow> int option \<Rightarrow> string" where
  "why_failed message status =
     (case status of None \<Rightarrow> message | Some n \<Rightarrow> message @ '' (HTTP '' @ show_int n @ '')'')"

definition chain_names :: "string \<Rightarrow> string list \<Rightarrow> (nat \<times> string) list" where
  "chain_names model fallbacks = List.enumerate 0 (model # List.filter (\<lambda>m. m \<noteq> model) fallbacks)"

definition addressed_to ::
  "('r, 'why, 'unfit, 'a) chain \<Rightarrow> 'r addressed_scheme \<Rightarrow> nat \<Rightarrow> string \<Rightarrow> 'r addressed_scheme" where
  "addressed_to ch rq i model =
     (case ch_routing ch of
        None \<Rightarrow> rq\<lparr>rq_model := model\<rparr>
      | Some routing_of \<Rightarrow> rq\<lparr>rq_model := model, rq_addressing := rt_addressing (routing_of i model)\<rparr>)"

definition candidate ::
  "('r, 'why, 'unfit, 'a) chain \<Rightarrow> 'r addressed_scheme \<Rightarrow> nat \<Rightarrow> string
     \<Rightarrow> ('why, 'unfit) skip_reason + upstream \<times> 'r addressed_scheme" where
  "candidate ch rq i model =
     (let (provider, publisher) = (case ch_routing ch of
            None \<Rightarrow> ([], []) | Some routing_of \<Rightarrow> (rt_provider (routing_of i model), rt_publisher (routing_of i model)))
      in case provider_for (ch_registry ch) model provider publisher of
           None \<Rightarrow> Inl Unserved
         | Some up \<Rightarrow>
             (case (case ch_permits ch of None \<Rightarrow> None | Some permits \<Rightarrow> permits i model) of
                Some refusal \<Rightarrow> Inl (Refused refusal)
              | None \<Rightarrow>
                  (case ch_fit ch of
                     None \<Rightarrow> Inr (up, addressed_to ch rq i model)
                   | Some fit \<Rightarrow>
                       (case fit i (addressed_to ch rq i model) of
                          Inl unfit \<Rightarrow> Inl (Unfit unfit)
                        | Inr fitted \<Rightarrow> Inr (up, fitted)))))"

section \<open>The walk\<close>

record ('r, 'why, 'unfit) walk_state =
  wk_skipped :: "(string \<times> ('why, 'unfit) skip_reason) list"
  wk_failed :: "attempted list"
  wk_last_error :: "(string \<times> int option) option"
  wk_unsayable :: "string list"
  wk_unaddressable :: "call_error list"
  wk_called :: "(nat \<times> string \<times> 'r addressed_scheme) list"

definition walk_start :: "('r, 'why, 'unfit) walk_state" where
  "walk_start = \<lparr>wk_skipped = [], wk_failed = [], wk_last_error = None, wk_unsayable = [],
     wk_unaddressable = [], wk_called = []\<rparr>"

fun note_error ::
  "string \<Rightarrow> call_error \<Rightarrow> ('r, 'why, 'unfit) walk_state \<Rightarrow> ('r, 'why, 'unfit) walk_state" where
  "note_error model (UpstreamFailure message status) st =
     st\<lparr>wk_last_error := Some (message, status),
        wk_failed := wk_failed st @ [\<lparr>aw_model = model, aw_reason = why_failed message status\<rparr>]\<rparr>"
| "note_error model (AmbiguousAddress why) st =
     st\<lparr>wk_unaddressable := wk_unaddressable st @ [AmbiguousAddress why],
        wk_skipped := wk_skipped st @ [(model, NowhereToSend why)]\<rparr>"
| "note_error model (RegionRefused why) st =
     st\<lparr>wk_unaddressable := wk_unaddressable st @ [RegionRefused why],
        wk_skipped := wk_skipped st @ [(model, NowhereToSend why)]\<rparr>"
| "note_error model (DialectUnsupported why) st =
     st\<lparr>wk_unsayable := wk_unsayable st @ [why], wk_skipped := wk_skipped st @ [(model, CannotSay why)]\<rparr>"
| "note_error model (Unexpected why) st = st"

datatype ('r, 'a) walk_end =
    Exhausted
  | AnsweredBy nat string upstream "'r addressed_scheme" 'a
  | Raised string

fun walk ::
  "('r, 'why, 'unfit, 'a) chain \<Rightarrow> 'r addressed_scheme \<Rightarrow> (nat \<times> string) list \<Rightarrow> ('r, 'why, 'unfit) walk_state
     \<Rightarrow> ('r, 'a) walk_end \<times> ('r, 'why, 'unfit) walk_state" where
  "walk ch rq [] st = (Exhausted, st)"
| "walk ch rq ((i, model) # cs) st =
     (case candidate ch rq i model of
        Inl why \<Rightarrow> walk ch rq cs (st\<lparr>wk_skipped := wk_skipped st @ [(model, why)]\<rparr>)
      | Inr (up, sent) \<Rightarrow>
          let st' = st\<lparr>wk_called := wk_called st @ [(i, model, sent)]\<rparr> in
          (case ch_call ch i up sent of
             Inr a \<Rightarrow> (AnsweredBy i model up sent a, st')
           | Inl e \<Rightarrow>
               if is_unexpected e then (Raised (unexpected_why e), st')
               else walk ch rq cs (note_error model e st')))"

section \<open>The three forms\<close>

record ('why, 'unfit) passed_over =
  po_skipped :: "(string \<times> ('why, 'unfit) skip_reason) list"
  po_failed :: "attempted list"

text \<open>
  What an exhausted chain raises. An outage carries everything its message names (the models that
  failed, then those skipped) and the last provider's status; \<open>Crashed\<close> is any other exception, which
  leaves the chain at once and unmarked.
\<close>

datatype ('why, 'unfit) chain_error =
    Outage "int option" "('why, 'unfit) passed_over"
  | Inexpressible string "('why, 'unfit) passed_over"
  | NoCapableModel "('why, 'unfit) passed_over"
  | NotAddressable call_error "('why, 'unfit) passed_over"
  | Crashed string

definition passed_over_of :: "('r, 'why, 'unfit) walk_state \<Rightarrow> ('why, 'unfit) passed_over" where
  "passed_over_of st = \<lparr>po_skipped = wk_skipped st, po_failed = wk_failed st\<rparr>"

definition nothing_could_serve :: "('r, 'why, 'unfit) walk_state \<Rightarrow> ('why, 'unfit) chain_error" where
  "nothing_could_serve st =
     (if wk_unsayable st \<noteq> [] \<and> length (wk_unsayable st) = length (wk_skipped st)
      then Inexpressible (last (wk_unsayable st)) (passed_over_of st)
      else NoCapableModel (passed_over_of st))"

definition exhausted :: "bool \<Rightarrow> ('r, 'why, 'unfit) walk_state \<Rightarrow> ('why, 'unfit) chain_error" where
  \<comment> \<open>\<open>vectors\<close>: the chain of an embedding or a ranking, which names an addressing fault of its own\<close>
  "exhausted vectors st =
     (case wk_last_error st of
        Some (_, status) \<Rightarrow> Outage status (passed_over_of st)
      | None \<Rightarrow>
          if vectors \<and> wk_unaddressable st \<noteq> [] \<and> length (wk_unaddressable st) = length (wk_skipped st)
          then NotAddressable (last (wk_unaddressable st)) (passed_over_of st)
          else nothing_could_serve st)"

record ('r, 'why, 'unfit, 'a) answered =
  an_value :: 'a
  an_model :: string
  an_candidate_index :: nat
  an_sent :: "'r addressed_scheme"
  an_passed_over :: "('why, 'unfit) passed_over"

definition run_chain ::
  "bool \<Rightarrow> ('r, 'why, 'unfit, 'a) chain \<Rightarrow> 'r addressed_scheme \<Rightarrow> string list
     \<Rightarrow> (('why, 'unfit) chain_error + ('r, 'why, 'unfit, 'a) answered) \<times> (nat \<times> string \<times> 'r addressed_scheme) list" where
  "run_chain vectors ch rq fallbacks =
     (case walk ch rq (chain_names (rq_model rq) fallbacks) walk_start of
        (AnsweredBy i model up sent a, st) \<Rightarrow>
          (Inr \<lparr>an_value = a, an_model = model, an_candidate_index = i, an_sent = sent,
             an_passed_over = passed_over_of st\<rparr>, wk_called st)
      | (Raised why, st) \<Rightarrow> (Inl (Crashed why), wk_called st)
      | (Exhausted, st) \<Rightarrow> (Inl (exhausted vectors st), wk_called st))"

definition dispatch_with_fallback ::
  "('r, 'why, 'unfit, 'a) chain \<Rightarrow> 'r addressed_scheme \<Rightarrow> string list
     \<Rightarrow> (('why, 'unfit) chain_error + ('r, 'why, 'unfit, 'a) answered) \<times> (nat \<times> string \<times> 'r addressed_scheme) list" where
  "dispatch_with_fallback = run_chain False"

definition answer_with_fallback ::
  "('r, 'why, 'unfit, 'a) chain \<Rightarrow> 'r addressed_scheme \<Rightarrow> string list
     \<Rightarrow> (('why, 'unfit) chain_error + ('r, 'why, 'unfit, 'a) answered) \<times> (nat \<times> string \<times> 'r addressed_scheme) list" where
  "answer_with_fallback = run_chain True"

text \<open>
  A stream is the chunks it yields and the error it ends with, if any. Opening it pulls the first: a
  stream that ends without one has answered with nothing, and one that fails before it has failed.
  What the surface reads is the stream itself, its first chunk put back in front.
\<close>

record 'c stream =
  sm_chunks :: "'c list"
  sm_ends :: "call_error option"

definition open_stream :: "'c stream \<Rightarrow> call_error + 'c stream" where
  "open_stream s =
     (case sm_chunks s of
        [] \<Rightarrow> (case sm_ends s of None \<Rightarrow> Inr \<lparr>sm_chunks = [], sm_ends = None\<rparr> | Some e \<Rightarrow> Inl e)
      | first # rest \<Rightarrow> Inr \<lparr>sm_chunks = first # rest, sm_ends = sm_ends s\<rparr>)"

definition stream_with_fallback ::
  "('r, 'why, 'unfit, 'c stream) chain \<Rightarrow> (nat \<Rightarrow> upstream \<Rightarrow> 'r addressed_scheme \<Rightarrow> 'c stream)
     \<Rightarrow> 'r addressed_scheme \<Rightarrow> string list
     \<Rightarrow> (('why, 'unfit) chain_error + ('r, 'why, 'unfit, 'c stream) answered) \<times> (nat \<times> string \<times> 'r addressed_scheme) list" where
  "stream_with_fallback ch stream_generate rq fallbacks =
     run_chain False (ch\<lparr>ch_call := (\<lambda>i up sent. open_stream (stream_generate i up sent))\<rparr>) rq fallbacks"

section \<open>What a chain promises\<close>

text \<open>
  The specification looks at each candidate on its own: what it would answer, and how it is recorded
  where it does not. The walk is the first candidate that answers, and the record of those before it.
\<close>

definition outcome_of ::
  "('r, 'why, 'unfit, 'a) chain \<Rightarrow> 'r addressed_scheme \<Rightarrow> nat \<times> string \<Rightarrow> ('r, 'a) walk_end" where
  "outcome_of ch rq c =
     (case candidate ch rq (fst c) (snd c) of
        Inl _ \<Rightarrow> Exhausted
      | Inr (up, sent) \<Rightarrow>
          (case ch_call ch (fst c) up sent of
             Inr a \<Rightarrow> AnsweredBy (fst c) (snd c) up sent a
           | Inl (Unexpected why) \<Rightarrow> Raised why
           | Inl _ \<Rightarrow> Exhausted))"

definition skip_of ::
  "('r, 'why, 'unfit, 'a) chain \<Rightarrow> 'r addressed_scheme \<Rightarrow> nat \<times> string
     \<Rightarrow> (string \<times> ('why, 'unfit) skip_reason) option" where
  "skip_of ch rq c =
     (case candidate ch rq (fst c) (snd c) of
        Inl why \<Rightarrow> Some (snd c, why)
      | Inr (up, sent) \<Rightarrow>
          (case ch_call ch (fst c) up sent of
             Inl (AmbiguousAddress why) \<Rightarrow> Some (snd c, NowhereToSend why)
           | Inl (RegionRefused why) \<Rightarrow> Some (snd c, NowhereToSend why)
           | Inl (DialectUnsupported why) \<Rightarrow> Some (snd c, CannotSay why)
           | _ \<Rightarrow> None))"

definition fail_of ::
  "('r, 'why, 'unfit, 'a) chain \<Rightarrow> 'r addressed_scheme \<Rightarrow> nat \<times> string \<Rightarrow> attempted option" where
  "fail_of ch rq c =
     (case candidate ch rq (fst c) (snd c) of
        Inl _ \<Rightarrow> None
      | Inr (up, sent) \<Rightarrow>
          (case ch_call ch (fst c) up sent of
             Inl (UpstreamFailure message status) \<Rightarrow>
               Some \<lparr>aw_model = snd c, aw_reason = why_failed message status\<rparr>
           | _ \<Rightarrow> None))"

definition call_of ::
  "('r, 'why, 'unfit, 'a) chain \<Rightarrow> 'r addressed_scheme \<Rightarrow> nat \<times> string \<Rightarrow> (nat \<times> string \<times> 'r addressed_scheme) option" where
  "call_of ch rq c =
     (case candidate ch rq (fst c) (snd c) of Inl _ \<Rightarrow> None | Inr (up, sent) \<Rightarrow> Some (fst c, snd c, sent))"

definition passes :: "('r, 'why, 'unfit, 'a) chain \<Rightarrow> 'r addressed_scheme \<Rightarrow> nat \<times> string \<Rightarrow> bool" where
  "passes ch rq c \<longleftrightarrow> outcome_of ch rq c = Exhausted"

definition reached ::
  "('r, 'why, 'unfit, 'a) chain \<Rightarrow> 'r addressed_scheme \<Rightarrow> (nat \<times> string) list \<Rightarrow> (nat \<times> string) list" where
  \<comment> \<open>the candidates passed over, and the one the walk ends at\<close>
  "reached ch rq cs = takeWhile (passes ch rq) cs @ take 1 (dropWhile (passes ch rq) cs)"

named_theorems candidate_specs "a candidate on its own"
lemmas candidate_specs' [candidate_specs] = outcome_of_def skip_of_def fail_of_def call_of_def passes_def

lemma walk_reached:
  assumes "walk ch rq cs st = (end, st')"
  shows "end = (case dropWhile (passes ch rq) cs of [] \<Rightarrow> Exhausted | c # _ \<Rightarrow> outcome_of ch rq c)
    \<and> wk_skipped st' = wk_skipped st @ List.map_filter (skip_of ch rq) (reached ch rq cs)
    \<and> wk_failed st' = wk_failed st @ List.map_filter (fail_of ch rq) (reached ch rq cs)
    \<and> wk_called st' = wk_called st @ List.map_filter (call_of ch rq) (reached ch rq cs)"
  using assms
proof (induction ch rq cs st arbitrary: "end" st' rule: walk.induct)
  case (1 ch rq st)
  then show ?case by (simp add: reached_def List.map_filter_simps)
next
  case (2 ch rq i model cs st)
  show ?case
  proof (cases "candidate ch rq i model")
    case (Inl why)
    with "2.prems" have "walk ch rq cs (st\<lparr>wk_skipped := wk_skipped st @ [(model, why)]\<rparr>) = (end, st')" by simp
    from "2.IH"(1) [OF Inl this] Inl show ?thesis
      by (simp add: candidate_specs reached_def List.map_filter_simps)
  next
    case (Inr pair)
    then obtain up sent where cand: "candidate ch rq i model = Inr (up, sent)" by (cases pair) simp
    let ?st = "st\<lparr>wk_called := wk_called st @ [(i, model, sent)]\<rparr>"
    show ?thesis
    proof (cases "ch_call ch i up sent")
      case answer: (Inr a)
      with "2.prems" cand show ?thesis
        by (auto simp: candidate_specs reached_def List.map_filter_simps)
    next
      case failed: (Inl e)
      show ?thesis
      proof (cases "is_unexpected e")
        case True
        with "2.prems" cand failed show ?thesis
          by (cases e) (auto simp: candidate_specs reached_def List.map_filter_simps)
      next
        case False
        with "2.prems" cand failed have run: "walk ch rq cs (note_error model e ?st) = (end, st')"
          by (simp add: Let_def)
        note rest = "2.IH"(2) [OF cand refl refl failed False run]
        from False have "passes ch rq (i, model)"
          using cand failed by (cases e) (simp_all add: candidate_specs)
        with rest cand failed False show ?thesis
          by (cases e) (simp_all add: candidate_specs reached_def List.map_filter_simps)
      qed
    qed
  qed
qed

lemma passes_accounted:
  "passes ch rq c \<Longrightarrow> (skip_of ch rq c \<noteq> None) = (fail_of ch rq c = None)"
  by (auto simp: candidate_specs split: sum.splits prod.splits call_error.splits)

lemma length_accounted:
  "\<forall>c \<in> set cs. passes ch rq c \<Longrightarrow>
     length (List.map_filter (skip_of ch rq) cs) + length (List.map_filter (fail_of ch rq) cs) = length cs"
proof (induction cs)
  case (Cons c cs)
  with passes_accounted [of ch rq c] show ?case
    by (cases "fail_of ch rq c"; cases "skip_of ch rq c") (auto simp: List.map_filter_simps)
qed (simp add: List.map_filter_simps)

lemma last_error_failed:
  "walk ch rq cs st = (end, st') \<Longrightarrow> (wk_last_error st = None) = (wk_failed st = []) \<Longrightarrow>
     (wk_last_error st' = None) = (wk_failed st' = [])"
proof (induction ch rq cs st arbitrary: "end" st' rule: walk.induct)
  case (2 ch rq i model cs st)
  show ?case
  proof (cases "candidate ch rq i model")
    case (Inl why)
    with 2 show ?thesis by simp
  next
    case (Inr pair)
    then obtain up sent where cand: "candidate ch rq i model = Inr (up, sent)" by (cases pair) simp
    let ?st = "st\<lparr>wk_called := wk_called st @ [(i, model, sent)]\<rparr>"
    show ?thesis
    proof (cases "ch_call ch i up sent")
      case failed: (Inl e)
      show ?thesis
      proof (cases "is_unexpected e")
        case False
        with "2.prems"(1) cand failed have run: "walk ch rq cs (note_error model e ?st) = (end, st')"
          by (simp add: Let_def)
        from "2.prems"(2) False
        have "(wk_last_error (note_error model e ?st) = None) = (wk_failed (note_error model e ?st) = [])"
          by (cases e) simp_all
        then show ?thesis by (rule "2.IH"(2) [OF cand refl refl failed False run])
      qed (use 2 cand failed in auto)
    qed (use 2 cand in auto)
  qed
qed simp

lemma end_answer:
  "outcome_of ch rq c = AnsweredBy i model up sent a \<Longrightarrow>
     c = (i, model) \<and> candidate ch rq i model = Inr (up, sent) \<and> ch_call ch i up sent = Inr a
     \<and> skip_of ch rq c = None \<and> fail_of ch rq c = None"
  by (cases c) (auto simp: candidate_specs split: sum.splits prod.splits call_error.splits)

lemma fst_nth_enumerate: "n < length (List.enumerate k xs) \<Longrightarrow> fst (List.enumerate k xs ! n) = k + n"
  by (simp add: nth_enumerate_eq)

lemma nth_chain_names: "n < length (chain_names m f) \<Longrightarrow> fst (chain_names m f ! n) = n"
  unfolding chain_names_def by (drule fst_nth_enumerate) (simp only: add_0)

text \<open>
  C37: A chain answers with the first candidate that can: the candidate that answered was sent the
  caller's request at its own address and fitted to it, every candidate before it was passed over and
  is reported, either as skipped with its reason or as called and failed with the provider's, and no
  candidate after it was called.
\<close>
theorem chain_answers_with_the_first_that_can:
  assumes "run_chain vectors ch rq fallbacks = (Inr a, calls)"
  shows "\<exists>pre post up. chain_names (rq_model rq) fallbacks = pre @ (an_candidate_index a, an_model a) # post
    \<and> (\<forall>c \<in> set pre. passes ch rq c)
    \<and> candidate ch rq (an_candidate_index a) (an_model a) = Inr (up, an_sent a)
    \<and> ch_call ch (an_candidate_index a) up (an_sent a) = Inr (an_value a)
    \<and> po_skipped (an_passed_over a) = List.map_filter (skip_of ch rq) pre
    \<and> po_failed (an_passed_over a) = List.map_filter (fail_of ch rq) pre
    \<and> length (po_skipped (an_passed_over a)) + length (po_failed (an_passed_over a)) = an_candidate_index a
    \<and> calls = List.map_filter (call_of ch rq) (pre @ [(an_candidate_index a, an_model a)])"
proof -
  let ?cs = "chain_names (rq_model rq) fallbacks"
  obtain e st where run: "walk ch rq ?cs walk_start = (e, st)" by fastforce
  with assms obtain i model up sent v where e: "e = AnsweredBy i model up sent v"
    and a: "a = \<lparr>an_value = v, an_model = model, an_candidate_index = i, an_sent = sent,
      an_passed_over = passed_over_of st\<rparr>" and calls: "calls = wk_called st"
    by (auto simp: run_chain_def split: walk_end.splits)
  note spec = walk_reached [OF run]
  let ?pre = "takeWhile (passes ch rq) ?cs"
  from spec e obtain c post where rest: "dropWhile (passes ch rq) ?cs = c # post"
    and c: "outcome_of ch rq c = AnsweredBy i model up sent v"
    by (auto split: list.splits)
  note answer = end_answer [OF c]
  then have unrecorded: "skip_of ch rq (i, model) = None" "fail_of ch rq (i, model) = None" by auto
  have names: "?cs = ?pre @ (i, model) # post"
    using takeWhile_dropWhile_id [of "passes ch rq" ?cs] rest answer by simp
  have pass: "\<forall>c \<in> set ?pre. passes ch rq c" by (auto dest: set_takeWhileD)
  have reached: "reached ch rq ?cs = ?pre @ [(i, model)]" using rest answer by (simp add: reached_def)
  have none: "List.map_filter f (?pre @ [(i, model)]) = List.map_filter f ?pre"
    if "f (i, model) = None" for f :: "nat \<times> string \<Rightarrow> 'x option"
    using that by (simp add: List.map_filter_def)
  have "i = length ?pre"
  proof -
    have "?cs ! length ?pre = (i, model)" using names by (metis nth_append_length)
    moreover have "length ?pre < length ?cs" using arg_cong [OF names, of length] by simp
    ultimately show ?thesis using nth_chain_names by (metis fst_conv)
  qed
  moreover from spec reached none [of "skip_of ch rq"] unrecorded(1)
  have "wk_skipped st = List.map_filter (skip_of ch rq) ?pre" by (simp add: walk_start_def)
  moreover from spec reached none [of "fail_of ch rq"] unrecorded(2)
  have "wk_failed st = List.map_filter (fail_of ch rq) ?pre" by (simp add: walk_start_def)
  moreover from spec reached have "calls = List.map_filter (call_of ch rq) (?pre @ [(i, model)])"
    by (simp add: walk_start_def calls)
  ultimately show ?thesis using names pass answer length_accounted [OF pass]
    by (intro exI [of _ ?pre] exI [of _ post] exI [of _ up]) (simp add: a passed_over_of_def)
qed

text \<open>Two models, the first of which is down.\<close>

definition sample_reg :: registry where
  "sample_reg = \<lparr>rg_all = [sample_upstream []], rg_by_model = [(''a'', sample_upstream []), (''b'', sample_upstream [])],
     rg_models = [], rg_by_provider = []\<rparr>"

definition sample_chain :: "(unit, string, string, string) chain" where
  "sample_chain = \<lparr>ch_registry = sample_reg, ch_routing = None, ch_permits = None, ch_fit = None,
     ch_call = (\<lambda>i up sent. if rq_model sent = ''a'' then Inl (UpstreamFailure ''down'' None) else Inr ''hi'')\<rparr>"

lemma chain_answers_with_the_first_that_can_witness:
  "\<exists>a calls. run_chain False sample_chain \<lparr>rq_model = ''a'', rq_addressing = []\<rparr> [''b'', ''c''] = (Inr a, calls)
     \<and> po_failed (an_passed_over a) = [\<lparr>aw_model = ''a'', aw_reason = ''down''\<rparr>]
     \<and> length (po_skipped (an_passed_over a)) + length (po_failed (an_passed_over a)) = an_candidate_index a"
proof -
  let ?a = "\<lparr>an_value = ''hi'', an_model = ''b'', an_candidate_index = 1,
      an_sent = \<lparr>rq_model = ''b'', rq_addressing = []\<rparr>,
      an_passed_over = \<lparr>po_skipped = [], po_failed = [\<lparr>aw_model = ''a'', aw_reason = ''down''\<rparr>]\<rparr>\<rparr>"
  have "run_chain False sample_chain \<lparr>rq_model = ''a'', rq_addressing = []\<rparr> [''b'', ''c'']
      = (Inr ?a, [(0, ''a'', \<lparr>rq_model = ''a'', rq_addressing = []\<rparr>), (1, ''b'', \<lparr>rq_model = ''b'', rq_addressing = []\<rparr>)])"
    by (simp add: run_chain_def sample_chain_def sample_reg_def chain_names_def candidate_def provider_for_def
        addressed_to_def walk_start_def passed_over_of_def why_failed_def)
  from this chain_answers_with_the_first_that_can [OF this] show ?thesis by force
qed

fun passed_over_in :: "('why, 'unfit) chain_error \<Rightarrow> ('why, 'unfit) passed_over option" where
  "passed_over_in (Outage status po) = Some po"
| "passed_over_in (Inexpressible why po) = Some po"
| "passed_over_in (NoCapableModel po) = Some po"
| "passed_over_in (NotAddressable e po) = Some po"
| "passed_over_in (Crashed why) = None"

lemma reached_all: "\<forall>c \<in> set cs. passes ch rq c \<Longrightarrow> reached ch rq cs = cs"
  by (induction cs) (simp_all add: reached_def)

lemma exhausted_passed_over: "passed_over_in (exhausted vectors st) = Some (passed_over_of st)"
  by (simp add: exhausted_def nothing_could_serve_def split: option.split)

lemma exhausted_outage: "(\<exists>status po. exhausted vectors st = Outage status po) \<longleftrightarrow> wk_last_error st \<noteq> None"
  by (auto simp: exhausted_def nothing_could_serve_def split: option.splits)

text \<open>
  C38: A chain that answers with nothing accounts for every model it named: unless something outside
  the vocabulary of failures was raised, the error carries each name of the chain exactly once, as
  skipped with its reason or as failed with the provider's, and it is an outage exactly when some
  provider was called and failed.
\<close>
theorem exhausted_chain_accounts_for_every_model:
  assumes "run_chain vectors ch rq fallbacks = (Inl e, calls)"
  shows "(\<exists>why. e = Crashed why)
    \<or> (let cs = chain_names (rq_model rq) fallbacks;
           skipped = List.map_filter (skip_of ch rq) cs; failed = List.map_filter (fail_of ch rq) cs
       in passed_over_in e = Some \<lparr>po_skipped = skipped, po_failed = failed\<rparr>
          \<and> length skipped + length failed = length cs
          \<and> ((\<exists>status po. e = Outage status po) \<longleftrightarrow> failed \<noteq> []))"
proof -
  let ?cs = "chain_names (rq_model rq) fallbacks"
  obtain en st where run: "walk ch rq ?cs walk_start = (en, st)" by fastforce
  with assms consider why where "e = Crashed why" | "en = Exhausted" "e = exhausted vectors st"
    by (auto simp: run_chain_def split: walk_end.splits)
  then show ?thesis
  proof cases
    case 2
    note spec = walk_reached [OF run]
    have all: "\<forall>c \<in> set ?cs. passes ch rq c"
    proof (cases "dropWhile (passes ch rq) ?cs")
      case (Cons c rest)
      with spec 2(1) have "passes ch rq c" by (simp add: passes_def)
      moreover from Cons have "\<not> passes ch rq c" by (metis hd_dropWhile list.discI list.sel(1))
      ultimately show ?thesis by blast
    qed (simp add: dropWhile_eq_Nil_conv)
    then have "reached ch rq ?cs = ?cs" by (rule reached_all)
    with spec have "passed_over_of st = \<lparr>po_skipped = List.map_filter (skip_of ch rq) ?cs,
        po_failed = List.map_filter (fail_of ch rq) ?cs\<rparr>" and "wk_failed st = List.map_filter (fail_of ch rq) ?cs"
      by (simp_all add: passed_over_of_def walk_start_def)
    moreover have "(wk_last_error st = None) = (wk_failed st = [])"
      by (rule last_error_failed [OF run]) (simp add: walk_start_def)
    ultimately show ?thesis
      using exhausted_passed_over [of vectors st] exhausted_outage [of vectors st] length_accounted [OF all] 2(2)
      by (simp add: Let_def)
  qed blast
qed

lemma exhausted_chain_accounts_for_every_model_witness:
  "\<exists>e calls. run_chain False sample_chain \<lparr>rq_model = ''a'', rq_addressing = []\<rparr> [''c''] = (Inl e, calls)
     \<and> passed_over_in e = Some \<lparr>po_skipped = [(''c'', Unserved)], po_failed = [\<lparr>aw_model = ''a'', aw_reason = ''down''\<rparr>]\<rparr>"
proof -
  have "run_chain False sample_chain \<lparr>rq_model = ''a'', rq_addressing = []\<rparr> [''c'']
      = (Inl (Outage None \<lparr>po_skipped = [(''c'', Unserved)], po_failed = [\<lparr>aw_model = ''a'', aw_reason = ''down''\<rparr>]\<rparr>),
         [(0, ''a'', \<lparr>rq_model = ''a'', rq_addressing = []\<rparr>)])"
    by (simp add: run_chain_def sample_chain_def sample_reg_def chain_names_def candidate_def provider_for_def
        addressed_to_def walk_start_def passed_over_of_def why_failed_def exhausted_def)
  from this exhausted_chain_accounts_for_every_model [OF this] show ?thesis by (force simp: Let_def)
qed

section \<open>A stream reaches what an answer reaches\<close>

definition shape ::
  "('why, 'unfit) chain_error + ('r, 'why, 'unfit, 'a) answered
     \<Rightarrow> ('why, 'unfit) chain_error + string \<times> nat \<times> 'r addressed_scheme \<times> ('why, 'unfit) passed_over" where
  "shape r = (case r of Inl e \<Rightarrow> Inl e
     | Inr a \<Rightarrow> Inr (an_model a, an_candidate_index a, an_sent a, an_passed_over a))"

fun end_shape :: "('r, 'a) walk_end \<Rightarrow> ('r, unit) walk_end" where
  "end_shape Exhausted = Exhausted"
| "end_shape (AnsweredBy i model up sent a) = AnsweredBy i model up sent ()"
| "end_shape (Raised why) = Raised why"

definition fails_alike :: "(call_error + 'a) \<Rightarrow> (call_error + 'b) \<Rightarrow> bool" where
  "fails_alike r r' \<longleftrightarrow> (\<forall>e. r = Inl e \<longleftrightarrow> r' = Inl e)"

lemma walk_alike:
  fixes ch :: "('r, 'why, 'unfit, 'a) chain" and ch' :: "('r, 'why, 'unfit, 'b) chain"
  assumes "\<And>i model. candidate ch' rq i model = candidate ch rq i model"
    and "\<And>i up sent. fails_alike (ch_call ch i up sent) (ch_call ch' i up sent)"
  shows "end_shape (fst (walk ch rq cs st)) = end_shape (fst (walk ch' rq cs st))
    \<and> snd (walk ch rq cs st) = snd (walk ch' rq cs st)"
proof (induction cs arbitrary: st)
  case (Cons c cs)
  obtain i model where c: "c = (i, model)" by fastforce
  show ?case
  proof (cases "candidate ch rq i model")
    case (Inr pair)
    then obtain up sent where cand: "candidate ch rq i model = Inr (up, sent)" by (cases pair) simp
    from assms(2) [of i up sent] consider
        (failed) e where "ch_call ch i up sent = Inl e" "ch_call ch' i up sent = Inl e"
      | (answer) a b where "ch_call ch i up sent = Inr a" "ch_call ch' i up sent = Inr b"
      by (cases "ch_call ch i up sent"; cases "ch_call ch' i up sent") (auto simp: fails_alike_def)
    then show ?thesis by cases (simp_all add: c cand assms(1) Let_def Cons.IH)
  qed (simp add: c assms(1) Cons.IH)
qed simp


definition sample_stream :: "nat \<Rightarrow> upstream \<Rightarrow> unit addressed_scheme \<Rightarrow> string stream" where
  "sample_stream i up sent =
     (if rq_model sent = ''a'' then \<lparr>sm_chunks = [], sm_ends = Some (UpstreamFailure ''down'' None)\<rparr>
      else \<lparr>sm_chunks = [''h'', ''i''], sm_ends = None\<rparr>)"

definition sample_stream_chain :: "(unit, string, string, string stream) chain" where
  "sample_stream_chain = \<lparr>ch_registry = sample_reg, ch_routing = None, ch_permits = None, ch_fit = None,
         ch_call = (\<lambda>_ _ _. Inl (Unexpected []))\<rparr>"


end
