(* ===== verification/Requirements.thy ===== *)
theory Requirements
  imports Dispatch Thinking_Settings Money
begin

text \<open>
  What a model must satisfy to serve a particular request (\<open>gateway/src/aira_gateway/requirements.py\<close>),
  which of the conditions a request carries (\<open>installation_requirements\<close> of
  \<open>api/serving/conditions.py\<close>, \<open>requirements_for\<close> of \<open>api/serving/prepare.py\<close>), and what a chain asked
  with them may reach. A refusal is a constructor with the values its sentence names.

  \<open>conditions_env\<close> is what one request reads: the registry, its view of the catalogue, the price table,
  whether spend is capped for the caller (asked at most once), the release of its use case and the
  installation's settings.
\<close>

section \<open>Refusals\<close>

datatype refusal =
    RunsElsewhere string "string list"
  | NoPriceUnderSpendLimit string
  | NotCatalogued string
  | NotApproved string
  | NothingReleased "string option"
  | NotReleased string "string option" nat
  | WritesNoText
  | EmbedsNothing
  | NotAReranker
  | AdapterCannotRank
  | CallsNoTools string
  | SpeaksNot bool
  | DialectSpeaksNot
  | ReadsNoAttachments bool "string list"
  | CannotRead "string list" "string list"
  | NoStructuredOutput bool
  | OutputCapped int int
  | ThinksNot thinking_refusal
  | SamplingInexpressible "string list"
  | SamplingRefused "string list"
  | SchemaInexpressible string

record conditions_env =
  ce_registry :: registry
  ce_catalog :: "string \<Rightarrow> model_declaration"
  ce_prices :: "model_name \<Rightarrow> model_read option"
  ce_cost_limited :: bool
  ce_released :: "string list option"
  ce_use_case :: "string option"
  ce_allowed_regions :: "string list"
  ce_model_regions :: "(string \<times> string) list"
  ce_enforce_priced :: bool

section \<open>Conditions\<close>

definition is_test_double :: "conditions_env \<Rightarrow> string \<Rightarrow> bool" where
  "is_test_double env model =
     (case provider_for (ce_registry env) model [] [] of None \<Rightarrow> False | Some up \<Rightarrow> up_is_test_double up)"

definition adapter_for :: "conditions_env \<Rightarrow> string \<Rightarrow> upstream option" where
  "adapter_for env model =
     (let d = ce_catalog env model in provider_for (ce_registry env) model (d_provider d) (d_publisher d))"

definition region_allowed :: "conditions_env \<Rightarrow> string \<Rightarrow> refusal option" where
  "region_allowed env model =
     (if ce_allowed_regions env = [] then None
      else case get_model (ce_registry env) model of
             None \<Rightarrow> None
           | Some described \<Rightarrow>
               if um_region described = [] then None
               else if region_permitted (ce_allowed_regions env) (ce_model_regions env) model (um_region described)
               then None
               else Some (RunsElsewhere (um_region described) (ce_allowed_regions env)))"

definition priced_where_cost_is_limited :: "conditions_env \<Rightarrow> string \<Rightarrow> refusal option" where
  "priced_where_cost_is_limited env model =
     (if is_test_double env model then None
      else if price_for (ce_prices env) model \<noteq> None then None
      else if \<not> ce_cost_limited env then None
      else Some (NoPriceUnderSpendLimit model))"

definition model_approved :: "conditions_env \<Rightarrow> string \<Rightarrow> refusal option" where
  "model_approved env model =
     (if is_test_double env model then None
      else if \<not> d_in_catalog (ce_catalog env model) then Some (NotCatalogued model)
      else if d_approved (ce_catalog env model) then None
      else Some (NotApproved model))"

definition model_released :: "conditions_env \<Rightarrow> string \<Rightarrow> refusal option" where
  "model_released env model =
     (case ce_released env of
        None \<Rightarrow> None
      | Some released \<Rightarrow>
          if is_test_double env model then None
          else if model \<in> set released then None
          else if released = [] then Some (NothingReleased (ce_use_case env))
          else Some (NotReleased model (ce_use_case env) (card (set released))))"

definition generation_supported :: "conditions_env \<Rightarrow> string \<Rightarrow> refusal option" where
  "generation_supported env model = (if can (ce_catalog env model) Generate then None else Some WritesNoText)"

definition embedding_supported :: "conditions_env \<Rightarrow> string \<Rightarrow> refusal option" where
  "embedding_supported env model = (if can (ce_catalog env model) Embed then None else Some EmbedsNothing)"

definition ranking_supported :: "conditions_env \<Rightarrow> string \<Rightarrow> refusal option" where
  "ranking_supported env model =
     (if \<not> can (ce_catalog env model) Rerank then Some NotAReranker
      else case adapter_for env model of
             Some up \<Rightarrow> if up_ranks up then None else Some AdapterCannotRank
           | None \<Rightarrow> None)"

definition tools_supported :: "conditions_env \<Rightarrow> string \<Rightarrow> refusal option" where
  "tools_supported env model = (if can (ce_catalog env model) Tools then None else Some (CallsNoTools model))"

definition speech_supported :: "conditions_env \<Rightarrow> string \<Rightarrow> refusal option" where
  "speech_supported env model =
     (if \<not> can (ce_catalog env model) SpeechCap then Some (SpeaksNot (d_declared (ce_catalog env model)))
      else case adapter_for env model of
             Some up \<Rightarrow> if up_speaks up then None else Some DialectSpeaksNot
           | None \<Rightarrow> None)"

definition media_types_supported :: "conditions_env \<Rightarrow> string list \<Rightarrow> string \<Rightarrow> refusal option" where
  "media_types_supported env required model =
     (if required = [] then None
      else let d = ce_catalog env model in
        if \<not> can d Attachments then Some (ReadsNoAttachments (d_declared d) required)
        else let unreadable = List.filter (\<lambda>t. t \<notin> set (declared_media_types d)) required in
          if unreadable \<noteq> [] then Some (CannotRead unreadable (declared_media_types d)) else None)"

definition structured_output_supported :: "conditions_env \<Rightarrow> string \<Rightarrow> refusal option" where
  "structured_output_supported env model =
     (if can (ce_catalog env model) StructuredOutput then None
      else Some (NoStructuredOutput (d_declared (ce_catalog env model))))"

definition output_cap_accepted :: "conditions_env \<Rightarrow> int \<Rightarrow> string \<Rightarrow> refusal option" where
  "output_cap_accepted env requested model =
     (case d_max_output_tokens (ce_catalog env model) of
        None \<Rightarrow> None
      | Some c \<Rightarrow> if requested \<le> c then None else Some (OutputCapped c requested))"

definition thinking_honoured :: "conditions_env \<Rightarrow> thinking option \<Rightarrow> string \<Rightarrow> refusal option" where
  "thinking_honoured env setting model =
     (if setting = None then None else map_option ThinksNot (permitted_by setting (ce_catalog env model)))"

definition sampling_expressible :: "conditions_env \<Rightarrow> string list \<Rightarrow> string \<Rightarrow> refusal option" where
  "sampling_expressible env requested model =
     (if requested = [] then None
      else case adapter_for env model of
             None \<Rightarrow> None
           | Some up \<Rightarrow>
               let missing = List.filter (\<lambda>c. c \<notin> set (up_sampling_controls up)) requested in
               if missing = [] then None else Some (SamplingInexpressible missing))"

definition set_sampling :: "canonical_request \<Rightarrow> string list" where
  \<comment> \<open>which controls are set to more than their neutral value; the code adds the values for its sentence\<close>
  "set_sampling rq =
     (if rq_temperature rq \<noteq> None \<and> rq_temperature rq \<noteq> Some 1 then [''temperature''] else [])
     @ (if rq_top_p rq \<noteq> None \<and> rq_top_p rq \<noteq> Some 1 then [''top_p''] else [])
     @ (if rq_top_k rq \<noteq> None then [''top_k''] else [])"

definition sampling_accepted :: "conditions_env \<Rightarrow> canonical_request \<Rightarrow> string \<Rightarrow> refusal option" where
  "sampling_accepted env rq model =
     (if set_sampling rq = [] \<or> \<not> d_fixed_sampling (ce_catalog env model) then None
      else Some (SamplingRefused (set_sampling rq)))"

definition schema_expressible :: "conditions_env \<Rightarrow> json \<Rightarrow> string \<Rightarrow> refusal option" where
  "schema_expressible env schema model =
     (case adapter_for env model of
        None \<Rightarrow> None
      | Some up \<Rightarrow> (case up_schema_refusal up of
          None \<Rightarrow> None
        | Some check \<Rightarrow> map_option SchemaInexpressible (check schema)))"

section \<open>Which conditions a request carries\<close>

fun permits :: "(string \<Rightarrow> refusal option) list \<Rightarrow> string \<Rightarrow> refusal option" where
  "permits [] model = None"
| "permits (check # checks) model = (case check model of Some why \<Rightarrow> Some why | None \<Rightarrow> permits checks model)"

definition installation_requirements :: "conditions_env \<Rightarrow> (string \<Rightarrow> refusal option) list" where
  "installation_requirements env =
     [region_allowed env, model_approved env, model_released env]
     @ (if ce_enforce_priced env then [priced_where_cost_is_limited env] else [])"

definition requirements_for :: "conditions_env \<Rightarrow> canonical_request \<Rightarrow> (string \<Rightarrow> refusal option) list" where
  "requirements_for env rq =
     installation_requirements env
     @ (if rq_speech rq = None then [generation_supported env] else [])
     @ (if media_types rq \<noteq> [] then [media_types_supported env (media_types rq)] else [])
     @ (if structured rq then [structured_output_supported env] else [])
     @ (case rq_response_schema rq of None \<Rightarrow> [] | Some schema \<Rightarrow> [schema_expressible env schema])
     @ (if rq_thinking rq \<noteq> None then [thinking_honoured env (rq_thinking rq)] else [])
     @ (case rq_max_output_tokens rq of None \<Rightarrow> [] | Some n \<Rightarrow> [output_cap_accepted env n])
     @ (if sampling_requested rq \<noteq> [] then [sampling_expressible env (sampling_requested rq)] else [])
     @ (if set_sampling rq \<noteq> [] then [sampling_accepted env rq] else [])
     @ (if rq_tools rq \<noteq> [] then [tools_supported env] else [])
     @ (if rq_speech rq \<noteq> None then [speech_supported env] else [])"

definition step_requirements :: "conditions_env \<Rightarrow> (string \<Rightarrow> refusal option) list" where
  "step_requirements env = installation_requirements env @ [generation_supported env]"

definition embedding_requirements :: "conditions_env \<Rightarrow> (string \<Rightarrow> refusal option) list" where
  "embedding_requirements env = installation_requirements env @ [embedding_supported env]"

definition ranking_requirements :: "conditions_env \<Rightarrow> (string \<Rightarrow> refusal option) list" where
  "ranking_requirements env = installation_requirements env @ [ranking_supported env]"

section \<open>What a permitted model is\<close>

lemma permits_None: "permits checks model = None \<longleftrightarrow> (\<forall>check \<in> set checks. check model = None)"
  by (induction checks) (auto split: option.splits)

lemma permits_append: "permits (xs @ ys) model = None \<longleftrightarrow> permits xs model = None \<and> permits ys model = None"
  by (auto simp: permits_None)

definition governed :: "conditions_env \<Rightarrow> string \<Rightarrow> bool" where
  \<comment> \<open>what the installation promises of every model a request reaches\<close>
  "governed env model \<longleftrightarrow>
     (ce_allowed_regions env \<noteq> [] \<longrightarrow>
        (\<forall>described. get_model (ce_registry env) model = Some described \<longrightarrow> um_region described \<noteq> [] \<longrightarrow>
           um_region described \<in> set (ce_allowed_regions env)
           \<or> (model, um_region described) \<in> set (ce_model_regions env)))
     \<and> (is_test_double env model
        \<or> d_in_catalog (ce_catalog env model) \<and> d_approved (ce_catalog env model)
          \<and> (\<forall>released. ce_released env = Some released \<longrightarrow> model \<in> set released)
          \<and> (ce_enforce_priced env \<longrightarrow> ce_cost_limited env \<longrightarrow> price_for (ce_prices env) model \<noteq> None))"

lemma installation_permits:
  "permits (installation_requirements env) model = None \<Longrightarrow> governed env model"
  by (auto simp: permits_None installation_requirements_def governed_def region_allowed_def model_approved_def
      model_released_def priced_where_cost_is_limited_def region_permitted_def split: if_splits option.splits)

definition undegraded :: "conditions_env \<Rightarrow> canonical_request \<Rightarrow> string \<Rightarrow> bool" where
  \<comment> \<open>what a request keeps at every candidate: nothing it asked for is dropped on the way\<close>
  "undegraded env rq model \<longleftrightarrow>
     (let d = ce_catalog env model in
        (rq_speech rq = None \<longrightarrow> can d Generate)
        \<and> (rq_speech rq \<noteq> None \<longrightarrow> can d SpeechCap)
        \<and> set (media_types rq) \<subseteq> set (declared_media_types d)
        \<and> (structured rq \<longrightarrow> can d StructuredOutput)
        \<and> (rq_tools rq \<noteq> [] \<longrightarrow> can d Tools)
        \<and> permitted_by (rq_thinking rq) d = None
        \<and> (\<forall>n c. rq_max_output_tokens rq = Some n \<longrightarrow> d_max_output_tokens d = Some c \<longrightarrow> n \<le> c)
        \<and> (\<forall>up. adapter_for env model = Some up \<longrightarrow> set (sampling_requested rq) \<subseteq> set (up_sampling_controls up))
        \<and> (set_sampling rq \<noteq> [] \<longrightarrow> \<not> d_fixed_sampling d))"

lemma permitted_by_None: "permitted_by None d = None"
  by (simp add: permitted_by_def)

lemma requirements_permit:
  assumes "permits (requirements_for env rq) model = None"
  shows "governed env model \<and> undegraded env rq model"
proof -
  from assms have "governed env model"
    by (auto simp: requirements_for_def permits_append intro: installation_permits)
  moreover have speech: "rq_speech rq = None \<longrightarrow> can (ce_catalog env model) Generate"
    "rq_speech rq \<noteq> None \<longrightarrow> can (ce_catalog env model) SpeechCap"
    using assms by (auto simp: requirements_for_def permits_append generation_supported_def speech_supported_def
        split: if_splits option.splits)
  moreover have media: "set (media_types rq) \<subseteq> set (declared_media_types (ce_catalog env model))"
    using assms by (auto simp: requirements_for_def permits_append media_types_supported_def Let_def filter_empty_conv
        split: if_splits)
  moreover have "structured rq \<longrightarrow> can (ce_catalog env model) StructuredOutput"
    "rq_tools rq \<noteq> [] \<longrightarrow> can (ce_catalog env model) Tools"
    using assms by (auto simp: requirements_for_def permits_append structured_output_supported_def
        tools_supported_def split: if_splits)
  moreover have "permitted_by (rq_thinking rq) (ce_catalog env model) = None"
    using assms by (auto simp: requirements_for_def permits_append thinking_honoured_def permitted_by_None
        split: if_splits option.splits)
  moreover have "rq_max_output_tokens rq = Some n \<longrightarrow> d_max_output_tokens (ce_catalog env model) = Some c \<longrightarrow> n \<le> c"
    for n c using assms by (auto simp: requirements_for_def permits_append output_cap_accepted_def split: if_splits)
  moreover have "set (sampling_requested rq) \<subseteq> set (up_sampling_controls up)" if "adapter_for env model = Some up" for up
    using assms that by (auto simp: requirements_for_def permits_append sampling_expressible_def Let_def
        filter_empty_conv split: if_splits)
  moreover have "set_sampling rq \<noteq> [] \<longrightarrow> \<not> d_fixed_sampling (ce_catalog env model)"
    using assms by (auto simp: requirements_for_def permits_append sampling_accepted_def split: if_splits)
  ultimately show ?thesis by (simp add: undegraded_def Let_def)
qed

section \<open>What a chain asked with them may reach\<close>

lemma called_were_candidates:
  assumes "run_chain vectors ch rq fallbacks = (result, calls)" "(i, model, sent) \<in> set calls"
  shows "\<exists>up. candidate ch rq i model = Inr (up, sent)"
proof -
  obtain en st where run: "walk ch rq (chain_names (rq_model rq) fallbacks) walk_start = (en, st)" by fastforce
  with assms have "(i, model, sent) \<in> set (wk_called st)" by (auto simp: run_chain_def split: walk_end.splits)
  with walk_reached [OF run] obtain c where "call_of ch rq c = Some (i, model, sent)"
    by (auto simp: walk_start_def List.map_filter_def)
  then show ?thesis by (auto simp: call_of_def split: sum.splits)
qed

lemma candidate_permitted:
  "candidate ch rq i model = Inr (up, sent) \<Longrightarrow> ch_permits ch = Some p \<Longrightarrow> p i model = None"
  by (auto simp: candidate_def split: option.splits sum.splits prod.splits)


text \<open>Two catalogued models of which the use case was given the second, under a spend limit.\<close>

definition sample_env :: conditions_env where
  "sample_env = \<lparr>ce_registry = sample_reg,
     ce_catalog = (\<lambda>m. (undeclared m)\<lparr>d_declared := True, d_in_catalog := True\<rparr>),
     ce_prices = (\<lambda>m. Some example_model), ce_cost_limited = True, ce_released = Some [''b''],
     ce_use_case = Some ''uc'', ce_allowed_regions = default_allowed_regions, ce_model_regions = [],
     ce_enforce_priced = True\<rparr>"

definition sample_request :: "string \<Rightarrow> canonical_request" where
  "sample_request model = \<lparr>rq_model = model, rq_addressing = [],
     rq_messages = [\<lparr>msg_role = User, msg_parts = [TextPart ''hi'']\<rparr>], rq_temperature = None,
     rq_max_output_tokens = None, rq_thinking = None, rq_thinking_from_default = False, rq_top_p = None,
     rq_top_k = None, rq_seed = None, rq_presence_penalty = None, rq_frequency_penalty = None,
     rq_stop_sequences = [], rq_response_schema = None, rq_response_json_schema = None, rq_tools = [],
     rq_cache_prefix = False, rq_include_reasoning = False, rq_cache_ttl = ''5m'', rq_speech = None\<rparr>"

lemma sample_permits:
  "permits (requirements_for sample_env (sample_request ''a'')) ''a'' = Some (NotReleased ''a'' (Some ''uc'') 1)"
  "permits (requirements_for sample_env (sample_request ''a'')) ''b'' = None"
  by code_simp+


end
