(* ===== verification/Pipeline_Config.thy ===== *)
theory Pipeline_Config
  imports Catalog "HOL-Library.AList"
begin

text \<open>
  A use case's pipeline as it is stored (\<open>libs/src/aira_common/pipelines.py\<close>,
  \<open>gateway/src/aira_gateway/pipeline/config.py\<close>): the vocabulary and bounds both planes share, the lenient
  reading that corrects every malformed value towards the safe side, and the strict check of what a
  caller of the dry run typed.

  A step's configuration is a dictionary, the list of its items; \<open>AList.update\<close> and \<open>AList.delete\<close> are
  the assignments and deletions of the code. The log lines of the corrections are not modelled.
\<close>

section \<open>Vocabulary and bounds\<close>

definition max_steps :: nat where "max_steps = 32"
definition max_fallback_models :: nat where "max_fallback_models = 16"
definition max_model_length :: nat where "max_model_length = max_model_name"
definition max_text_length :: nat where "max_text_length = 4000"
definition max_categories :: nat where "max_categories = 32"
definition max_patterns :: nat where "max_patterns = 64"
definition max_pattern_length :: nat where "max_pattern_length = 256"

definition injection_modes :: "string list" where "injection_modes = [''heuristic'', ''llm'']"
definition filter_actions :: "string list" where "filter_actions = [''block'', ''flag'']"
definition scan_scopes :: "string list" where "scan_scopes = [''user'', ''system_user'']"
definition failure_policies :: "string list" where "failure_policies = [''block'', ''allow'']"

datatype step_type = InjectionFilter | ModelRoute | PiiFilter

fun step_type_value :: "step_type \<Rightarrow> string" where
  "step_type_value InjectionFilter = ''injection_filter''"
| "step_type_value ModelRoute = ''model_route''"
| "step_type_value PiiFilter = ''pii_filter''"

definition step_types :: "step_type list" where "step_types = [InjectionFilter, ModelRoute, PiiFilter]"

definition step_type_of :: "string \<Rightarrow> step_type option" where
  "step_type_of word = List.find (\<lambda>t. step_type_value t = word) step_types"

fun step_config_keys :: "step_type \<Rightarrow> string list" where
  "step_config_keys InjectionFilter =
     [''mode'', ''action'', ''scope'', ''patterns'', ''use_builtins'', ''instruction'', ''on_undetermined'',
      ''model'', ''fallback_models'']"
| "step_config_keys ModelRoute = [''model'', ''fallback_models'', ''categories'', ''default_model'', ''notice'']"
| "step_config_keys PiiFilter = [''model'', ''fallback_models'', ''instruction'', ''notice'', ''on_failure'']"

definition category_keys :: "string list" where "category_keys = [''name'', ''description'', ''model'']"

definition name_fields :: "string list" where "name_fields = [''model'', ''default_model'']"
definition text_fields :: "string list" where "text_fields = [''instruction'', ''notice'']"

text \<open>Each closed vocabulary a step reads: the field, its words, and how any other value is read.\<close>

fun vocabularies :: "step_type \<Rightarrow> (string \<times> string list \<times> string) list" where
  "vocabularies InjectionFilter =
     [(''mode'', injection_modes, ''heuristic''), (''action'', filter_actions, ''block''),
      (''scope'', scan_scopes, ''system_user''), (''on_undetermined'', failure_policies, ''block'')]"
| "vocabularies ModelRoute = []"
| "vocabularies PiiFilter = [(''on_failure'', failure_policies, ''block'')]"

fun chain_field :: "fallback_kind \<Rightarrow> string" where
  "chain_field KindGenerate = ''fallback_models''"
| "chain_field KindEmbed = ''embedding_fallback_models''"
| "chain_field KindRerank = ''ranking_fallback_models''"

section \<open>Reading a value the safe way\<close>

fun is_word :: "string list \<Rightarrow> json \<Rightarrow> bool" where
  "is_word words (JStr s) = (s \<in> set words)"
| "is_word words _ = False"

fun is_jlist :: "json \<Rightarrow> bool" where
  "is_jlist (JList _) = True"
| "is_jlist _ = False"

fun is_jbool :: "json \<Rightarrow> bool" where
  "is_jbool (JBool _) = True"
| "is_jbool _ = False"

definition strings :: "json list \<Rightarrow> string list" where
  "strings values = List.map_filter string_of_json values"

fun clipped :: "json \<Rightarrow> json" where
  "clipped (JStr s) = JStr (take max_text_length s)"
| "clipped v = v"

definition typed_text :: "string \<Rightarrow> json_object \<Rightarrow> json_object" where
  "typed_text key config =
     (case map_of config key of
        None \<Rightarrow> config
      | Some v \<Rightarrow> if v = JNull \<or> is_jstr v then config else AList.delete key config)"

definition typed_list :: "string \<Rightarrow> json_object \<Rightarrow> json_object" where
  "typed_list key config =
     (case map_of config key of
        None \<Rightarrow> config
      | Some v \<Rightarrow> if is_jlist v then config else AList.delete key config)"

definition typed_patterns :: "json_object \<Rightarrow> json_object" where
  "typed_patterns config =
     (case map_of config ''patterns'' of
        Some (JList values) \<Rightarrow> AList.update ''patterns'' (JList (map JStr (strings values))) config
      | _ \<Rightarrow> config)"

definition typed_builtins :: "json_object \<Rightarrow> json_object" where
  "typed_builtins config =
     (case map_of config ''use_builtins'' of
        None \<Rightarrow> config
      | Some v \<Rightarrow> if is_jbool v then config else AList.update ''use_builtins'' (JBool True) config)"

definition typed_word :: "string \<times> string list \<times> string \<Rightarrow> json_object \<Rightarrow> json_object" where
  "typed_word entry config =
     (case entry of (key, words, unknown) \<Rightarrow>
        (case map_of config key of
           None \<Rightarrow> config
         | Some v \<Rightarrow> if is_word words v then config else AList.update key (JStr unknown) config))"

definition typed :: "step_type \<Rightarrow> json_object \<Rightarrow> json_object" where
  "typed st config =
     fold typed_word (vocabularies st)
       (typed_builtins
         (typed_patterns
           (fold typed_list [''fallback_models'', ''categories'', ''patterns'']
             (fold typed_text (name_fields @ text_fields) config))))"

definition bounded_names :: "json list \<Rightarrow> json list" where
  "bounded_names values =
     map (\<lambda>s. JStr (take max_model_length s))
       (List.filter (\<lambda>s. s \<noteq> []) (take max_fallback_models (strings values)))"

definition bounded_category :: "json_object \<Rightarrow> json_object" where
  \<comment> \<open>\<open>_category\<close>\<close>
  "bounded_category category =
     map (apsnd clipped)
       (List.filter (\<lambda>(key, v). \<not> (key \<in> set category_keys \<and> v \<noteq> JNull \<and> \<not> is_jstr v)) category)"

fun category_of :: "json \<Rightarrow> json option" where
  "category_of (JObj category) = Some (JObj (bounded_category category))"
| "category_of _ = None"

definition bounded_chain :: "json_object \<Rightarrow> json_object" where
  "bounded_chain config =
     (case map_of config ''fallback_models'' of
        Some (JList values) \<Rightarrow> AList.update ''fallback_models'' (JList (bounded_names values)) config
      | _ \<Rightarrow> config)"

definition bounded_categories :: "json_object \<Rightarrow> json_object" where
  "bounded_categories config =
     (case map_of config ''categories'' of
        Some (JList values) \<Rightarrow>
          AList.update ''categories'' (JList (List.map_filter category_of (take max_categories values))) config
      | _ \<Rightarrow> config)"

definition bounded :: "json_object \<Rightarrow> json_object" where
  "bounded config = bounded_categories (bounded_chain (map (apsnd clipped) config))"

section \<open>A pipeline\<close>

record pipeline_step =
  ps_type :: step_type
  ps_config :: json_object

record pipeline =
  pl_steps :: "pipeline_step list"
  pl_fallback_models :: "string list"
  pl_embedding_fallback_models :: "string list"
  pl_ranking_fallback_models :: "string list"

definition empty_pipeline :: pipeline where
  \<comment> \<open>\<open>Pipeline()\<close>\<close>
  "empty_pipeline = \<lparr>pl_steps = [], pl_fallback_models = [], pl_embedding_fallback_models = [],
     pl_ranking_fallback_models = []\<rparr>"

fun chain_for :: "pipeline \<Rightarrow> fallback_kind \<Rightarrow> string list" where
  "chain_for p KindGenerate = pl_fallback_models p"
| "chain_for p KindEmbed = pl_embedding_fallback_models p"
| "chain_for p KindRerank = pl_ranking_fallback_models p"

definition pipeline_is_empty :: "pipeline \<Rightarrow> bool" where
  "pipeline_is_empty p \<longleftrightarrow>
     pl_steps p = [] \<and> \<not> list_ex (\<lambda>kind. chain_for p kind \<noteq> []) [KindGenerate, KindEmbed, KindRerank]"

text \<open>\<open>data.get(key) or []\<close>, and nothing where it is no list.\<close>

fun list_or_nothing :: "json option \<Rightarrow> json list" where
  "list_or_nothing (Some (JList values)) = values"
| "list_or_nothing _ = []"

definition parse_chain :: "json_object \<Rightarrow> fallback_kind \<Rightarrow> string list" where
  "parse_chain data kind =
     map (take max_model_length)
       (List.filter (\<lambda>m. m \<noteq> [])
         (take max_fallback_models (strings (list_or_nothing (map_of data (chain_field kind))))))"

fun parse_config :: "step_type \<Rightarrow> json option \<Rightarrow> json_object" where
  "parse_config st (Some (JObj config)) = bounded (typed st config)"
| "parse_config st _ = []"

fun parse_step :: "json \<Rightarrow> pipeline_step option" where
  "parse_step (JObj raw) =
     (case Option.bind (Option.bind (map_of raw ''type'') string_of_json) step_type_of of
        None \<Rightarrow> None
      | Some st \<Rightarrow> Some \<lparr>ps_type = st, ps_config = parse_config st (map_of raw ''config'')\<rparr>)"
| "parse_step _ = None"

fun pipeline_from :: "json \<Rightarrow> pipeline" where
  \<comment> \<open>\<open>Pipeline.from_dict\<close>\<close>
  "pipeline_from (JObj data) =
     \<lparr>pl_steps = List.map_filter parse_step (take max_steps (list_or_nothing (map_of data ''steps''))),
      pl_fallback_models = parse_chain data KindGenerate,
      pl_embedding_fallback_models = parse_chain data KindEmbed,
      pl_ranking_fallback_models = parse_chain data KindRerank\<rparr>"
| "pipeline_from _ = empty_pipeline"

text \<open>
  The store (\<open>pipeline/store.py\<close>): the row of a use case, its four JSON columns, or pass-through.
\<close>

record pipeline_read =
  pr_steps :: json
  pr_fallback_models :: json
  pr_embedding_fallback_models :: json
  pr_ranking_fallback_models :: json

definition stored_pipeline :: "(string \<Rightarrow> pipeline_read option) \<Rightarrow> string option \<Rightarrow> pipeline option" where
  "stored_pipeline table use_case =
     (if \<not> truthy use_case then None
      else case table (the use_case) of
             None \<Rightarrow> None
           | Some row \<Rightarrow>
               let p = pipeline_from (JObj [(''steps'', pr_steps row), (''fallback_models'', pr_fallback_models row),
                     (''embedding_fallback_models'', pr_embedding_fallback_models row),
                     (''ranking_fallback_models'', pr_ranking_fallback_models row)])
               in if pipeline_is_empty p then None else Some p)"

section \<open>Reading is key by key\<close>

text \<open>
  The whole correction of a configuration is one function of a key and its value: what a step reads
  under a key depends on nothing else that is stored.
\<close>

definition corrected :: "step_type \<Rightarrow> string \<Rightarrow> json \<Rightarrow> json option" where
  "corrected st key v =
     (if key \<in> set (name_fields @ text_fields) then (if v = JNull \<or> is_jstr v then Some (clipped v) else None)
      else if key = ''fallback_models''
      then (case v of JList values \<Rightarrow> Some (JList (bounded_names values)) | _ \<Rightarrow> None)
      else if key = ''categories''
      then (case v of JList values \<Rightarrow> Some (JList (List.map_filter category_of (take max_categories values))) | _ \<Rightarrow> None)
      else if key = ''patterns''
      then (case v of JList values \<Rightarrow> Some (JList (map JStr (strings values))) | _ \<Rightarrow> None)
      else if key = ''use_builtins'' then Some (if is_jbool v then v else JBool True)
      else (case map_of (vocabularies st) key of
              Some (words, unknown) \<Rightarrow> Some (if is_word words v then v else JStr unknown)
            | None \<Rightarrow> Some (clipped v)))"

lemma map_of_delete: "map_of (AList.delete k c) key = (if key = k then None else map_of c key)"
  by (simp add: AList.delete_conv')

lemma map_of_update: "map_of (AList.update k v c) key = (if key = k then Some v else map_of c key)"
  by (simp add: AList.update_conv')

lemma map_of_clipped: "map_of (map (apsnd clipped) c) key = map_option clipped (map_of c key)"
  by (induction c) (auto simp: apsnd_def)

lemma map_of_typed_text:
  "map_of (typed_text k c) key =
     (if key = k then Option.bind (map_of c k) (\<lambda>v. if v = JNull \<or> is_jstr v then Some v else None) else map_of c key)"
  by (auto simp: typed_text_def map_of_delete split: option.split)

lemma map_of_typed_list:
  "map_of (typed_list k c) key =
     (if key = k then Option.bind (map_of c k) (\<lambda>v. if is_jlist v then Some v else None) else map_of c key)"
  by (auto simp: typed_list_def map_of_delete split: option.split)

lemma map_of_typed_patterns:
  "map_of (typed_patterns c) key =
     (if key = ''patterns''
      then map_option (\<lambda>v. case v of JList values \<Rightarrow> JList (map JStr (strings values)) | _ \<Rightarrow> v) (map_of c key)
      else map_of c key)"
  by (auto simp: typed_patterns_def map_of_update split: option.split json.split)

lemma map_of_typed_builtins:
  "map_of (typed_builtins c) key =
     (if key = ''use_builtins'' then map_option (\<lambda>v. if is_jbool v then v else JBool True) (map_of c key) else map_of c key)"
  by (auto simp: typed_builtins_def map_of_update split: option.split)

lemma map_of_typed_word:
  "map_of (typed_word (k, words, unknown) c) key =
     (if key = k then map_option (\<lambda>v. if is_word words v then v else JStr unknown) (map_of c k) else map_of c key)"
  by (auto simp: typed_word_def map_of_update split: option.split)

lemma map_of_bounded_chain:
  "map_of (bounded_chain c) key =
     (if key = ''fallback_models''
      then map_option (\<lambda>v. case v of JList values \<Rightarrow> JList (bounded_names values) | _ \<Rightarrow> v) (map_of c key)
      else map_of c key)"
  by (auto simp: bounded_chain_def map_of_update split: option.split json.split)

lemma map_of_bounded_categories:
  "map_of (bounded_categories c) key =
     (if key = ''categories''
      then map_option (\<lambda>v. case v of
          JList values \<Rightarrow> JList (List.map_filter category_of (take max_categories values)) | _ \<Rightarrow> v) (map_of c key)
      else map_of c key)"
  by (auto simp: bounded_categories_def map_of_update split: option.split json.split)

lemma fold_typed_text:
  "map_of (fold typed_text ks c) key =
     (if key \<in> set ks then Option.bind (map_of c key) (\<lambda>v. if v = JNull \<or> is_jstr v then Some v else None)
      else map_of c key)"
  by (induction ks arbitrary: c) (auto simp: map_of_typed_text split: bind_splits)

lemma fold_typed_list:
  "map_of (fold typed_list ks c) key =
     (if key \<in> set ks then Option.bind (map_of c key) (\<lambda>v. if is_jlist v then Some v else None) else map_of c key)"
  by (induction ks arbitrary: c) (auto simp: map_of_typed_list split: bind_splits)

lemma clipped_word: "is_word words v \<Longrightarrow> \<forall>w \<in> set words. length w \<le> max_text_length \<Longrightarrow> clipped v = v"
  by (cases v) auto

lemma clipped_short: "length w \<le> max_text_length \<Longrightarrow> clipped (JStr w) = JStr w"
  by simp

lemma vocabulary_words_short:
  "(key, words, unknown) \<in> set (vocabularies st) \<Longrightarrow> \<forall>w \<in> insert unknown (set words). length w \<le> max_text_length"
  by (cases st) (auto simp: injection_modes_def filter_actions_def scan_scopes_def failure_policies_def max_text_length_def)

lemma fold_typed_word:
  "distinct (map fst vs) \<Longrightarrow>
     map_of (fold typed_word vs c) key =
       (case map_of vs key of
          Some (words, unknown) \<Rightarrow> map_option (\<lambda>v. if is_word words v then v else JStr unknown) (map_of c key)
        | None \<Rightarrow> map_of c key)"
proof (induction vs arbitrary: c)
  case (Cons e vs)
  obtain k words unknown where e: "e = (k, words, unknown)" by (cases e)
  from Cons.prems have "map_of vs k = None" by (auto simp: e map_of_eq_None_iff)
  with Cons show ?case by (auto simp: e map_of_typed_word split: option.splits)
qed simp

lemma distinct_vocabularies: "distinct (map fst (vocabularies st))"
  by (cases st) auto

lemma vocabulary_keys:
  "map_of (vocabularies st) key = Some w \<Longrightarrow>
     key \<notin> set (name_fields @ text_fields) \<union> {''fallback_models'', ''categories'', ''patterns'', ''use_builtins''}"
  by (cases st) (auto simp: name_fields_def text_fields_def split: if_splits)

definition text_keys :: "string set" where "text_keys = set (name_fields @ text_fields)"

lemma text_keys_distinct:
  "''fallback_models'' \<notin> text_keys" "''categories'' \<notin> text_keys" "''patterns'' \<notin> text_keys" "''use_builtins'' \<notin> text_keys"
  by (simp_all add: text_keys_def name_fields_def text_fields_def)

lemma key_classes:
  obtains (label) "key \<in> text_keys" "map_of (vocabularies st) key = None"
      "key \<noteq> ''fallback_models''" "key \<noteq> ''categories''" "key \<noteq> ''patterns''" "key \<noteq> ''use_builtins''"
    | (chain) "key = ''fallback_models''" "map_of (vocabularies st) key = None"
    | (cats) "key = ''categories''" "map_of (vocabularies st) key = None"
    | (pats) "key = ''patterns''" "map_of (vocabularies st) key = None"
    | (builtins) "key = ''use_builtins''" "map_of (vocabularies st) key = None"
    | (word) words unknown where "map_of (vocabularies st) key = Some (words, unknown)" "key \<notin> text_keys"
      "key \<noteq> ''fallback_models''" "key \<noteq> ''categories''" "key \<noteq> ''patterns''" "key \<noteq> ''use_builtins''"
    | (other) "map_of (vocabularies st) key = None" "key \<notin> text_keys"
      "key \<noteq> ''fallback_models''" "key \<noteq> ''categories''" "key \<noteq> ''patterns''" "key \<noteq> ''use_builtins''"
proof (cases "map_of (vocabularies st) key")
  case (Some e)
  obtain words unknown where e: "e = (words, unknown)" by (cases e)
  from vocabulary_keys [OF Some] have "key \<notin> text_keys" "key \<noteq> ''fallback_models''" "key \<noteq> ''categories''"
    "key \<noteq> ''patterns''" "key \<noteq> ''use_builtins''" by (simp_all add: text_keys_def)
  with Some show ?thesis unfolding e by (rule that(6))
next
  case None
  have "key \<in> text_keys \<Longrightarrow> key \<noteq> ''fallback_models'' \<and> key \<noteq> ''categories'' \<and> key \<noteq> ''patterns'' \<and> key \<noteq> ''use_builtins''"
    using text_keys_distinct by metis
  with None that show ?thesis by metis
qed

lemmas stages = typed_def fold_typed_word [OF distinct_vocabularies] map_of_typed_builtins map_of_typed_patterns
  fold_typed_list fold_typed_text bounded_def map_of_bounded_categories map_of_bounded_chain map_of_clipped
  corrected_def text_keys_def [symmetric]

lemma map_of_parsed:
  "map_of (parse_config st (Some (JObj c))) key = Option.bind (map_of c key) (corrected st key)"
proof (cases st key rule: key_classes)
  case label then show ?thesis unfolding parse_config.simps stages by (cases "map_of c key") simp_all
next
  case chain then show ?thesis unfolding parse_config.simps stages
    by (cases "map_of c key"; cases "the (map_of c key)") (simp_all add: text_keys_distinct)
next
  case cats then show ?thesis unfolding parse_config.simps stages
    by (cases "map_of c key"; cases "the (map_of c key)") (simp_all add: text_keys_distinct)
next
  case pats then show ?thesis unfolding parse_config.simps stages
    by (cases "map_of c key"; cases "the (map_of c key)") (simp_all add: text_keys_distinct)
next
  case builtins then show ?thesis unfolding parse_config.simps stages
    by (cases "map_of c key"; cases "the (map_of c key)") (simp_all add: text_keys_distinct)
next
  case (word words unknown)
  from word(1) have "(key, words, unknown) \<in> set (vocabularies st)" by (rule map_of_SomeD)
  note short = vocabulary_words_short [OF this]
  from short have "clipped v = v" if "is_word words v" for v using that by (intro clipped_word) auto
  moreover from short have "clipped (JStr unknown) = JStr unknown" by (intro clipped_short) simp
  ultimately show ?thesis unfolding parse_config.simps stages using word by (cases "map_of c key") simp_all
next
  case other then show ?thesis unfolding parse_config.simps stages by (cases "map_of c key") simp_all
qed

section \<open>What a parsed pipeline is\<close>

definition text_ok :: "json \<Rightarrow> bool" where
  "text_ok v \<longleftrightarrow> v = JNull \<or> (\<exists>s. v = JStr s \<and> length s \<le> max_text_length)"

definition names_ok :: "string list \<Rightarrow> bool" where
  "names_ok names \<longleftrightarrow>
     length names \<le> max_fallback_models \<and> (\<forall>n \<in> set names. n \<noteq> [] \<and> length n \<le> max_model_length)"

definition value_ok :: "step_type \<Rightarrow> string \<Rightarrow> json \<Rightarrow> bool" where
  \<comment> \<open>what a configuration may hold under each key a step reads\<close>
  "value_ok st key v \<longleftrightarrow>
     (key \<in> text_keys \<longrightarrow> text_ok v)
     \<and> (key = ''fallback_models'' \<longrightarrow> (\<exists>names. v = JList (map JStr names) \<and> names_ok names))
     \<and> (key = ''categories'' \<longrightarrow> (\<exists>cs. v = JList (map JObj cs) \<and> length cs \<le> max_categories
          \<and> (\<forall>c \<in> set cs. \<forall>(field, w) \<in> set c. field \<in> set category_keys \<longrightarrow> text_ok w)))
     \<and> (key = ''patterns'' \<longrightarrow> (\<exists>patterns. v = JList (map JStr patterns)))
     \<and> (key = ''use_builtins'' \<longrightarrow> is_jbool v)
     \<and> (\<forall>words unknown. map_of (vocabularies st) key = Some (words, unknown) \<longrightarrow> is_word words v)"

definition pipeline_ok :: "pipeline \<Rightarrow> bool" where
  "pipeline_ok p \<longleftrightarrow>
     length (pl_steps p) \<le> max_steps
     \<and> (\<forall>step \<in> set (pl_steps p). \<forall>key v. map_of (ps_config step) key = Some v \<longrightarrow> value_ok (ps_type step) key v)
     \<and> (\<forall>kind. names_ok (chain_for p kind))"

definition stored_document :: "pipeline \<Rightarrow> json" where
  \<comment> \<open>a pipeline as the document it is read from\<close>
  "stored_document p =
     JObj ((''steps'', JList (map (\<lambda>s. JObj [(''type'', JStr (step_type_value (ps_type s))),
                                         (''config'', JObj (ps_config s))]) (pl_steps p)))
       # map (\<lambda>kind. (chain_field kind, JList (map JStr (chain_for p kind)))) [KindGenerate, KindEmbed, KindRerank])"

lemma strings_map [simp]: "strings (map JStr names) = names"
  by (induction names) (simp_all add: strings_def List.map_filter_simps)

lemma length_map_filter: "length (List.map_filter f xs) \<le> length xs"
  by (induction xs) (auto simp: List.map_filter_simps split: option.split)

lemma names_ok_bounded:
  "names_ok (map (take max_model_length) (List.filter (\<lambda>m. m \<noteq> []) (take max_fallback_models names)))"
  by (auto simp: names_ok_def max_model_length_def max_model_name_def
      intro: order_trans [OF length_filter_le])

lemma names_ok_fixed:
  "names_ok names \<Longrightarrow> map (take max_model_length) (List.filter (\<lambda>m. m \<noteq> []) (take max_fallback_models names)) = names"
  by (auto simp: names_ok_def filter_id_conv intro!: map_idI)

lemma bounded_names_eq:
  "bounded_names values =
     map JStr (map (take max_model_length) (List.filter (\<lambda>m. m \<noteq> []) (take max_fallback_models (strings values))))"
  by (simp add: bounded_names_def comp_def)

lemma category_of_Some: "category_of v = Some w \<longleftrightarrow> (\<exists>c. v = JObj c \<and> w = JObj (bounded_category c))"
  by (cases v) auto

lemma bounded_categories_eq:
  "List.map_filter category_of values =
     map JObj (map bounded_category (List.map_filter (\<lambda>v. json_object_of (Some v)) values))"
proof (induction "values")
  case (Cons v vs)
  then show ?case by (cases v) (simp_all add: List.map_filter_simps)
qed (simp add: List.map_filter_simps)

lemma text_ok_clipped: "v = JNull \<or> is_jstr v \<Longrightarrow> text_ok (clipped v)"
  by (cases v) (auto simp: text_ok_def)

lemma bounded_category_ok: "(field, w) \<in> set (bounded_category c) \<Longrightarrow> field \<in> set category_keys \<Longrightarrow> text_ok w"
  by (induction c) (auto simp: bounded_category_def apsnd_def text_ok_def [of JNull] intro: text_ok_clipped split: if_splits)

lemma clipped_idem [simp]: "clipped (clipped v) = clipped v"
  by (cases v) simp_all

lemma clipped_kind [simp]: "is_jstr (clipped v) = is_jstr v" "clipped v = JNull \<longleftrightarrow> v = JNull"
  by (cases v; simp)+

lemma bounded_category_idem: "bounded_category (bounded_category c) = bounded_category c"
  by (induction c) (auto simp: bounded_category_def apsnd_def)

lemma unknown_is_a_word: "map_of (vocabularies st) key = Some (words, unknown) \<Longrightarrow> unknown \<in> set words"
  by (cases st) (auto simp: injection_modes_def filter_actions_def scan_scopes_def failure_policies_def split: if_splits)

lemma corrected_simps:
  "corrected st ''fallback_models'' v = (case v of JList vs \<Rightarrow> Some (JList (bounded_names vs)) | _ \<Rightarrow> None)"
  "corrected st ''categories'' v =
     (case v of JList vs \<Rightarrow> Some (JList (List.map_filter category_of (take max_categories vs))) | _ \<Rightarrow> None)"
  "corrected st ''patterns'' v = (case v of JList vs \<Rightarrow> Some (JList (map JStr (strings vs))) | _ \<Rightarrow> None)"
  "corrected st ''use_builtins'' v = Some (if is_jbool v then v else JBool True)"
  "key \<in> text_keys \<Longrightarrow> corrected st key v = (if v = JNull \<or> is_jstr v then Some (clipped v) else None)"
  unfolding corrected_def text_keys_def [symmetric] using text_keys_distinct by simp_all

lemma corrected_plain:
  assumes "key \<notin> text_keys" "key \<noteq> ''fallback_models''" "key \<noteq> ''categories''" "key \<noteq> ''patterns''" "key \<noteq> ''use_builtins''"
  shows "corrected st key v =
    (case map_of (vocabularies st) key of
       Some (words, unknown) \<Rightarrow> Some (if is_word words v then v else JStr unknown)
     | None \<Rightarrow> Some (clipped v))"
  unfolding corrected_def text_keys_def [symmetric] using assms by simp

lemma categories_fixed:
  "\<forall>c \<in> set cs. bounded_category c = c \<Longrightarrow> List.map_filter category_of (map JObj cs) = map JObj cs"
  by (induction cs) (simp_all add: List.map_filter_simps)

lemma value_ok_simps:
  "value_ok st ''fallback_models'' v \<longleftrightarrow> (\<exists>names. v = JList (map JStr names) \<and> names_ok names)"
  "value_ok st ''categories'' v \<longleftrightarrow> (\<exists>cs. v = JList (map JObj cs) \<and> length cs \<le> max_categories
     \<and> (\<forall>c \<in> set cs. \<forall>(field, w) \<in> set c. field \<in> set category_keys \<longrightarrow> text_ok w))"
  "value_ok st ''patterns'' v \<longleftrightarrow> (\<exists>patterns. v = JList (map JStr patterns))"
  "value_ok st ''use_builtins'' v \<longleftrightarrow> is_jbool v"
  by (cases st; simp add: value_ok_def text_keys_distinct)+

lemma corrected_value:
  assumes "corrected st key v = Some w"
  shows "value_ok st key w \<and> corrected st key w = Some w"
proof (cases st key rule: key_classes)
  case label
  with assms have "w = clipped v" "v = JNull \<or> is_jstr v" by (simp_all add: corrected_simps split: if_splits)
  then have "text_ok w \<and> (w = JNull \<or> is_jstr w) \<and> clipped w = w" by (cases v) (simp_all add: text_ok_def)
  with label show ?thesis by (simp add: value_ok_def corrected_simps corrected_plain)
next
  case chain
  with assms obtain vs where "w = JList (bounded_names vs)"
    by (auto simp: corrected_simps corrected_plain text_keys_distinct split: json.splits)
  with chain show ?thesis
    by (simp add: value_ok_def corrected_simps corrected_plain text_keys_distinct bounded_names_eq
        names_ok_fixed [OF names_ok_bounded] del: map_map) (blast intro: names_ok_bounded)
next
  case cats
  with assms obtain vs where w: "w = JList (List.map_filter category_of (take max_categories vs))"
    by (auto simp: corrected_simps corrected_plain text_keys_distinct split: json.splits)
  define cs where "cs = map bounded_category (List.map_filter (\<lambda>v. json_object_of (Some v)) (take max_categories vs))"
  from w have w: "w = JList (map JObj cs)" by (simp only: bounded_categories_eq cs_def)
  have len: "length cs \<le> max_categories"
    using length_map_filter [of "\<lambda>v. json_object_of (Some v)" "take max_categories vs"] by (simp add: cs_def)
  have ok: "\<forall>c \<in> set cs. \<forall>(field, w) \<in> set c. field \<in> set category_keys \<longrightarrow> text_ok w"
    by (auto simp: cs_def dest: bounded_category_ok)
  have "List.map_filter category_of (map JObj cs) = map JObj cs"
    by (rule categories_fixed) (auto simp: cs_def bounded_category_idem)
  with w len cats have "corrected st key w = Some w" by (simp add: corrected_simps)
  moreover from w len ok have "value_ok st ''categories'' w" unfolding value_ok_simps by blast
  ultimately show ?thesis using cats by simp
next
  case pats
  with assms obtain vs where "w = JList (map JStr (strings vs))"
    by (auto simp: corrected_simps corrected_plain text_keys_distinct split: json.splits)
  with pats show ?thesis by (auto simp: value_ok_simps corrected_simps)
next
  case builtins
  with assms have "is_jbool w"
    by (auto simp: corrected_simps corrected_plain text_keys_distinct split: if_splits)
  with builtins show ?thesis by (simp add: value_ok_simps corrected_simps)
next
  case (word words unknown)
  with assms have "is_word words w" using unknown_is_a_word [OF word(1)]
    by (auto simp: corrected_simps corrected_plain split: if_splits)
  with word show ?thesis by (simp add: value_ok_def corrected_simps corrected_plain)
next
  case other
  with assms show ?thesis by (auto simp: value_ok_def corrected_simps corrected_plain)
qed

lemma parsed_value_ok: "map_of (parse_config st v) key = Some w \<Longrightarrow> value_ok st key w \<and> corrected st key w = Some w"
proof (cases "\<exists>c. v = Some (JObj c)")
  case True
  assume "map_of (parse_config st v) key = Some w"
  with True obtain u where "corrected st key u = Some w" by (auto simp: map_of_parsed bind_eq_Some_conv simp del: parse_config.simps)
  then show ?thesis by (rule corrected_value)
next
  case False
  assume "map_of (parse_config st v) key = Some w"
  with False show ?thesis by (cases "(st, v)" rule: parse_config.cases) simp_all
qed

lemma parse_step_Some:
  "parse_step v = Some s \<Longrightarrow> \<exists>raw. v = JObj raw \<and> map_of raw ''type'' = Some (JStr (step_type_value (ps_type s)))
     \<and> ps_config s = parse_config (ps_type s) (map_of raw ''config'')"
proof (cases v)
  case (JObj raw)
  assume "parse_step v = Some s"
  with JObj obtain word where word: "Option.bind (map_of raw ''type'') string_of_json = Some word"
    and st: "step_type_of word = Some (ps_type s)" and "ps_config s = parse_config (ps_type s) (map_of raw ''config'')"
    by (auto split: option.splits simp: bind_eq_Some_conv)
  moreover from word have "map_of raw ''type'' = Some (JStr word)"
    by (auto simp: bind_eq_Some_conv elim: string_of_json.elims)
  moreover from st have "word = step_type_value (ps_type s)"
    by (auto simp: step_type_of_def find_Some_iff)
  ultimately show ?thesis using JObj by simp
qed simp_all

lemma empty_pipeline_ok: "pipeline_ok empty_pipeline"
proof -
  have "names_ok (chain_for empty_pipeline kind)" for kind by (cases kind) (simp_all add: empty_pipeline_def names_ok_def)
  then show ?thesis by (simp add: pipeline_ok_def) (simp add: empty_pipeline_def)
qed

lemma pipeline_from_ok:
  "pipeline_ok (pipeline_from data)"
proof (cases data)
  case (JObj d)
  let ?raw = "take max_steps (list_or_nothing (map_of d ''steps''))"
  have "length (pl_steps (pipeline_from data)) \<le> max_steps"
    using length_map_filter [of parse_step ?raw] by (simp add: JObj)
  moreover have "value_ok (ps_type step) key v"
    if step: "step \<in> set (pl_steps (pipeline_from data))" and v: "map_of (ps_config step) key = Some v" for step key v
  proof -
    from step obtain w where "parse_step w = Some step" by (auto simp: JObj List.map_filter_def)
    with v show ?thesis using parsed_value_ok by (auto dest!: parse_step_Some)
  qed
  moreover have "names_ok (chain_for (pipeline_from data) kind)" for kind
    by (cases kind) (simp_all add: JObj parse_chain_def names_ok_bounded del: map_map)
  ultimately show ?thesis by (simp add: pipeline_ok_def)
qed (simp_all add: empty_pipeline_ok)


lemma update_set: "e \<in> set (AList.update k v c) \<Longrightarrow> e = (k, v) \<or> e \<in> set c"
  by (induction c) (auto split: if_splits)

lemma bounded_entries: "e \<in> set (bounded c) \<Longrightarrow> clipped (snd e) = snd e"
  by (auto simp: bounded_def bounded_categories_def bounded_chain_def dest!: update_set split: option.splits json.splits)

lemma typed_fixed:
  assumes fixed: "\<And>key v. map_of c key = Some v \<Longrightarrow> corrected st key v = Some v"
  shows "typed st c = c"
proof -
  have keep: "typed_text k c = c" if "k \<in> text_keys" for k
    using that fixed [of k] by (auto simp: typed_text_def corrected_simps split: option.splits if_splits)
  then have texts: "fold typed_text ks c = c" if "set ks \<subseteq> text_keys" for ks
    using that by (induction ks) simp_all
  have lists: "typed_list k c = c" if "k \<in> {''fallback_models'', ''categories'', ''patterns''}" for k
    using that fixed [of k] by (cases "map_of c k"; cases "the (map_of c k)") (auto simp: typed_list_def corrected_simps)
  have patterns: "typed_patterns c = c"
    using fixed [of "''patterns''"]
    by (cases "map_of c ''patterns''"; cases "the (map_of c ''patterns'')")
       (simp_all add: typed_patterns_def corrected_simps AList.update_triv)
  have builtins: "typed_builtins c = c"
    using fixed [of "''use_builtins''"] by (auto simp: typed_builtins_def corrected_simps split: option.splits if_splits)
  have word: "typed_word entry c = c" if "entry \<in> set (vocabularies st)" for entry
  proof -
    obtain key words unknown where entry: "entry = (key, words, unknown)" by (cases entry)
    with that have vocab: "map_of (vocabularies st) key = Some (words, unknown)"
      using distinct_vocabularies by simp
    with fixed [of key] vocabulary_keys [OF vocab] unknown_is_a_word [OF vocab] show ?thesis
      by (auto simp: entry typed_word_def corrected_plain text_keys_def split: option.splits if_splits)
  qed
  then have words: "fold typed_word vs c = c" if "set vs \<subseteq> set (vocabularies st)" for vs
    using that by (induction vs) simp_all
  have "fold typed_text (name_fields @ text_fields) c = c" by (rule texts) (simp add: text_keys_def)
  then show ?thesis by (simp add: typed_def lists patterns builtins words del: fold_append)
qed

lemma bounded_fixed:
  assumes fixed: "\<And>key v. map_of c key = Some v \<Longrightarrow> corrected st key v = Some v"
    and "\<forall>e \<in> set c. clipped (snd e) = snd e"
  shows "bounded c = c"
proof -
  from assms(2) have "map (apsnd clipped) c = c" by (intro map_idI) (auto simp: apsnd_def)
  moreover have "bounded_chain c = c"
    using fixed [of "''fallback_models''"]
    by (cases "map_of c ''fallback_models''"; cases "the (map_of c ''fallback_models'')")
       (simp_all add: bounded_chain_def corrected_simps AList.update_triv)
  moreover have "bounded_categories c = c"
    using fixed [of "''categories''"]
    by (cases "map_of c ''categories''"; cases "the (map_of c ''categories'')")
       (simp_all add: bounded_categories_def corrected_simps AList.update_triv)
  ultimately show ?thesis by (simp add: bounded_def)
qed

lemma parse_config_again: "parse_config st (Some (JObj (parse_config st v))) = parse_config st v"
proof -
  let ?c = "parse_config st v"
  have fixed: "\<And>key w. map_of ?c key = Some w \<Longrightarrow> corrected st key w = Some w" using parsed_value_ok by blast
  have entries: "\<forall>e \<in> set ?c. clipped (snd e) = snd e"
    by (cases "(st, v)" rule: parse_config.cases) (auto dest: bounded_entries)
  have "bounded (typed st ?c) = ?c" by (simp only: typed_fixed [OF fixed] bounded_fixed [OF fixed entries])
  then show ?thesis by (simp only: parse_config.simps)
qed

lemma step_type_of_value [simp]: "step_type_of (step_type_value st) = Some st"
  by (cases st) (simp_all add: step_type_of_def step_types_def)


text \<open>
  C13: The correction settles: a pipeline written back as it was read is read as the same pipeline, so what
  Management shows of a corrected document, and what a second gateway reads of it, is what runs.
\<close>
theorem correction_settles:
  "pipeline_from (stored_document (pipeline_from data)) = pipeline_from data"
proof -
  let ?p = "pipeline_from data"
  have ok: "pipeline_ok ?p" by (rule pipeline_from_ok)
  have chain: "parse_chain d kind = chain_for ?p kind"
    if "map_of d (chain_field kind) = Some (JList (map JStr (chain_for ?p kind)))" for d kind
    using that ok by (simp add: parse_chain_def names_ok_fixed pipeline_ok_def)
  have config: "parse_config (ps_type s) (Some (JObj (ps_config s))) = ps_config s" if "s \<in> set (pl_steps ?p)" for s
  proof (cases data)
    case (JObj d)
    with that obtain w where "parse_step w = Some s" by (auto simp: List.map_filter_def)
    then show ?thesis by (auto dest!: parse_step_Some simp: parse_config_again simp del: parse_config.simps)
  qed (use that in \<open>simp_all add: empty_pipeline_def\<close>)
  have steps: "List.map_filter parse_step (map (\<lambda>s. JObj [(''type'', JStr (step_type_value (ps_type s))),
      (''config'', JObj (ps_config s))]) ss) = ss" if "set ss \<subseteq> set (pl_steps ?p)" for ss
    using that by (induction ss) (simp_all add: List.map_filter_simps config del: parse_config.simps)
  from ok have "length (pl_steps ?p) \<le> max_steps" by (simp add: pipeline_ok_def)
  with steps [of "pl_steps ?p"] chain [of _ KindGenerate] chain [of _ KindEmbed] chain [of _ KindRerank]
  show ?thesis by (simp add: stored_document_def)
qed

declare parse_config.simps [simp del]

end
