(* ===== verification/Pipeline_Check.thy ===== *)
theory Pipeline_Check
  imports Pipeline_Config
begin

text \<open>
  The strict reading of a pipeline somebody typed for the dry run (\<open>problem_in\<close> of
  \<open>gateway/src/aira_gateway/pipeline/config.py\<close>): the first rule it breaks, named by where, and what an
  accepted document is worth: the lenient reading runs it as written. A problem is a constructor with the
  values its sentence names; \<open>hazard\<close> is the screening of patterns.
\<close>

section \<open>Problems\<close>

datatype pipeline_problem =
    MustBeObject string
  | MustBeList string
  | TooManySteps string
  | UnknownStepType string
  | NotAModelName string string
  | NotAText string string
  | NotNames string
  | NamesTooLong string
  | NotAWord string string
  | NotTrueOrFalse string
  | NotPatterns string
  | PatternTooLong string
  | HazardousPattern string string string
  | NotCategories string

fun first_problem :: "'p option list \<Rightarrow> 'p option" where
  \<comment> \<open>the checks in their order, until one returns\<close>
  "first_problem [] = None"
| "first_problem (None # ps) = first_problem ps"
| "first_problem (Some p # ps) = Some p"

fun text_within :: "nat \<Rightarrow> json \<Rightarrow> bool" where
  \<comment> \<open>no value, or a text of at most so many characters\<close>
  "text_within n JNull = True"
| "text_within n (JStr s) = (length s \<le> n)"
| "text_within n _ = False"

fun name_within :: "json \<Rightarrow> bool" where
  "name_within (JStr s) = (length s \<le> max_model_length)"
| "name_within _ = False"

fun names_problem :: "json \<Rightarrow> string \<Rightarrow> pipeline_problem option" where
  "names_problem (JList names) place =
     (if length names > max_fallback_models then Some (NotNames place)
      else if list_ex (\<lambda>v. \<not> name_within v) names then Some (NamesTooLong place) else None)"
| "names_problem _ place = Some (NotNames place)"

fun pattern_problem :: "(string \<Rightarrow> string option) \<Rightarrow> string \<Rightarrow> json \<Rightarrow> pipeline_problem option" where
  "pattern_problem hazard place (JStr p) =
     (if length p > max_pattern_length then Some (PatternTooLong place)
      else map_option (HazardousPattern place p) (hazard p))"
| "pattern_problem hazard place _ = Some (PatternTooLong place)"

definition patterns_problem :: "(string \<Rightarrow> string option) \<Rightarrow> json_object \<Rightarrow> string \<Rightarrow> pipeline_problem option" where
  "patterns_problem hazard config place =
     (if \<not> is_jbool (got config ''use_builtins'' (JBool True)) then Some (NotTrueOrFalse (place @ ''.use_builtins''))
      else case got config ''patterns'' (JList []) of
             JList patterns \<Rightarrow>
               if length patterns > max_patterns then Some (NotPatterns (place @ ''.patterns''))
               else first_problem (map (pattern_problem hazard (place @ ''.patterns'')) patterns)
           | _ \<Rightarrow> Some (NotPatterns (place @ ''.patterns'')))"

definition indexed :: "string \<Rightarrow> nat \<Rightarrow> string" where
  "indexed place i = place @ ''['' @ show_nat i @ '']''"

fun category_problem :: "string \<Rightarrow> json \<Rightarrow> pipeline_problem option" where
  "category_problem place (JObj category) =
     first_problem (map (\<lambda>key. if text_within max_text_length (got category key JNull) then None
       else Some (NotAText place key)) category_keys)"
| "category_problem place _ = Some (MustBeObject place)"

fun categories_problem :: "json \<Rightarrow> string \<Rightarrow> pipeline_problem option" where
  "categories_problem (JList categories) place =
     (if length categories > max_categories then Some (NotCategories place)
      else first_problem (map (\<lambda>(i, c). category_problem (indexed place i) c) (List.enumerate 0 categories)))"
| "categories_problem _ place = Some (NotCategories place)"

definition config_problem ::
  "(string \<Rightarrow> string option) \<Rightarrow> step_type \<Rightarrow> json_object \<Rightarrow> string \<Rightarrow> pipeline_problem option" where
  "config_problem hazard st config place =
     first_problem
       (map (\<lambda>key. if text_within max_model_length (got config key JNull) then None else Some (NotAModelName place key)) name_fields
        @ map (\<lambda>key. if text_within max_text_length (got config key JNull) then None else Some (NotAText place key)) text_fields
        @ [names_problem (got config ''fallback_models'' (JList [])) (place @ ''.fallback_models'')]
        @ map (\<lambda>(key, words, unknown). let v = got config key JNull in
             if v = JNull \<or> is_word words v then None else Some (NotAWord place key)) (vocabularies st)
        @ [case st of
             InjectionFilter \<Rightarrow> patterns_problem hazard config place
           | ModelRoute \<Rightarrow> categories_problem (got config ''categories'' (JList [])) (place @ ''.categories'')
           | PiiFilter \<Rightarrow> None])"

fun step_problem :: "(string \<Rightarrow> string option) \<Rightarrow> string \<Rightarrow> json \<Rightarrow> pipeline_problem option" where
  "step_problem hazard place (JObj step) =
     (case Option.bind (Option.bind (map_of step ''type'') string_of_json) step_type_of of
        None \<Rightarrow> Some (UnknownStepType place)
      | Some st \<Rightarrow>
          (let v = got step ''config'' JNull in
           if \<not> json_truthy v then config_problem hazard st [] (place @ ''.config'')
           else case v of JObj config \<Rightarrow> config_problem hazard st config (place @ ''.config'')
                | _ \<Rightarrow> Some (MustBeObject (place @ ''.config''))))"
| "step_problem hazard place _ = Some (MustBeObject place)"

fun problem_in :: "(string \<Rightarrow> string option) \<Rightarrow> json \<Rightarrow> pipeline_problem option" where
  "problem_in hazard (JObj data) =
     (case got data ''steps'' (JList []) of
        JList steps \<Rightarrow>
          if length steps > max_steps then Some (TooManySteps ''pipeline.steps'')
          else first_problem
            (map (\<lambda>(i, s). step_problem hazard (indexed ''pipeline.steps'' i) s) (List.enumerate 0 steps)
             @ map (\<lambda>kind. names_problem (got data (chain_field kind) (JList [])) (''pipeline.'' @ chain_field kind))
                 [KindGenerate, KindEmbed, KindRerank])
      | _ \<Rightarrow> Some (MustBeList ''pipeline.steps''))"
| "problem_in hazard _ = Some (MustBeObject ''pipeline'')"

section \<open>An accepted pipeline runs as it was typed\<close>

lemma first_problem_None: "first_problem ps = None \<longleftrightarrow> (\<forall>p \<in> set ps. p = None)"
  by (induction ps rule: first_problem.induct) auto

definition read_as :: "step_type \<Rightarrow> string \<Rightarrow> json \<Rightarrow> json \<Rightarrow> bool" where
  \<comment> \<open>how the reading of an accepted value may differ from it\<close>
  "read_as st key v w \<longleftrightarrow>
     w = v
     \<or> v = JNull \<and> (\<exists>words unknown. map_of (vocabularies st) key = Some (words, unknown) \<and> w = JStr unknown)
     \<or> key = ''fallback_models'' \<and> (\<exists>names. v = JList (map JStr names) \<and> w = JList (map JStr (List.filter (\<lambda>n. n \<noteq> []) names)))
     \<or> key = ''categories'' \<and> (\<exists>cs. v = JList (map JObj cs) \<and> w = JList (map JObj (map bounded_category cs))
         \<and> (\<forall>c \<in> set cs. \<forall>field \<in> set category_keys. map_of (bounded_category c) field = map_of c field))"

lemma text_within_clipped:
  "text_within n v \<Longrightarrow> n \<le> max_text_length \<Longrightarrow> (v = JNull \<or> is_jstr v) \<and> clipped v = v"
  by (cases v) auto

lemma names_within_list:
  "\<forall>v \<in> set vs. name_within v \<Longrightarrow>
     vs = map JStr (strings vs) \<and> (\<forall>n \<in> set (strings vs). length n \<le> max_model_length)"
proof (induction vs)
  case (Cons v vs)
  from Cons.prems obtain n where "v = JStr n" "length n \<le> max_model_length" by (cases v) simp_all
  with Cons show ?case by (simp add: strings_def List.map_filter_simps)
qed (simp add: strings_def List.map_filter_simps)

lemma names_within:
  assumes "names_problem v place = None"
  shows "\<exists>names. v = JList (map JStr names) \<and> length names \<le> max_fallback_models
    \<and> (\<forall>n \<in> set names. length n \<le> max_model_length)"
proof (cases v)
  case (JList vs)
  with assms have len: "length vs \<le> max_fallback_models" and "\<forall>v \<in> set vs. name_within v"
    by (simp_all add: list_ex_iff split: if_splits)
  with names_within_list have vs: "vs = map JStr (strings vs)" "\<forall>n \<in> set (strings vs). length n \<le> max_model_length"
    by blast+
  from vs(1) len have "length (strings vs) \<le> max_fallback_models" by (metis length_map)
  with vs JList show ?thesis by blast
qed (use assms in simp_all)

lemma bounded_names_within:
  assumes "length names \<le> max_fallback_models" "\<forall>n \<in> set names. length n \<le> max_model_length"
  shows "bounded_names (map JStr names) = map JStr (List.filter (\<lambda>n. n \<noteq> []) names)"
  using assms by (simp add: bounded_names_def)

lemma map_of_bounded_category:
  assumes "\<forall>v. map_of c field = Some v \<longrightarrow> text_within max_text_length v" and "field \<in> set category_keys"
  shows "map_of (bounded_category c) field = map_of c field"
  using assms(1)
proof (induction c)
  case (Cons e c)
  obtain k v where e: "e = (k, v)" by (cases e)
  show ?case
  proof (cases "k = field")
    case True
    with Cons.prems e have "text_within max_text_length v" by simp
    from text_within_clipped [OF this order_refl] True e show ?thesis by (auto simp: bounded_category_def)
  next
    case False
    with Cons.prems e have "\<forall>v. map_of c field = Some v \<longrightarrow> text_within max_text_length v" by simp
    from Cons.IH [OF this] False e show ?thesis by (simp add: bounded_category_def)
  qed
qed (simp add: bounded_category_def)

lemma category_within:
  assumes "category_problem place w = None"
  shows "\<exists>c. w = JObj c \<and> (\<forall>field \<in> set category_keys. map_of (bounded_category c) field = map_of c field)"
proof (cases w)
  case (JObj c)
  with assms have within: "\<forall>field \<in> set category_keys. text_within max_text_length (got c field JNull)"
    by (auto simp: first_problem_None image_iff split: if_splits)
  have "map_of (bounded_category c) field = map_of c field" if "field \<in> set category_keys" for field
  proof (rule map_of_bounded_category [OF _ that])
    from within that have "text_within max_text_length (got c field JNull)" by blast
    then show "\<forall>v. map_of c field = Some v \<longrightarrow> text_within max_text_length v" by (auto simp: got_def)
  qed
  with JObj show ?thesis by blast
qed (use assms in simp_all)

lemma categories_within:
  assumes "categories_problem v place = None"
  shows "\<exists>cs. v = JList (map JObj cs) \<and> length cs \<le> max_categories
    \<and> (\<forall>c \<in> set cs. \<forall>field \<in> set category_keys. map_of (bounded_category c) field = map_of c field)"
proof (cases v)
  case (JList vs)
  with assms have len: "length vs \<le> max_categories"
    and each: "\<forall>(i, w) \<in> set (List.enumerate 0 vs). category_problem (indexed place i) w = None"
    by (auto simp: first_problem_None split: if_splits)
  have "\<forall>w \<in> set vs. \<exists>c. w = JObj c \<and> (\<forall>field \<in> set category_keys. map_of (bounded_category c) field = map_of c field)"
  proof
    fix w assume "w \<in> set vs"
    then obtain i where "i < length vs" "vs ! i = w" by (auto simp: in_set_conv_nth)
    then have "(i, w) \<in> set (List.enumerate 0 vs)" by (simp add: in_set_enumerate_eq)
    with each show "\<exists>c. w = JObj c \<and> (\<forall>field \<in> set category_keys. map_of (bounded_category c) field = map_of c field)"
      by (blast intro: category_within)
  qed
  from bchoice [OF this] obtain f where f: "\<forall>w \<in> set vs. w = JObj (f w)
      \<and> (\<forall>field \<in> set category_keys. map_of (bounded_category (f w)) field = map_of (f w) field)" by blast
  then have "vs = map JObj (map f vs)" by (simp add: map_idI)
  with f len JList show ?thesis by (intro exI [of _ "map f vs"]) simp
qed (use assms in simp_all)

definition typed_config :: "json_object \<Rightarrow> json_object" where
  \<comment> \<open>the configuration as it was typed; none, or an empty value, is an empty one\<close>
  "typed_config step = (case got step ''config'' JNull of JObj config \<Rightarrow> config | _ \<Rightarrow> [])"

lemma bound_order: "max_model_length \<le> max_text_length"
  by (simp add: max_model_length_def max_model_name_def max_text_length_def)

lemma passed_checks:
  "(\<forall>p \<in> set (map (\<lambda>k. if P k then None else Some (f k)) ks). p = None) \<longleftrightarrow> (\<forall>k \<in> set ks. P k)"
  by (induction ks) simp_all

lemma config_checks:
  assumes "config_problem hazard st config place = None"
  shows "key \<in> text_keys \<Longrightarrow> text_within max_text_length (got config key JNull)"
    and "names_problem (got config ''fallback_models'' (JList [])) (place @ ''.fallback_models'') = None"
    and "map_of (vocabularies st) key = Some (words, unknown) \<Longrightarrow> got config key JNull = JNull \<or> is_word words (got config key JNull)"
    and "st = InjectionFilter \<Longrightarrow> patterns_problem hazard config place = None"
    and "st = ModelRoute \<Longrightarrow> categories_problem (got config ''categories'' (JList [])) (place @ ''.categories'') = None"
proof -
  from assms have all: "\<forall>k \<in> set name_fields. text_within max_model_length (got config k JNull)"
      "\<forall>k \<in> set text_fields. text_within max_text_length (got config k JNull)"
      "\<forall>(k, words, unknown) \<in> set (vocabularies st). got config k JNull = JNull \<or> is_word words (got config k JNull)"
    unfolding config_problem_def first_problem_None set_append ball_Un case_prod_unfold Let_def passed_checks
    by simp_all
  have "text_within max_text_length v" if "text_within max_model_length v" for v
    using that bound_order by (cases v) auto
  with all show "text_within max_text_length (got config key JNull)" if "key \<in> text_keys"
    using that unfolding text_keys_def set_append by blast
  show "got config key JNull = JNull \<or> is_word words (got config key JNull)"
    if "map_of (vocabularies st) key = Some (words, unknown)"
    using all(3) map_of_SomeD [OF that] by blast
  from assms show "names_problem (got config ''fallback_models'' (JList [])) (place @ ''.fallback_models'') = None"
    "st = InjectionFilter \<Longrightarrow> patterns_problem hazard config place = None"
    "st = ModelRoute \<Longrightarrow> categories_problem (got config ''categories'' (JList [])) (place @ ''.categories'') = None"
    by (simp_all add: config_problem_def first_problem_None)
qed

lemma patterns_within:
  assumes "patterns_problem hazard config place = None"
  shows "is_jbool (got config ''use_builtins'' (JBool True))"
    and "\<exists>patterns. got config ''patterns'' (JList []) = JList (map JStr patterns)"
proof -
  from assms show "is_jbool (got config ''use_builtins'' (JBool True))"
    by (simp add: patterns_problem_def split: if_splits)
  from assms obtain vs where vs: "got config ''patterns'' (JList []) = JList vs"
    and "\<forall>v \<in> set vs. pattern_problem hazard (place @ ''.patterns'') v = None"
    by (auto simp: patterns_problem_def first_problem_None split: if_splits json.splits)
  then have "\<forall>v \<in> set vs. \<exists>s. v = JStr s" by (metis json.exhaust option.distinct(1) pattern_problem.simps)
  then have "map JStr (strings vs) = vs"
    by (induction vs) (auto simp: strings_def List.map_filter_simps)
  with vs show "\<exists>patterns. got config ''patterns'' (JList []) = JList (map JStr patterns)" by metis
qed

lemma accepted_value:
  assumes ok: "config_problem hazard st config place = None" and v: "map_of config key = Some v"
    and key: "key \<in> set (step_config_keys st)"
  shows "\<exists>w. corrected st key v = Some w \<and> read_as st key v w"
proof (cases st key rule: key_classes)
  case label
  from config_checks(1) [OF ok label(1)] v have "text_within max_text_length v" by (simp add: got_def)
  from text_within_clipped [OF this order_refl] label show ?thesis by (auto simp: corrected_simps read_as_def)
next
  case chain
  from config_checks(2) [OF ok] v chain have "names_problem v (place @ ''.fallback_models'') = None" by (simp add: got_def)
  from names_within [OF this] chain show ?thesis by (auto simp: corrected_simps read_as_def bounded_names_within)
next
  case cats
  with key have "st = ModelRoute" by (cases st) simp_all
  from config_checks(5) [OF ok this] v cats have "categories_problem v (place @ ''.categories'') = None" by (simp add: got_def)
  from categories_within [OF this] obtain cs where cs: "v = JList (map JObj cs)" "length cs \<le> max_categories"
    "\<forall>c \<in> set cs. \<forall>field \<in> set category_keys. map_of (bounded_category c) field = map_of c field" by blast
  then have "corrected st key v = Some (JList (map JObj (map bounded_category cs)))"
    by (simp add: cats corrected_simps bounded_categories_eq List.map_filter_def comp_def)
  moreover from cs have "read_as st key v (JList (map JObj (map bounded_category cs)))"
    by (auto simp: cats read_as_def)
  ultimately show ?thesis by blast
next
  case pats
  with key have "st = InjectionFilter" by (cases st) simp_all
  from patterns_within(2) [OF config_checks(4) [OF ok this]] v pats obtain ps where "v = JList (map JStr ps)" by (auto simp: got_def)
  with pats show ?thesis by (simp add: corrected_simps read_as_def)
next
  case builtins
  with key have "st = InjectionFilter" by (cases st) simp_all
  from patterns_within(1) [OF config_checks(4) [OF ok this]] v builtins have "is_jbool v" by (simp add: got_def)
  with builtins show ?thesis by (simp add: corrected_simps read_as_def)
next
  case (word words unknown)
  from config_checks(3) [OF ok word(1)] v have "v = JNull \<or> is_word words v" by (simp add: got_def)
  with word show ?thesis by (auto simp: corrected_plain read_as_def)
next
  case other
  with key show ?thesis
    by (cases st) (auto simp: text_keys_def name_fields_def text_fields_def split: if_splits)
qed

definition runs_as_typed :: "json \<Rightarrow> pipeline_step \<Rightarrow> bool" where
  \<comment> \<open>a step is of the type that was typed, and reads of each of its settings what was typed\<close>
  "runs_as_typed raw s \<longleftrightarrow>
     (case raw of
        JObj step \<Rightarrow>
          map_of step ''type'' = Some (JStr (step_type_value (ps_type s)))
          \<and> list_all (\<lambda>key.
               case (map_of (typed_config step) key, map_of (ps_config s) key) of
                 (None, None) \<Rightarrow> True
               | (Some v, Some w) \<Rightarrow> read_as (ps_type s) key v w
               | _ \<Rightarrow> False) (step_config_keys (ps_type s))
      | _ \<Rightarrow> False)"

lemma string_of_json_Some [simp]: "string_of_json v = Some s \<longleftrightarrow> v = JStr s"
  by (cases v) auto

lemma accepted_step:
  assumes ok: "step_problem hazard place raw = None"
  shows "\<exists>s. parse_step raw = Some s \<and> runs_as_typed raw s"
proof (cases raw)
  case (JObj step)
  from ok JObj obtain st word where word: "map_of step ''type'' = Some (JStr word)" and st: "step_type_of word = Some st"
    by (auto split: option.splits simp: bind_eq_Some_conv)
  then have "word = step_type_value st" by (auto simp: step_type_of_def find_Some_iff)
  with word have type: "map_of step ''type'' = Some (JStr (step_type_value st))" by simp
  have config: "config_problem hazard st (typed_config step) (place @ ''.config'') = None"
    using ok JObj word st
    by (cases "got step ''config'' JNull") (auto simp: typed_config_def split: if_splits)
  let ?parsed = "parse_config st (map_of step ''config'')"
  have parsed: "map_of ?parsed key = Option.bind (map_of (typed_config step) key) (corrected st key)" for key
  proof (cases "map_of step ''config''")
    case (Some v)
    show ?thesis
    proof (cases v)
      case (JObj c)
      with Some show ?thesis by (simp add: typed_config_def got_def map_of_parsed)
    qed (simp_all add: Some typed_config_def got_def parse_config.simps)
  qed (simp add: typed_config_def got_def parse_config.simps)
  have "case (map_of (typed_config step) key, map_of ?parsed key) of
      (None, None) \<Rightarrow> True | (Some v, Some w) \<Rightarrow> read_as st key v w | _ \<Rightarrow> False"
    if "key \<in> set (step_config_keys st)" for key
    using accepted_value [OF config _ that] by (cases "map_of (typed_config step) key") (auto simp: parsed)
  then have "runs_as_typed raw \<lparr>ps_type = st, ps_config = ?parsed\<rparr>"
    by (simp add: JObj runs_as_typed_def type list_all_iff cong: option.case_cong)
  moreover from JObj word st have "parse_step raw = Some \<lparr>ps_type = st, ps_config = ?parsed\<rparr>" by simp
  ultimately show ?thesis by blast
qed (use ok in simp_all)

lemma accepted_steps:
  "\<forall>raw \<in> set raws. \<exists>s. parse_step raw = Some s \<and> runs_as_typed raw s \<Longrightarrow>
     list_all2 runs_as_typed raws (List.map_filter parse_step raws)"
  by (induction raws) (auto simp: List.map_filter_simps)

lemma accepted_chain:
  assumes "names_problem (got data (chain_field kind) (JList [])) place = None"
  shows "parse_chain data kind = List.filter (\<lambda>m. m \<noteq> []) (strings (list_or_nothing (map_of data (chain_field kind))))"
proof (cases "map_of data (chain_field kind)")
  case (Some v)
  with assms have "names_problem v place = None" by (simp add: got_def)
  from names_within [OF this] Some show ?thesis by (auto simp: parse_chain_def intro!: map_idI)
qed (simp add: parse_chain_def strings_def List.map_filter_simps)

definition sample_typed :: json_object where
  "sample_typed = [
     (''steps'', JList [
        JObj [(''type'', JStr ''injection_filter''),
          (''config'', JObj [(''mode'', JStr ''llm''), (''action'', JNull), (''model'', JStr ''judge''), (''patterns'', JList [JStr ''jailbreak''])])],
        JObj [(''type'', JStr ''model_route''),
          (''config'', JObj [(''categories'', JList [JObj [(''name'', JStr ''code''), (''model'', JStr ''coder'')]])])],
        JObj [(''type'', JStr ''pii_filter''), (''config'', JNull)]]),
     (''fallback_models'', JList [JStr ''small'', JStr []])]"



end
