(* ===== verification/Pipeline_Steps.thy ===== *)
theory Pipeline_Steps
  imports Classifiers
begin

text \<open>
  One step of a pipeline, evaluated (\<open>gateway/src/aira_gateway/pipeline/engine/steps.py\<close>): which models it
  may ask and in which order, when its chain moves on, and what it makes of the answer. An evaluation is
  what the step did; the runner of theory \<open>Pipeline_Runner\<close> interprets it. The left summand is an
  exception the step does not catch.
\<close>

section \<open>Evaluations\<close>

record evaluation =
  sv_type :: step_type
  sv_action :: string
  sv_detail :: json_object
  sv_decision :: "decision option"
  sv_call :: "model_call option"
  sv_request :: "canonical_request option"
  sv_block :: "string option"
  sv_notice :: "string option"
  sv_rewrote :: "(string \<times> string) option"

definition shown_length :: nat where "shown_length = 600"

definition no_classifier :: string where
  "no_classifier = ''no model this step names can be reached from this gateway''"

definition partial_scan :: string where
  "partial_scan = ''the text is longer than the scanned bound; its first and last part were read''"

text \<open>Reading a configuration: text that may be absent, and a word with its default.\<close>

definition config_text :: "json_object \<Rightarrow> string \<Rightarrow> string" where
  \<comment> \<open>\<open>config.get(key)\<close> where only a non-empty text counts\<close>
  "config_text config key = (case map_of config key of Some (JStr s) \<Rightarrow> s | _ \<Rightarrow> [])"

definition config_word :: "json_object \<Rightarrow> string \<Rightarrow> string \<Rightarrow> string" where
  \<comment> \<open>\<open>str(config.get(key, dflt))\<close>\<close>
  "config_word config key dflt = (case map_of config key of None \<Rightarrow> dflt | Some v \<Rightarrow> json_str v)"

definition config_list :: "json_object \<Rightarrow> string \<Rightarrow> json list" where
  \<comment> \<open>\<open>config.get(key) or ()\<close>\<close>
  "config_list config key = list_or_nothing (map_of config key)"

fun blocks :: "verdict \<Rightarrow> json_object \<Rightarrow> bool" where
  "blocks v config =
     (if map_of config ''action'' = Some (JStr ''flag'') then False
      else if v = Injection then True
      else if v = Undetermined then config_word config ''on_undetermined'' ''block'' \<noteq> ''allow''
      else False)"

definition rejection :: "verdict \<Rightarrow> string" where
  "rejection v =
     (if v = Undetermined
      then ''The prompt-injection filter could not reach a verdict, and this use case is ''
        @ ''configured to refuse rather than serve an unchecked request.''
      else ''Request rejected by the prompt-injection filter.'')"

definition shown :: "string \<Rightarrow> string" where
  \<comment> \<open>the ellipsis is one character\<close>
  "shown text =
     (let t = py_strip text in if length t \<le> shown_length then t else take shown_length t @ [CHR 0x85])"

definition said :: "string \<Rightarrow> string option \<Rightarrow> json_object" where
  "said reply model =
     (if py_strip reply \<noteq> [] then [(''output'', JStr (shown reply))] else [])
     @ (if truthy model then [(''classifier'', JStr (the model))] else [])"

definition filled :: "string \<Rightarrow> string \<Rightarrow> string \<Rightarrow> string" where
  \<comment> \<open>\<open>_filled(template, category=..., model=...)\<close>\<close>
  "filled template category model =
     replace_text ''{model}'' model (replace_text ''{category}'' category template)"

fun is_text_part :: "part \<Rightarrow> bool" where
  "is_text_part (TextPart _) = True"
| "is_text_part _ = False"

fun with_last_user :: "(message \<Rightarrow> message) \<Rightarrow> message list \<Rightarrow> message list" where
  \<comment> \<open>the loop from the end, over the reversed messages\<close>
  "with_last_user f [] = []"
| "with_last_user f (m # ms) = (if msg_role m = User then f m # ms else m # with_last_user f ms)"

definition with_user_text :: "canonical_request \<Rightarrow> string \<Rightarrow> canonical_request" where
  "with_user_text rq text =
     rq\<lparr>rq_messages := rev (with_last_user
       (\<lambda>m. m\<lparr>msg_parts := TextPart text # List.filter (\<lambda>p. \<not> is_text_part p) (msg_parts m)\<rparr>)
       (rev (rq_messages rq)))\<rparr>"

definition system_and_user :: "canonical_request \<Rightarrow> string" where
  "system_and_user rq =
     join newline (map message_text (List.filter (\<lambda>m. msg_role m \<in> {System, User}) (rq_messages rq)))"

definition scanned_text :: "canonical_request \<Rightarrow> json_object \<Rightarrow> string" where
  \<comment> \<open>\<open>_scanned_text(request, config.get("scope", ScanScope.USER))\<close>\<close>
  "scanned_text rq config =
     (if map_of config ''scope'' \<in> {None, Some (JStr ''user'')} then last_user_text rq else system_and_user rq)"

section \<open>Which models a step asks\<close>

definition step_provider :: "step_env \<Rightarrow> string \<Rightarrow> upstream option" where
  "step_provider env model =
     (case provider_for (se_registry env) model [] [] of
        Some up \<Rightarrow> Some up
      | None \<Rightarrow>
          (case se_declaration env of
             None \<Rightarrow> None
           | Some declaration_of \<Rightarrow>
               provider_for (se_registry env) model (d_provider (declaration_of model)) (d_publisher (declaration_of model))))"

definition step_permits :: "step_env \<Rightarrow> string \<Rightarrow> string option" where
  "step_permits env model = (case se_permits env of None \<Rightarrow> None | Some permits \<Rightarrow> permits model)"

record candidates =
  ca_found :: "(string \<times> upstream) list"
  ca_withheld :: "string list"

fun collect :: "step_env \<Rightarrow> string set \<Rightarrow> string list \<Rightarrow> candidates" where
  "collect env seen [] = \<lparr>ca_found = [], ca_withheld = []\<rparr>"
| "collect env seen (model # names) =
     (if model = [] \<or> model \<in> seen then collect env seen names
      else let rest = collect env (insert model seen) names in
        (case step_provider env model of
           None \<Rightarrow> rest
         | Some up \<Rightarrow>
             (case step_permits env model of
                Some refusal \<Rightarrow> rest\<lparr>ca_withheld := (model @ '': '' @ refusal) # ca_withheld rest\<rparr>
              | None \<Rightarrow> rest\<lparr>ca_found := (model, up) # ca_found rest\<rparr>)))"

fun falsy_name :: "json \<Rightarrow> string" where
  \<comment> \<open>\<open>str(name) if name else ""\<close>\<close>
  "falsy_name v = (if json_truthy v then json_str v else [])"

definition step_names :: "json_object \<Rightarrow> string list" where
  "step_names config =
     (case map_of config ''model'' of None \<Rightarrow> [] | Some v \<Rightarrow> falsy_name v)
     # map falsy_name (config_list config ''fallback_models'')"

definition models_for :: "step_env \<Rightarrow> json_object \<Rightarrow> candidates" where
  "models_for env config = collect env {} (step_names config)"

definition why_none :: "candidates \<Rightarrow> string \<Rightarrow> string" where
  "why_none c otherwise =
     (if ca_withheld c \<noteq> [] then ''no model this step names may be called: '' @ join ''; '' (ca_withheld c)
      else otherwise)"

text \<open>The first model reached answers; of none, the last one tried does.\<close>

fun asked ::
  "(string \<Rightarrow> upstream \<Rightarrow> step_error + 'a) \<Rightarrow> ('a \<Rightarrow> bool) \<Rightarrow> (string \<times> upstream) list \<Rightarrow> (string \<times> 'a) option
     \<Rightarrow> step_error + (string \<times> 'a) option" where
  "asked ask ok [] answered = Inr answered"
| "asked ask ok ((model, up) # cs) answered =
     (case ask model up of
        Inl e \<Rightarrow> Inl e
      | Inr answer \<Rightarrow> if ok answer then Inr (Some (model, answer)) else asked ask ok cs (Some (model, answer)))"

definition thinking_for :: "step_env \<Rightarrow> string \<Rightarrow> thinking_rejected + thinking option" where
  "thinking_for env model =
     (case se_declaration env of
        None \<Rightarrow> Inr (Some thinking_off)
      | Some declaration_of \<Rightarrow> for_a_classifier (declaration_of model))"

definition with_thinking ::
  "step_env \<Rightarrow> string \<Rightarrow> (thinking option \<Rightarrow> step_error + 'a) \<Rightarrow> step_error + 'a" where
  "with_thinking env model call =
     (case thinking_for env model of Inl e \<Rightarrow> Inl (ThinkingEscaped e) | Inr setting \<Rightarrow> call setting)"

section \<open>The injection filter\<close>

definition step_heuristic :: "step_env \<Rightarrow> json_object \<Rightarrow> string \<Rightarrow> classification" where
  "step_heuristic env config text =
     heuristic env (strings (config_list config ''patterns''))
       (map_of config ''use_builtins'' \<noteq> Some (JBool False)) text"

definition ask_injection :: "step_env \<Rightarrow> json_object \<Rightarrow> string \<Rightarrow> string \<Rightarrow> upstream \<Rightarrow> step_error + classification" where
  "ask_injection env config text model up =
     with_thinking env model (\<lambda>setting. llm_injection env up model (config_text config ''instruction'') setting text)"

definition classify ::
  "step_env \<Rightarrow> json_object \<Rightarrow> canonical_request \<Rightarrow> step_error + classification \<times> string option" where
  "classify env config rq =
     (let text = scanned_text rq config in
      if map_of config ''mode'' = Some (JStr ''llm'')
      then let c = models_for env config in
        sum_bind (asked (ask_injection env config text) cl_reached (ca_found c) None) (\<lambda>answered.
          case answered of
            Some (_, answer) \<Rightarrow> Inr (answer, None)
          | None \<Rightarrow> Inr (step_heuristic env config text, Some (why_none c no_classifier)))
      else Inr (step_heuristic env config text, None))"

definition filter_evaluation :: "json_object \<Rightarrow> classification \<Rightarrow> string option \<Rightarrow> evaluation" where
  "filter_evaluation config cl unasked =
     (let v = cl_verdict cl; fell_back = unasked \<noteq> None; action = config_word config ''action'' ''block'';
          blocking = blocks v config;
          why = (if fell_back then verdict_value v @ '' (by the heuristic)'' else verdict_value v);
          notes = (case unasked of None \<Rightarrow> [] | Some u \<Rightarrow> [''decided by the heuristic: '' @ u])
            @ (if cl_unscanned cl > 0 then [partial_scan] else [])
      in \<lparr>sv_type = InjectionFilter,
          sv_action = (if blocking then ''blocked'' else if v = Clean then ''passed'' else ''flagged''),
          sv_detail =
            [(''mode'', case map_of config ''mode'' of None \<Rightarrow> JStr ''heuristic'' | Some m \<Rightarrow> m),
             (''action'', JStr action), (''verdict'', JStr (verdict_value v))]
            @ (if fell_back then [(''decided_by'', JStr ''heuristic'')] else [])
            @ (if cl_unscanned cl > 0 then [(''unscanned'', JInt (int (cl_unscanned cl)))] else [])
            @ (if notes \<noteq> [] then [(''why'', JStr (join ''; '' notes))] else [])
            @ said (cl_reply cl) (map_option mc_model (cl_call cl)),
          sv_decision = Some
            [(''step'', JStr ''injection_filter''), (''flagged'', JBool (v \<noteq> Clean)),
             (''action'', JStr (if blocking then ''blocked'' else action)), (''why'', JStr why)],
          sv_call = cl_call cl, sv_request = None,
          sv_block = (if blocking then Some (rejection v) else None),
          sv_notice = None, sv_rewrote = None\<rparr>)"

definition evaluate_injection_filter ::
  "step_env \<Rightarrow> json_object \<Rightarrow> canonical_request \<Rightarrow> step_error + evaluation" where
  "evaluate_injection_filter env config rq =
     sum_bind (classify env config rq) (\<lambda>(cl, unasked). Inr (filter_evaluation config cl unasked))"

section \<open>The router\<close>

record routed =
  rd_category :: "string option"
  rd_target :: string
  rd_call :: "model_call option"
  rd_reply :: string
  rd_classifier :: "string option"
  rd_unasked :: string

definition ask_route ::
  "step_env \<Rightarrow> json_object list \<Rightarrow> canonical_request \<Rightarrow> string \<Rightarrow> upstream \<Rightarrow> step_error + routing_answer" where
  "ask_route env categories rq model up =
     with_thinking env model (\<lambda>setting. llm_route env up model categories setting (system_and_user rq))"

definition step_categories :: "json_object \<Rightarrow> json_object list" where
  "step_categories config = List.map_filter (\<lambda>v. json_object_of (Some v)) (config_list config ''categories'')"

definition target_of :: "json_object list \<Rightarrow> string \<Rightarrow> string \<Rightarrow> string option" where
  \<comment> \<open>the model of the first category of that name, else the default, or \<open>None\<close> where none has it\<close>
  "target_of categories dflt name =
     map_option (\<lambda>c. if config_text c ''model'' = [] then dflt else config_text c ''model'')
       (List.find (\<lambda>c. map_of c ''name'' = Some (JStr name)) categories)"

definition route :: "step_env \<Rightarrow> json_object \<Rightarrow> canonical_request \<Rightarrow> step_error + routed" where
  "route env config rq =
     (let categories = step_categories config; dflt = config_text config ''default_model'';
          nowhere = \<lparr>rd_category = None, rd_target = dflt, rd_call = None, rd_reply = [],
            rd_classifier = None, rd_unasked = []\<rparr>
      in if categories = [] then Inr nowhere
      else let c = models_for env config in
        sum_bind (asked (ask_route env categories rq) ro_reached (ca_found c) None) (\<lambda>answered.
          case answered of
            None \<Rightarrow> Inr (nowhere\<lparr>rd_unasked := why_none c no_classifier\<rparr>)
          | Some (model, answer) \<Rightarrow>
              let unmatched = \<lparr>rd_category = None, rd_target = dflt, rd_call = ro_call answer,
                    rd_reply = ro_reply answer, rd_classifier = Some model, rd_unasked = []\<rparr>
              in (case ro_category answer of
                    None \<Rightarrow> Inr unmatched
                  | Some name \<Rightarrow>
                      (case (if name = [] then None else target_of categories dflt name) of
                         None \<Rightarrow> Inr unmatched
                       | Some target \<Rightarrow> Inr (unmatched\<lparr>rd_category := Some name, rd_target := target\<rparr>)))))"

definition optional_text :: "string option \<Rightarrow> json" where
  "optional_text s = (case s of None \<Rightarrow> JNull | Some t \<Rightarrow> JStr t)"

definition not_asked_evaluation :: "json_object \<Rightarrow> canonical_request \<Rightarrow> routed \<Rightarrow> evaluation" where
  "not_asked_evaluation config rq r =
     (let dflt = config_text config ''default_model''; retarget = (dflt \<noteq> [] \<and> dflt \<noteq> rq_model rq);
          why = (if truthy (rd_classifier r) then ''the classifier could not be reached or refused the request''
                 else if rd_unasked r \<noteq> [] then rd_unasked r else no_classifier)
      in \<lparr>sv_type = ModelRoute, sv_action = ''not_asked'',
          sv_detail = [(''why'', JStr why), (if retarget then (''to'', JStr dflt) else (''model'', JStr (rq_model rq)))],
          sv_decision = Some [(''step'', JStr ''model_route''), (''action'', JStr ''not_asked''),
            (''why'', JStr (if truthy (rd_classifier r) then ''classifier_failed'' else ''no_classifier''))],
          sv_call = None, sv_request = (if retarget then Some (rq\<lparr>rq_model := dflt\<rparr>) else None),
          sv_block = None, sv_notice = None, sv_rewrote = None\<rparr>)"

definition routed_evaluation :: "json_object \<Rightarrow> canonical_request \<Rightarrow> routed \<Rightarrow> evaluation" where
  "routed_evaluation config rq r =
     (let template = py_strip (config_text config ''notice'');
          target = (if rd_target r = [] then rq_model rq else rd_target r);
          notice = (if template \<noteq> [] \<and> truthy (rd_category r)
                    then Some (filled template (the (rd_category r)) target) else None);
          category = optional_text (rd_category r);
          talk = said (rd_reply r) (rd_classifier r)
      in if target \<noteq> rq_model rq
         then \<lparr>sv_type = ModelRoute, sv_action = ''rerouted'',
           sv_detail = [(''category'', category), (''from'', JStr (rq_model rq)), (''to'', JStr target)] @ talk,
           sv_decision = Some [(''step'', JStr ''model_route''), (''category'', category),
             (''from'', JStr (rq_model rq)), (''to'', JStr target)],
           sv_call = rd_call r, sv_request = Some (rq\<lparr>rq_model := target\<rparr>),
           sv_block = None, sv_notice = notice, sv_rewrote = None\<rparr>
         else \<lparr>sv_type = ModelRoute, sv_action = ''unchanged'',
           sv_detail = [(''category'', category), (''model'', JStr (rq_model rq))] @ talk,
           sv_decision = Some [(''step'', JStr ''model_route''), (''action'', JStr ''unchanged''),
             (''category'', JStr (case rd_category r of None \<Rightarrow> [] | Some c \<Rightarrow> c)),
             (''why'', JStr (if truthy (rd_category r) then ''matched'' else ''no_category_matched''))],
           sv_call = rd_call r, sv_request = None, sv_block = None, sv_notice = notice, sv_rewrote = None\<rparr>)"

definition evaluate_model_route ::
  "step_env \<Rightarrow> json_object \<Rightarrow> canonical_request \<Rightarrow> step_error + evaluation" where
  "evaluate_model_route env config rq =
     sum_bind (route env config rq) (\<lambda>r.
       Inr (if rd_call r = None \<and> config_list config ''categories'' \<noteq> []
            then not_asked_evaluation config rq r else routed_evaluation config rq r))"

section \<open>The redactor\<close>

definition pii_failure :: "json_object \<Rightarrow> string \<Rightarrow> model_call option \<Rightarrow> evaluation" where
  "pii_failure config why call =
     (let allows = (config_word config ''on_failure'' ''block'' = ''allow'');
          action = (if allows then ''allowed'' else ''blocked'')
      in \<lparr>sv_type = PiiFilter, sv_action = action,
          sv_detail = [(''why'', JStr why), (''on_failure'', JStr (if allows then ''allow'' else ''block''))],
          sv_decision = Some [(''step'', JStr ''pii_filter''), (''action'', JStr action), (''why'', JStr why)],
          sv_call = call, sv_request = None,
          sv_block = (if allows then None else Some (''Personal data could not be removed: '' @ why @ ''.'')),
          sv_notice = None, sv_rewrote = None\<rparr>)"

definition ask_redactor :: "step_env \<Rightarrow> json_object \<Rightarrow> string \<Rightarrow> string \<Rightarrow> upstream \<Rightarrow> step_error + redaction" where
  "ask_redactor env config original model up =
     with_thinking env model (\<lambda>setting. llm_redact env up model (config_text config ''instruction'') setting original)"

definition redacted_evaluation ::
  "json_object \<Rightarrow> canonical_request \<Rightarrow> string \<Rightarrow> string \<Rightarrow> string \<Rightarrow> model_call option \<Rightarrow> evaluation" where
  "redacted_evaluation config rq original model text call =
     (let changed = (py_strip text \<noteq> py_strip original);
          action = (if changed then ''redacted'' else ''unchanged'')
      in \<lparr>sv_type = PiiFilter, sv_action = action,
          sv_detail = [(''classifier'', JStr model), (''changed'', JBool changed),
            (''before'', JStr (shown original)), (''after'', JStr (shown text))],
          sv_decision = Some [(''step'', JStr ''pii_filter''), (''action'', JStr action), (''why'', JStr model)],
          sv_call = call, sv_request = (if changed then Some (with_user_text rq text) else None),
          sv_block = None,
          sv_notice = (if changed then Some (py_strip (config_text config ''notice'')) else None),
          sv_rewrote = (if changed then Some (original, text) else None)\<rparr>)"

definition evaluate_pii_filter ::
  "step_env \<Rightarrow> json_object \<Rightarrow> canonical_request \<Rightarrow> step_error + evaluation" where
  "evaluate_pii_filter env config rq =
     (let c = models_for env config; original = last_user_text rq in
      sum_bind (asked (ask_redactor env config original) rx_reached (ca_found c) None) (\<lambda>answered.
        case answered of
          None \<Rightarrow> Inr (pii_failure config (why_none c ''no model is available to redact with'') None)
        | Some (model, result) \<Rightarrow>
            (case rx_text result of
               None \<Rightarrow> Inr (pii_failure config
                 (if truthy (rx_failure result) then the (rx_failure result) else ''the redactor failed'') (rx_call result))
             | Some text \<Rightarrow> Inr (redacted_evaluation config rq original model text (rx_call result)))))"

section \<open>The dispatch over step types\<close>

fun evaluate :: "step_env \<Rightarrow> pipeline_step \<Rightarrow> canonical_request \<Rightarrow> step_error + evaluation" where
  "evaluate env step rq =
     (case ps_type step of
        InjectionFilter \<Rightarrow> evaluate_injection_filter env (ps_config step) rq
      | ModelRoute \<Rightarrow> evaluate_model_route env (ps_config step) rq
      | PiiFilter \<Rightarrow> evaluate_pii_filter env (ps_config step) rq)"

section \<open>What a step may ask\<close>

text \<open>
  The candidates are the names in the order they are written, each once, without those no provider serves
  or a condition refuses.
\<close>

definition eligible :: "step_env \<Rightarrow> string \<Rightarrow> bool" where
  "eligible env model \<longleftrightarrow> step_provider env model \<noteq> None \<and> step_permits env model = None"

lemma collect_found:
  "ca_found (collect env seen names) =
     map (\<lambda>m. (m, the (step_provider env m)))
       (List.filter (eligible env) (keep_first (List.filter (\<lambda>m. m \<noteq> [] \<and> m \<notin> seen) names)))"
proof (induction env seen names rule: collect.induct)
  case (2 env seen model names)
  show ?case
  proof (cases "model = [] \<or> model \<in> seen")
    case True
    with "2.IH"(1) show ?thesis by auto
  next
    case False
    have "List.filter (\<lambda>m. m \<noteq> [] \<and> m \<notin> insert model seen) names
        = List.filter (\<lambda>m. m \<noteq> model) (List.filter (\<lambda>m. m \<noteq> [] \<and> m \<notin> seen) names)"
      by (auto intro: filter_cong)
    with "2.IH"(2) [OF False] False show ?thesis by (auto simp: eligible_def Let_def split: option.splits)
  qed
qed simp

lemma models_for_found:
  "ca_found (models_for env config) =
     map (\<lambda>m. (m, the (step_provider env m)))
       (List.filter (eligible env) (keep_first (List.filter (\<lambda>m. m \<noteq> []) (step_names config))))"
  by (simp add: models_for_def collect_found)

lemma found_eligible:
  "(model, up) \<in> set (ca_found (models_for env config)) \<Longrightarrow>
     model \<noteq> [] \<and> model \<in> set (step_names config) \<and> step_provider env model = Some up \<and> step_permits env model = None"
  by (auto simp: models_for_found eligible_def)

text \<open>The chain of a step, seen from its candidates.\<close>

lemma asked_ends:
  "asked ask ok cs answered = Inr result \<Longrightarrow> cs \<noteq> [] \<Longrightarrow>
     \<exists>i a. i < length cs \<and> result = Some (fst (cs ! i), a) \<and> ask (fst (cs ! i)) (snd (cs ! i)) = Inr a
       \<and> (\<forall>j < i. \<exists>b. ask (fst (cs ! j)) (snd (cs ! j)) = Inr b \<and> \<not> ok b)
       \<and> (ok a \<or> Suc i = length cs)"
proof (induction ask ok cs answered rule: asked.induct)
  case (2 ask ok model up cs answered)
  from "2.prems"(1) obtain a where a: "ask model up = Inr a" by (cases "ask model up") simp_all
  show ?case
  proof (cases "ok a \<or> cs = []")
    case True
    with "2.prems" a show ?thesis by (intro exI [of _ 0]) (auto split: if_splits)
  next
    case False
    with "2.prems"(1) a have "asked ask ok cs (Some (model, a)) = Inr result" by simp
    from "2.IH" [OF a _ this] False obtain i b where
      i: "i < length cs" "result = Some (fst (cs ! i), b)" "ask (fst (cs ! i)) (snd (cs ! i)) = Inr b"
      and before: "\<forall>j < i. \<exists>b. ask (fst (cs ! j)) (snd (cs ! j)) = Inr b \<and> \<not> ok b"
      and ends: "ok b \<or> Suc i = length cs" by auto
    have "\<exists>b. ask (fst (((model, up) # cs) ! j)) (snd (((model, up) # cs) ! j)) = Inr b \<and> \<not> ok b" if "j < Suc i" for j
      using that before a False by (cases j) auto
    with i ends show ?thesis by (intro exI [of _ "Suc i"] exI [of _ b]) auto
  qed
qed simp

lemma asked_cong:
  "(\<And>model up. (model, up) \<in> set cs \<Longrightarrow> ask' model up = ask model up) \<Longrightarrow> asked ask' ok cs answered = asked ask ok cs answered"
  by (induction ask ok cs answered rule: asked.induct) (auto split: sum.split)

text \<open>
  The frame of an evaluation: it depends on what adapters answer only through the requests it may make,
  to the adapter that serves one of its own models the conditions permit. None of them carries an address.
\<close>

definition may_ask :: "step_env \<Rightarrow> json_object \<Rightarrow> upstream \<Rightarrow> canonical_request \<Rightarrow> bool" where
  "may_ask env config up sent \<longleftrightarrow>
     rq_model sent \<in> set (step_names config) \<and> step_provider env (rq_model sent) = Some up
     \<and> step_permits env (rq_model sent) = None \<and> rq_addressing sent = []"

lemma env_update_sel [simp]:
  "step_provider (env\<lparr>se_generate := g\<rparr>) m = step_provider env m"
  "step_permits (env\<lparr>se_generate := g\<rparr>) m = step_permits env m"
  "thinking_for (env\<lparr>se_generate := g\<rparr>) m = thinking_for env m"
  "marks (env\<lparr>se_generate := g\<rparr>) text = marks env text"
  "heuristic (env\<lparr>se_generate := g\<rparr>) ps b text = heuristic env ps b text"
  "step_heuristic (env\<lparr>se_generate := g\<rparr>) config text = step_heuristic env config text"
  by (simp_all add: step_provider_def step_permits_def thinking_for_def marks_def heuristic_def step_heuristic_def
      cong: option.case_cong)

lemma collect_update [simp]: "collect (env\<lparr>se_generate := g\<rparr>) seen names = collect env seen names"
  by (induction env seen names rule: collect.induct) (auto simp: Let_def split: option.split)

lemma models_for_update [simp]: "models_for (env\<lparr>se_generate := g\<rparr>) config = models_for env config"
  by (simp add: models_for_def)

lemma request_sel [simp]:
  "rq_model (classifier_request b model instruction text setting) = model"
  "rq_addressing (classifier_request b model instruction text setting) = []"
  "rq_model (redaction_request b model instruction text setting) = model"
  "rq_addressing (redaction_request b model instruction text setting) = []"
  by (simp_all add: classifier_request_def redaction_request_def plain_request_def)

lemma ask_frame:
  assumes "\<And>sent. rq_model sent = model \<Longrightarrow> rq_addressing sent = [] \<Longrightarrow> g up sent = se_generate env up sent"
  shows "ask_injection (env\<lparr>se_generate := g\<rparr>) config t model up = ask_injection env config t model up"
    and "ask_route (env\<lparr>se_generate := g\<rparr>) categories rq model up = ask_route env categories rq model up"
    and "ask_redactor (env\<lparr>se_generate := g\<rparr>) config t model up = ask_redactor env config t model up"
  by (simp_all add: ask_injection_def llm_injection_def ask_route_def llm_route_def ask_redactor_def llm_redact_def
      with_thinking_def assms cong: sum.case_cong if_cong)

lemma evaluate_frame:
  assumes "\<And>up sent. may_ask env (ps_config step) up sent \<Longrightarrow> g up sent = se_generate env up sent"
  shows "evaluate (env\<lparr>se_generate := g\<rparr>) step rq = evaluate env step rq"
proof -
  let ?env = "env\<lparr>se_generate := g\<rparr>" and ?config = "ps_config step"
  let ?cs = "ca_found (models_for env ?config)"
  have same: "g up sent = se_generate env up sent"
    if "(model, up) \<in> set ?cs" "rq_model sent = model" "rq_addressing sent = []" for model up sent
    using that found_eligible by (intro assms) (auto simp: may_ask_def)
  have "asked (ask_injection ?env ?config t) cl_reached ?cs None = asked (ask_injection env ?config t) cl_reached ?cs None"
    for t by (intro asked_cong ask_frame same) simp_all
  moreover have "asked (ask_route ?env categories rq) ro_reached ?cs None = asked (ask_route env categories rq) ro_reached ?cs None"
    for categories by (intro asked_cong ask_frame same) simp_all
  moreover have "asked (ask_redactor ?env ?config t) rx_reached ?cs None = asked (ask_redactor env ?config t) rx_reached ?cs None"
    for t by (intro asked_cong ask_frame same) simp_all
  ultimately show ?thesis
    by (cases "ps_type step") (simp_all add: evaluate_injection_filter_def classify_def evaluate_model_route_def
        route_def evaluate_pii_filter_def Let_def)
qed

section \<open>Failing closed\<close>

lemma parsed_word:
  assumes "map_of (vocabularies st) key = Some (words, unknown)" "map_of (parse_config st (Some (JObj raw))) key = Some (JStr w)"
    and "w \<noteq> unknown"
  shows "map_of raw key = Some (JStr w)"
proof -
  from assms(2) obtain v where v: "map_of raw key = Some v" "corrected st key v = Some (JStr w)"
    by (auto simp: map_of_parsed bind_eq_Some_conv)
  have "key \<notin> text_keys" "key \<noteq> ''fallback_models''" "key \<noteq> ''categories''" "key \<noteq> ''patterns''" "key \<noteq> ''use_builtins''"
    using vocabulary_keys [OF assms(1)] by (simp_all add: text_keys_def)
  with v(2) assms(1,3) have "v = JStr w" by (simp add: corrected_plain split: if_splits)
  with v(1) show ?thesis by simp
qed

lemma parsed_config_word:
  assumes "map_of (vocabularies st) key = Some (words, unknown)" "w \<noteq> unknown"
    and "config_word (parse_config st (Some (JObj raw))) key unknown = w"
  shows "map_of raw key = Some (JStr w)"
proof -
  let ?c = "parse_config st (Some (JObj raw))"
  from assms(2,3) obtain v where v: "map_of ?c key = Some v" "json_str v = w"
    by (auto simp: config_word_def split: option.splits)
  have "value_ok st key v" using parsed_value_ok [OF v(1)] by simp
  with assms(1) have "is_word words v" by (simp add: value_ok_def)
  with v(2) have "v = JStr w" by (cases v) simp_all
  with v(1) have "map_of ?c key = Some (JStr w)" by simp
  with assms(1) show ?thesis using assms(2) by (rule parsed_word)
qed

lemma filter_evaluation_sel:
  "sv_block (filter_evaluation config cl unasked) = (if blocks (cl_verdict cl) config then Some (rejection (cl_verdict cl)) else None)"
  "sv_action (filter_evaluation config cl unasked) =
     (if blocks (cl_verdict cl) config then ''blocked'' else if cl_verdict cl = Clean then ''passed'' else ''flagged'')"
  "sv_call (filter_evaluation config cl unasked) = cl_call cl"
  "sv_request (filter_evaluation config cl unasked) = None"
  by (simp_all add: filter_evaluation_def Let_def)

lemma evaluate_filter:
  "evaluate env \<lparr>ps_type = InjectionFilter, ps_config = config\<rparr> rq = Inr ev \<longleftrightarrow>
     (\<exists>cl unasked. classify env config rq = Inr (cl, unasked) \<and> ev = filter_evaluation config cl unasked)"
  by (auto simp: evaluate_injection_filter_def sum_bind_Inr_iff)

text \<open>
  C7: A prompt-injection filter fails closed. Whatever was stored as its configuration, a request it found an
  injection in goes on only where the word \<open>flag\<close> was stored as its action, exactly so spelled; and one
  it reached no verdict on goes on only there or where \<open>allow\<close> was stored for that case. The evaluation
  then says that it was flagged; it says passed only of a clean verdict.
\<close>
theorem only_an_exact_word_lets_a_finding_through:
  assumes "evaluate env \<lparr>ps_type = InjectionFilter, ps_config = parse_config InjectionFilter (Some (JObj raw))\<rparr> rq = Inr ev"
    and "sv_block ev = None"
  shows "\<exists>cl unasked. classify env (parse_config InjectionFilter (Some (JObj raw))) rq = Inr (cl, unasked)
    \<and> (cl_verdict cl = Injection \<longrightarrow> map_of raw ''action'' = Some (JStr ''flag''))
    \<and> (cl_verdict cl = Undetermined \<longrightarrow>
         map_of raw ''action'' = Some (JStr ''flag'') \<or> map_of raw ''on_undetermined'' = Some (JStr ''allow''))
    \<and> sv_action ev = (if cl_verdict cl = Clean then ''passed'' else ''flagged'')"
proof -
  let ?c = "parse_config InjectionFilter (Some (JObj raw))"
  from assms(1) obtain cl unasked where cl: "classify env ?c rq = Inr (cl, unasked)"
    and ev: "ev = filter_evaluation ?c cl unasked" unfolding evaluate_filter by blast
  have flag: "map_of ?c ''action'' = Some (JStr ''flag'') \<Longrightarrow> map_of raw ''action'' = Some (JStr ''flag'')"
    by (rule parsed_word [of InjectionFilter _ filter_actions "''block''"]) simp_all
  have allow: "config_word ?c ''on_undetermined'' ''block'' = ''allow'' \<Longrightarrow> map_of raw ''on_undetermined'' = Some (JStr ''allow'')"
    by (rule parsed_config_word) (auto)
  from assms(2) have "\<not> blocks (cl_verdict cl) ?c" by (auto simp: ev filter_evaluation_sel simp del: blocks.simps split: if_splits)
  with flag allow cl ev show ?thesis
    by (cases "cl_verdict cl") (auto simp: filter_evaluation_sel split: if_splits)
qed

text \<open>
  A filter that asks models is decided by one of them: the first that is reached, in the order they are
  written, whatever it said - a reached model's undetermined verdict is not taken to another - and the last
  one tried where none is. The heuristic decides only where no model may be asked.
\<close>
theorem the_first_model_reached_decides:
  assumes "evaluate env \<lparr>ps_type = InjectionFilter, ps_config = config\<rparr> rq = Inr ev"
    and "map_of config ''mode'' = Some (JStr ''llm'')"
  shows "let cs = ca_found (models_for env config); verdict_from = (\<lambda>c. ask_injection env config (scanned_text rq config) (fst c) (snd c)) in
    (cs = [] \<and> ev = filter_evaluation config (step_heuristic env config (scanned_text rq config))
        (Some (why_none (models_for env config) no_classifier)))
    \<or> (\<exists>i cl. i < length cs \<and> verdict_from (cs ! i) = Inr cl \<and> ev = filter_evaluation config cl None
        \<and> (\<forall>j < i. \<exists>b. verdict_from (cs ! j) = Inr b \<and> \<not> cl_reached b)
        \<and> (cl_reached cl \<or> Suc i = length cs))"
proof -
  let ?t = "scanned_text rq config" and ?cs = "ca_found (models_for env config)"
  from assms obtain answered where answered: "asked (ask_injection env config ?t) cl_reached ?cs None = Inr answered"
    and ev: "ev = (case answered of Some (_, cl) \<Rightarrow> filter_evaluation config cl None
      | None \<Rightarrow> filter_evaluation config (step_heuristic env config ?t) (Some (why_none (models_for env config) no_classifier)))"
    unfolding evaluate_filter by (auto simp: classify_def Let_def sum_bind_Inr_iff split: option.splits)
  show ?thesis
  proof (cases "?cs = []")
    case True
    with answered ev show ?thesis by (simp add: Let_def)
  next
    case False
    from asked_ends [OF answered False] ev show ?thesis unfolding Let_def by fastforce
  qed
qed

section \<open>Redaction\<close>

lemma with_last_user_none: "\<forall>m \<in> set ms. msg_role m \<noteq> User \<Longrightarrow> with_last_user f ms = ms"
  by (induction ms) simp_all

lemma find_with_last_user:
  "\<exists>m \<in> set ms. msg_role m = User \<Longrightarrow> (\<And>m. msg_role (f m) = msg_role m) \<Longrightarrow>
     List.find (\<lambda>m. msg_role m = User) (with_last_user f ms) = map_option f (List.find (\<lambda>m. msg_role m = User) ms)"
  by (induction ms) auto

lemma text_of_texts: "concat (map part_text (List.filter (\<lambda>p. \<not> is_text_part p) ps)) = []"
proof (induction ps)
  case (Cons p ps)
  then show ?case by (cases p) simp_all
qed simp

lemma last_user_text_rewritten:
  assumes "\<exists>m \<in> set (rq_messages rq). msg_role m = User"
  shows "last_user_text (with_user_text rq text) = text"
proof -
  let ?f = "\<lambda>m. m\<lparr>msg_parts := TextPart text # List.filter (\<lambda>p. \<not> is_text_part p) (msg_parts m)\<rparr>"
  from assms have "\<exists>m \<in> set (rev (rq_messages rq)). msg_role m = User" by simp
  moreover from this obtain m where "List.find (\<lambda>m. msg_role m = User) (rev (rq_messages rq)) = Some m"
    using find_None_iff [of "\<lambda>m. msg_role m = User" "rev (rq_messages rq)"] by (cases "List.find (\<lambda>m. msg_role m = User) (rev (rq_messages rq))") auto
  ultimately have "List.find (\<lambda>m. msg_role m = User) (with_last_user ?f (rev (rq_messages rq))) = Some (?f m)"
    by (subst find_with_last_user) simp_all
  then show ?thesis by (simp add: last_user_text_def with_user_text_def message_text_def text_of_texts)
qed

lemma no_user_turn_unchanged:
  "\<forall>m \<in> set (rq_messages rq). msg_role m \<noteq> User \<Longrightarrow> with_user_text rq text = rq"
  by (simp add: with_user_text_def with_last_user_none)

lemma evaluate_pii:
  assumes "evaluate env \<lparr>ps_type = PiiFilter, ps_config = config\<rparr> rq = Inr ev"
  shows "(\<exists>why call. ev = pii_failure config why call)
    \<or> (\<exists>model up result text. ask_redactor env config (last_user_text rq) model up = Inr result \<and> rx_text result = Some text
        \<and> ev = redacted_evaluation config rq (last_user_text rq) model text (rx_call result))"
proof -
  let ?cs = "ca_found (models_for env config)"
  from assms obtain answered where answered: "asked (ask_redactor env config (last_user_text rq)) rx_reached ?cs None = Inr answered"
    and ev: "(case answered of
          None \<Rightarrow> Inr (pii_failure config (why_none (models_for env config) ''no model is available to redact with'') None)
        | Some (model, result) \<Rightarrow>
            (case rx_text result of
               None \<Rightarrow> Inr (pii_failure config
                 (if truthy (rx_failure result) then the (rx_failure result) else ''the redactor failed'') (rx_call result))
             | Some text \<Rightarrow> Inr (redacted_evaluation config rq (last_user_text rq) model text (rx_call result)))) = (Inr ev :: step_error + evaluation)"
    by (auto simp: evaluate_pii_filter_def Let_def sum_bind_Inr_iff)
  show ?thesis
  proof (cases "?cs = []")
    case True
    with answered ev show ?thesis by auto
  next
    case False
    from asked_ends [OF answered False] ev show ?thesis by (fastforce split: option.splits)
  qed
qed

lemma trusted_rewrite:
  assumes "ask_redactor env config original model up = Inr result" "rx_text result = Some text" "py_strip text \<noteq> py_strip original"
  shows "text \<noteq> [] \<and> \<not> too_short (length (py_strip original)) (length text) \<and> \<not> too_long (length (py_strip original)) (length text)"
  using assms
  by (auto simp: ask_redactor_def with_thinking_def llm_redact_def rewrite_of_def Let_def split: sum.splits if_splits)

lemma redacted_evaluation_sel:
  "sv_block (redacted_evaluation config rq original model text call) = None"
  "sv_action (redacted_evaluation config rq original model text call) =
     (if py_strip text \<noteq> py_strip original then ''redacted'' else ''unchanged'')"
  "sv_rewrote (redacted_evaluation config rq original model text call) =
     (if py_strip text \<noteq> py_strip original then Some (original, text) else None)"
  "sv_request (redacted_evaluation config rq original model text call) =
     (if py_strip text \<noteq> py_strip original then Some (with_user_text rq text) else None)"
  "redaction_failed [the (sv_decision (redacted_evaluation config rq original model text call))] = False"
  by (simp_all add: redacted_evaluation_def Let_def redaction_failed_def applied_actions_def)

lemma pii_failure_sel:
  "sv_block (pii_failure config why call) = None \<longleftrightarrow> config_word config ''on_failure'' ''block'' = ''allow''"
  "sv_rewrote (pii_failure config why call) = None"
  "sv_request (pii_failure config why call) = None"
  "sv_action (pii_failure config why call) \<in> {''allowed'', ''blocked''}"
  "redaction_failed [the (sv_decision (pii_failure config why call))]"
  by (simp_all add: pii_failure_def Let_def redaction_failed_def applied_actions_def)



section \<open>Examples\<close>

definition sample_answer :: "string \<Rightarrow> call_error + canonical_response" where
  "sample_answer text = Inr \<lparr>cr_model = ''a'', cr_text = text, cr_reasoning = [], cr_finish_reason = FinishStop,
     cr_usage = \<lparr>prompt_tokens = 5, completion_tokens = 1, cached_input_tokens = 0, cache_write_tokens = 0,
       long_cache_write_tokens = 0, reasoning_tokens = 0\<rparr>,
     cr_tool_calls = [], cr_served_region = [], cr_audio = None\<rparr>"

definition sample_step_env :: "(canonical_request \<Rightarrow> call_error + canonical_response) \<Rightarrow> step_env" where
  "sample_step_env generate = \<lparr>se_registry = sample_reg, se_declaration = None, se_permits = None,
     se_generate = (\<lambda>up. generate), se_nonces = (\<lambda>_ _. ''0123456789abcdef''), se_search = (\<lambda>_ _. True),
     se_hazard = (\<lambda>_. None)\<rparr>"

definition sample_prompt :: "role \<Rightarrow> string \<Rightarrow> canonical_request" where
  "sample_prompt r text = plain_request ''a'' [text_message r text]"

lemma only_an_exact_word_lets_a_finding_through_witness:
  "\<exists>cl unasked. classify (sample_step_env (\<lambda>_. sample_answer ''SAFE''))
      (parse_config InjectionFilter (Some (JObj [(''action'', JStr ''flag'')]))) (sample_prompt User ''jailbreak'') = Inr (cl, unasked)
    \<and> cl_verdict cl \<noteq> Clean"
proof -
  let ?env = "sample_step_env (\<lambda>_. sample_answer ''SAFE'')"
    and ?c = "parse_config InjectionFilter (Some (JObj [(''action'', JStr ''flag'')]))"
  have "case evaluate ?env \<lparr>ps_type = InjectionFilter, ps_config = ?c\<rparr> (sample_prompt User ''jailbreak'') of
      Inl e \<Rightarrow> False | Inr ev \<Rightarrow> sv_block ev = None \<and> sv_action ev = ''flagged''"
    by code_simp
  then obtain ev where ev: "evaluate ?env \<lparr>ps_type = InjectionFilter, ps_config = ?c\<rparr> (sample_prompt User ''jailbreak'') = Inr ev"
      "sv_block ev = None" "sv_action ev = ''flagged''" by (rule returnsE) blast
  from only_an_exact_word_lets_a_finding_through [OF ev(1,2)] ev(3) show ?thesis by auto
qed


lemma the_first_model_reached_decides_witness:
  "\<exists>ev cl. evaluate (sample_step_env (\<lambda>sent. if rq_model sent = ''a'' then Inl (UpstreamFailure ''down'' None) else sample_answer ''Safe.''))
       \<lparr>ps_type = InjectionFilter, ps_config = [(''mode'', JStr ''llm''), (''model'', JStr ''a''),
          (''fallback_models'', JList [JStr ''b''])]\<rparr> (sample_prompt User ''hi'') = Inr ev
     \<and> ev = filter_evaluation [(''mode'', JStr ''llm''), (''model'', JStr ''a''), (''fallback_models'', JList [JStr ''b''])] cl None
     \<and> sv_action ev = ''passed''"
proof -
  let ?env = "sample_step_env (\<lambda>sent. if rq_model sent = ''a'' then Inl (UpstreamFailure ''down'' None) else sample_answer ''Safe.'')"
    and ?c = "[(''mode'', JStr ''llm''), (''model'', JStr ''a''), (''fallback_models'', JList [JStr ''b''])]"
  have "case evaluate ?env \<lparr>ps_type = InjectionFilter, ps_config = ?c\<rparr> (sample_prompt User ''hi'') of
      Inl e \<Rightarrow> False | Inr ev \<Rightarrow> sv_action ev = ''passed''"
    by code_simp
  then obtain ev where ev: "evaluate ?env \<lparr>ps_type = InjectionFilter, ps_config = ?c\<rparr> (sample_prompt User ''hi'') = Inr ev"
      "sv_action ev = ''passed''" by (rule returnsE)
  have "map fst (ca_found (models_for ?env ?c)) = [''a'', ''b'']" by code_simp
  then have "ca_found (models_for ?env ?c) \<noteq> []" by auto
  with the_first_model_reached_decides [OF ev(1)] ev show ?thesis by (auto simp: Let_def)
qed



end
