(* ===== verification/Pipeline_Runner.thy ===== *)
theory Pipeline_Runner
  imports Pipeline_Steps Requirements
begin

text \<open>
  The pipeline engine (\<open>gateway/src/aira_gateway/pipeline/engine/runner.py\<close>, \<open>texts.py\<close>): a use case's
  steps in order over a request, over the texts of an embedding or a ranking, and as a dry run; and what
  serving a request makes of a run (\<open>api/serving/pipeline_run.py\<close>): the trail, the stored body and the rows
  of the steps' calls.

  Every step has its own \<open>step_env\<close>, and so has every text of a batch, so no two calls need agree. The
  texts of a batch are evaluated a handful at a time; where several fail, which failure is reported depends
  on timing, and the model reports the first in the order of the texts. The lists a runner appends to are
  its caller's, so they are returned on every way out.
\<close>

section \<open>Over a request\<close>

record run_state =
  ru_request :: canonical_request
  ru_decisions :: "decision list"
  ru_calls :: "model_call list"
  ru_notices :: "string list"
  ru_rewrites :: "(string \<times> string) list"

datatype run_end =
    Completed
  | Rejected string step_type
  | Escaped step_error

definition note_evaluation :: "evaluation \<Rightarrow> run_state \<Rightarrow> run_state" where
  "note_evaluation ev st =
     st\<lparr>ru_calls := ru_calls st @ (case sv_call ev of None \<Rightarrow> [] | Some c \<Rightarrow> [c]),
        ru_decisions := ru_decisions st @ (case sv_decision ev of None \<Rightarrow> [] | Some d \<Rightarrow> [d]),
        ru_request := (case sv_request ev of None \<Rightarrow> ru_request st | Some rq \<Rightarrow> rq),
        ru_notices := ru_notices st @ (if truthy (sv_notice ev) then [the (sv_notice ev)] else []),
        ru_rewrites := ru_rewrites st @ (case sv_rewrote ev of None \<Rightarrow> [] | Some r \<Rightarrow> [r])\<rparr>"

fun run_steps :: "(nat \<Rightarrow> step_env) \<Rightarrow> nat \<Rightarrow> pipeline_step list \<Rightarrow> run_state \<Rightarrow> run_end \<times> run_state" where
  "run_steps envs i [] st = (Completed, st)"
| "run_steps envs i (step # steps) st =
     (case evaluate (envs i) step (ru_request st) of
        Inl e \<Rightarrow> (Escaped e, st)
      | Inr ev \<Rightarrow>
          (case sv_block ev of
             Some why \<Rightarrow> (Rejected why (ps_type step), note_evaluation ev st)
           | None \<Rightarrow> run_steps envs (Suc i) steps (note_evaluation ev st)))"

definition run_pipeline_steps ::
  "(nat \<Rightarrow> step_env) \<Rightarrow> pipeline \<Rightarrow> canonical_request \<Rightarrow> decision list \<Rightarrow> model_call list \<Rightarrow> run_end \<times> run_state" where
  \<comment> \<open>\<open>PipelineEngine.run\<close>, appending to the decisions and calls it is given\<close>
  "run_pipeline_steps envs p rq decisions calls =
     run_steps envs 0 (pl_steps p)
       \<lparr>ru_request = rq, ru_decisions = decisions, ru_calls = calls, ru_notices = [], ru_rewrites = []\<rparr>"

section \<open>As a dry run\<close>

record trace_entry =
  te_type :: step_type
  te_action :: string
  te_detail :: json_object
  te_after_block :: bool

record dry_result =
  dr_trace :: "trace_entry list"
  dr_blocked :: bool
  dr_block_reason :: "string option"
  dr_effective_model :: string
  dr_fallback_models :: "string list"

record dry_state =
  dy_current :: canonical_request
  dy_blocked :: bool
  dy_reason :: "string option"
  dy_trace :: "trace_entry list"
  dy_calls :: "model_call list"

definition note_dry :: "evaluation \<Rightarrow> dry_state \<Rightarrow> dry_state" where
  "note_dry ev st =
     (let blocks_now = (sv_block ev \<noteq> None \<and> \<not> dy_blocked st) in
      st\<lparr>dy_calls := dy_calls st @ (case sv_call ev of None \<Rightarrow> [] | Some c \<Rightarrow> [c]),
         dy_current := (case sv_request ev of None \<Rightarrow> dy_current st | Some rq \<Rightarrow> rq),
         dy_trace := dy_trace st
           @ [\<lparr>te_type = sv_type ev, te_action = sv_action ev, te_detail = sv_detail ev, te_after_block = dy_blocked st\<rparr>],
         dy_blocked := dy_blocked st \<or> sv_block ev \<noteq> None,
         dy_reason := (if blocks_now then sv_block ev else dy_reason st)\<rparr>)"

fun dry_steps ::
  "bool \<Rightarrow> (nat \<Rightarrow> step_env) \<Rightarrow> nat \<Rightarrow> pipeline_step list \<Rightarrow> dry_state \<Rightarrow> step_error option \<times> dry_state" where
  "dry_steps past_blocks envs i [] st = (None, st)"
| "dry_steps past_blocks envs i (step # steps) st =
     (case evaluate (envs i) step (dy_current st) of
        Inl e \<Rightarrow> (Some e, st)
      | Inr ev \<Rightarrow>
          if sv_block ev \<noteq> None \<and> \<not> dy_blocked st \<and> \<not> past_blocks then (None, note_dry ev st)
          else dry_steps past_blocks envs (Suc i) steps (note_dry ev st))"

definition dry_run ::
  "bool \<Rightarrow> (nat \<Rightarrow> step_env) \<Rightarrow> pipeline \<Rightarrow> canonical_request \<Rightarrow> model_call list
     \<Rightarrow> (step_error + dry_result) \<times> model_call list" where
  "dry_run past_blocks envs p rq calls =
     (case dry_steps past_blocks envs 0 (pl_steps p)
         \<lparr>dy_current = rq, dy_blocked = False, dy_reason = None, dy_trace = [], dy_calls = calls\<rparr> of
        (Some e, st) \<Rightarrow> (Inl e, dy_calls st)
      | (None, st) \<Rightarrow>
          (Inr \<lparr>dr_trace = dy_trace st, dr_blocked = dy_blocked st, dr_block_reason = dy_reason st,
             dr_effective_model = rq_model (dy_current st), dr_fallback_models = pl_fallback_models p\<rparr>, dy_calls st))"

section \<open>Over texts\<close>

definition text_only_steps :: "step_type list" where "text_only_steps = [PiiFilter]"

definition one_message :: "string \<Rightarrow> string \<Rightarrow> canonical_request" where
  "one_message text model = plain_request model [text_message User text]"

definition usage_total :: "model_call list \<Rightarrow> canonical_usage" where
  "usage_total calls =
     \<lparr>prompt_tokens = sum_list (map (\<lambda>c. prompt_tokens (mc_usage c)) calls),
      completion_tokens = sum_list (map (\<lambda>c. completion_tokens (mc_usage c)) calls),
      cached_input_tokens = sum_list (map (\<lambda>c. cached_input_tokens (mc_usage c)) calls),
      cache_write_tokens = sum_list (map (\<lambda>c. cache_write_tokens (mc_usage c)) calls),
      long_cache_write_tokens = sum_list (map (\<lambda>c. long_cache_write_tokens (mc_usage c)) calls),
      reasoning_tokens = sum_list (map (\<lambda>c. reasoning_tokens (mc_usage c)) calls)\<rparr>"

definition summed :: "string \<Rightarrow> model_call list \<Rightarrow> model_call list" where
  "summed step calls =
     map (\<lambda>model. \<lparr>mc_step = step, mc_model = model, mc_usage = usage_total (List.filter (\<lambda>c. mc_model c = model) calls)\<rparr>)
       (keep_first (map mc_model calls))"

definition worst :: "evaluation list \<Rightarrow> evaluation option" where
  "worst evs =
     (case evs of
        [] \<Rightarrow> None
      | first # _ \<Rightarrow>
          (case List.find (\<lambda>ev. sv_block ev \<noteq> None) evs of
             Some ev \<Rightarrow> Some ev
           | None \<Rightarrow>
               (case List.find (\<lambda>ev. sv_action ev \<notin> set applied_actions) evs of
                  Some ev \<Rightarrow> Some ev
                | None \<Rightarrow> Some first)))"

definition over_the_batch :: "step_type \<Rightarrow> evaluation list \<Rightarrow> evaluation option \<Rightarrow> decision option" where
  "over_the_batch st evs notable =
     (case Option.bind notable sv_decision of
        None \<Rightarrow> None
      | Some d \<Rightarrow>
          if evs = [] then None
          else Some (AList.update ''changed'' (JInt (int (length (List.filter (\<lambda>ev. sv_rewrote ev \<noteq> None) evs))))
            (AList.update ''texts'' (JInt (int (length evs)))
              (AList.update ''step'' (JStr (step_type_value st)) d))))"

record texts_state =
  tx_texts :: "string list"
  tx_decisions :: "decision list"
  tx_calls :: "model_call list"
  tx_rewrites :: "(string \<times> string) list"

fun all_of :: "('e + 'a) list \<Rightarrow> 'e + 'a list" where
  "all_of [] = Inr []"
| "all_of (r # rs) = sum_bind r (\<lambda>a. sum_bind (all_of rs) (\<lambda>as. Inr (a # as)))"

definition evaluate_each ::
  "(nat \<Rightarrow> step_env) \<Rightarrow> pipeline_step \<Rightarrow> string list \<Rightarrow> string \<Rightarrow> step_error + evaluation list" where
  "evaluate_each envs step texts model =
     all_of (map (\<lambda>(k, text). evaluate (envs k) step (one_message text model)) (List.enumerate 0 texts))"

definition text_after :: "string \<Rightarrow> evaluation \<Rightarrow> string" where
  "text_after text ev = (case sv_request ev of None \<Rightarrow> text | Some rq \<Rightarrow> last_user_text rq)"

definition note_batch :: "step_type \<Rightarrow> evaluation list \<Rightarrow> texts_state \<Rightarrow> texts_state" where
  "note_batch st evs state =
     state\<lparr>tx_calls := tx_calls state @ summed (step_type_value st) (List.map_filter sv_call evs),
           tx_rewrites := tx_rewrites state @ List.map_filter sv_rewrote evs,
           tx_decisions := tx_decisions state
             @ (case over_the_batch st evs (worst evs) of None \<Rightarrow> [] | Some d \<Rightarrow> [d])\<rparr>"

fun run_text_steps ::
  "(nat \<Rightarrow> nat \<Rightarrow> step_env) \<Rightarrow> nat \<Rightarrow> string \<Rightarrow> pipeline_step list \<Rightarrow> texts_state \<Rightarrow> run_end \<times> texts_state" where
  "run_text_steps envs i model [] state = (Completed, state)"
| "run_text_steps envs i model (step # steps) state =
     (if ps_type step \<notin> set text_only_steps then run_text_steps envs (Suc i) model steps state
      else case evaluate_each (envs i) step (tx_texts state) model of
             Inl e \<Rightarrow> (Escaped e, state)
           | Inr evs \<Rightarrow>
               let state' = note_batch (ps_type step) evs state in
               (case Option.bind (worst evs) sv_block of
                  Some why \<Rightarrow> (Rejected why (ps_type step), state')
                | None \<Rightarrow> run_text_steps envs (Suc i) model steps
                    (state'\<lparr>tx_texts := map2 text_after (tx_texts state) evs\<rparr>)))"

definition run_over_texts ::
  "(nat \<Rightarrow> nat \<Rightarrow> step_env) \<Rightarrow> pipeline \<Rightarrow> string list \<Rightarrow> string \<Rightarrow> decision list \<Rightarrow> model_call list
     \<Rightarrow> run_end \<times> texts_state" where
  "run_over_texts envs p texts model decisions calls =
     run_text_steps envs 0 model (pl_steps p)
       \<lparr>tx_texts = texts, tx_decisions = decisions, tx_calls = calls, tx_rewrites = []\<rparr>"

section \<open>Serving a request\<close>

text \<open>
  The stored body is JSON text while a rewrite is substituted: \<open>dumps\<close> writes a document,
  \<open>loads\<close> reads one or fails.
\<close>

record codec =
  cd_dumps :: "json \<Rightarrow> string"
  cd_loads :: "string \<Rightarrow> json option"

definition inside_quotes :: "codec \<Rightarrow> string \<Rightarrow> string" where
  \<comment> \<open>\<open>json.dumps(text)[1:-1]\<close>\<close>
  "inside_quotes c text = butlast (tl (cd_dumps c (JStr text)))"

fun substituted :: "codec \<Rightarrow> (string \<times> string) list \<Rightarrow> string \<Rightarrow> string option" where
  "substituted c [] text = Some text"
| "substituted c ((before, after) # rewrites) text =
     (if \<not> contains (inside_quotes c before) text then None
      else substituted c rewrites (replace_text (inside_quotes c before) (inside_quotes c after) text))"

definition rewritten_body :: "codec \<Rightarrow> json option \<Rightarrow> (string \<times> string) list \<Rightarrow> json option" where
  "rewritten_body c body rewrites =
     (case body of None \<Rightarrow> None | Some b \<Rightarrow> Option.bind (substituted c rewrites (cd_dumps c b)) (cd_loads c))"

definition keep_only_what_a_redactor_allows ::
  "codec \<Rightarrow> (string \<times> string) list \<Rightarrow> audit_trail \<Rightarrow> audit_trail" where
  "keep_only_what_a_redactor_allows c rewrites trail =
     (let trail' = (if rewrites = [] then trail else trail\<lparr>at_body := rewritten_body c (at_body trail) rewrites\<rparr>) in
      if redaction_failed (at_decisions trail') then trail'\<lparr>at_body := None\<rparr> else trail')"

record served_request =
  sd_request :: canonical_request
  sd_chain :: "string list"
  sd_notices :: "string list"

definition serve_pipeline ::
  "codec \<Rightarrow> (nat \<Rightarrow> step_env) \<Rightarrow> pipeline option \<Rightarrow> canonical_request \<Rightarrow> audit_trail
     \<Rightarrow> (run_end + served_request) \<times> audit_trail" where
  \<comment> \<open>\<open>run_pipeline\<close>; the left summand is the refusal or the exception\<close>
  "serve_pipeline c envs stored rq trail =
     (case stored of
        None \<Rightarrow> (Inr \<lparr>sd_request = rq, sd_chain = [], sd_notices = []\<rparr>, trail)
      | Some p \<Rightarrow>
          (case run_pipeline_steps envs p rq (at_decisions trail) (at_model_calls trail) of
             (end, st) \<Rightarrow>
               let trail' = keep_only_what_a_redactor_allows c (ru_rewrites st)
                     (trail\<lparr>at_decisions := ru_decisions st, at_model_calls := ru_calls st\<rparr>)
               in (case end of
                     Completed \<Rightarrow>
                       (Inr \<lparr>sd_request = ru_request st, sd_chain = chain_for p KindGenerate, sd_notices = ru_notices st\<rparr>,
                        routed_to (rq_model (ru_request st)) trail')
                   | _ \<Rightarrow> (Inl end, trail'))))"

definition serve_pipeline_over_strings ::
  "codec \<Rightarrow> (nat \<Rightarrow> nat \<Rightarrow> step_env) \<Rightarrow> pipeline option \<Rightarrow> string list \<Rightarrow> string \<Rightarrow> audit_trail
     \<Rightarrow> (run_end + string list option) \<times> audit_trail" where
  "serve_pipeline_over_strings c envs stored texts model trail =
     (case stored of
        None \<Rightarrow> (Inr None, trail)
      | Some p \<Rightarrow>
          (case run_over_texts envs p texts model (at_decisions trail) (at_model_calls trail) of
             (end, st) \<Rightarrow>
               let trail' = keep_only_what_a_redactor_allows c (tx_rewrites st)
                     (trail\<lparr>at_decisions := tx_decisions st, at_model_calls := tx_calls st\<rparr>)
               in (case end of Completed \<Rightarrow> (Inr (Some (tx_texts st)), trail') | _ \<Rightarrow> (Inl end, trail'))))"

definition serve_pipeline_over_texts ::
  "codec \<Rightarrow> (nat \<Rightarrow> nat \<Rightarrow> step_env) \<Rightarrow> pipeline option \<Rightarrow> embedding_request \<Rightarrow> audit_trail
     \<Rightarrow> (run_end + embedding_request) \<times> audit_trail" where
  "serve_pipeline_over_texts c envs stored em trail =
     (case serve_pipeline_over_strings c envs stored (em_texts em) (rq_model em) trail of
        (Inl e, trail') \<Rightarrow> (Inl e, trail')
      | (Inr None, trail') \<Rightarrow> (Inr em, trail')
      | (Inr (Some texts), trail') \<Rightarrow> (Inr (em\<lparr>em_texts := texts\<rparr>), trail'))"

fun with_fields :: "rerank_record list \<Rightarrow> string list \<Rightarrow> rerank_record list" where
  \<comment> \<open>\<open>fields[2 * index]\<close> and the one after it\<close>
  "with_fields (d # ds) (title # content # others) =
     d\<lparr>rr_title := title, rr_content := content\<rparr> # with_fields ds others"
| "with_fields _ _ = []"

definition serve_pipeline_over_rerank ::
  "codec \<Rightarrow> (nat \<Rightarrow> nat \<Rightarrow> step_env) \<Rightarrow> pipeline option \<Rightarrow> rerank_request \<Rightarrow> audit_trail
     \<Rightarrow> (run_end + rerank_request) \<times> audit_trail" where
  "serve_pipeline_over_rerank c envs stored re trail =
     (case serve_pipeline_over_strings c envs stored (ranking_texts re) (rq_model re) trail of
        (Inl e, trail') \<Rightarrow> (Inl e, trail')
      | (Inr None, trail') \<Rightarrow> (Inr re, trail')
      | (Inr (Some texts), trail') \<Rightarrow>
          (Inr (re\<lparr>re_query := hd texts, re_records := with_fields (re_records re) (tl texts)\<rparr>), trail'))"

definition reads_each_text :: "pipeline option \<Rightarrow> bool" where
  "reads_each_text stored =
     (case stored of None \<Rightarrow> False | Some p \<Rightarrow> list_ex (\<lambda>s. ps_type s \<in> set text_only_steps) (pl_steps p))"

text \<open>
  One row and one booking per call of a step. \<open>row_fails\<close> and \<open>book_fails\<close> say at which call the
  database does; the first failure ends the loop and is logged.
\<close>

record call_row =
  cw_operation :: string
  cw_model :: string
  cw_status :: int
  cw_usage :: canonical_usage
  cw_cost_nanos :: "int option"
  cw_outcome :: outcome
  cw_api :: string

record side_call =
  sc_tokens :: int
  sc_cost_nanos :: "int option"

fun record_pipeline_calls ::
  "(model_name \<Rightarrow> model_read option) \<Rightarrow> (nat \<Rightarrow> bool) \<Rightarrow> (nat \<Rightarrow> bool) \<Rightarrow> string \<Rightarrow> nat \<Rightarrow> model_call list
     \<Rightarrow> call_row list \<times> side_call list" where
  "record_pipeline_calls prices row_fails book_fails api i [] = ([], [])"
| "record_pipeline_calls prices row_fails book_fails api i (c # cs) =
     (let cost = priced prices (mc_model c) (Some (mc_usage c));
          row = \<lparr>cw_operation = pipeline_operation_prefix @ mc_step c, cw_model = mc_model c, cw_status = 200,
            cw_usage = mc_usage c, cw_cost_nanos = cost, cw_outcome = Served, cw_api = api\<rparr>;
          booking = \<lparr>sc_tokens = total_tokens (mc_usage c), sc_cost_nanos = cost\<rparr>
      in if row_fails i then ([], [])
         else if book_fails i then ([row], [])
         else (case record_pipeline_calls prices row_fails book_fails api (Suc i) cs of
                 (rows, bookings) \<Rightarrow> (row # rows, booking # bookings)))"

section \<open>What a run leaves behind\<close>

text \<open>
  The specification of a run: the evaluations that take place, each on the request as the ones before left
  it, up to the first that blocks or the first exception.
\<close>

fun performed :: "(nat \<Rightarrow> step_env) \<Rightarrow> nat \<Rightarrow> pipeline_step list \<Rightarrow> canonical_request \<Rightarrow> run_end \<times> evaluation list" where
  "performed envs i [] rq = (Completed, [])"
| "performed envs i (step # steps) rq =
     (case evaluate (envs i) step rq of
        Inl e \<Rightarrow> (Escaped e, [])
      | Inr ev \<Rightarrow>
          (case sv_block ev of
             Some why \<Rightarrow> (Rejected why (ps_type step), [ev])
           | None \<Rightarrow> (case performed envs (Suc i) steps (case sv_request ev of None \<Rightarrow> rq | Some rq' \<Rightarrow> rq') of
               (end, evs) \<Rightarrow> (end, ev # evs))))"

definition request_after :: "canonical_request \<Rightarrow> evaluation list \<Rightarrow> canonical_request" where
  "request_after rq evs = foldl (\<lambda>rq ev. case sv_request ev of None \<Rightarrow> rq | Some rq' \<Rightarrow> rq') rq evs"

definition notices_of :: "evaluation list \<Rightarrow> string list" where
  "notices_of evs = List.map_filter (\<lambda>ev. if truthy (sv_notice ev) then sv_notice ev else None) evs"

lemma run_steps_performed:
  "run_steps envs i steps st =
     (case performed envs i steps (ru_request st) of
        (end, evs) \<Rightarrow> (end,
          \<lparr>ru_request = request_after (ru_request st) evs,
           ru_decisions = ru_decisions st @ List.map_filter sv_decision evs,
           ru_calls = ru_calls st @ List.map_filter sv_call evs,
           ru_notices = ru_notices st @ notices_of evs,
           ru_rewrites = ru_rewrites st @ List.map_filter sv_rewrote evs\<rparr>))"
proof (induction envs i steps st rule: run_steps.induct)
  case (1 envs i st)
  then show ?case by (simp add: request_after_def notices_of_def List.map_filter_simps)
next
  case (2 envs i step steps st)
  show ?case
  proof (cases "evaluate (envs i) step (ru_request st)")
    case (Inl e)
    then show ?thesis by (simp add: request_after_def notices_of_def List.map_filter_simps)
  next
    case (Inr ev)
    show ?thesis
    proof (cases "sv_block ev")
      case (Some why)
      with Inr show ?thesis
        by (auto simp: note_evaluation_def request_after_def notices_of_def List.map_filter_simps split: option.splits)
    next
      case None
      from "2.IH" [OF Inr None] Inr None show ?thesis
        by (auto simp: note_evaluation_def request_after_def notices_of_def List.map_filter_simps
            split: option.splits prod.splits)
    qed
  qed
qed

lemma performed_length: "performed envs i steps rq = (end, evs) \<Longrightarrow> length evs \<le> length steps"
proof (induction envs i steps rq arbitrary: "end" evs rule: performed.induct)
  case (2 envs i step steps rq)
  then show ?case by (auto split: sum.splits option.splits prod.splits)
qed simp

text \<open>
  C11: Nothing a step did is lost to a later one: however a run ends - completed, refused by a step or broken
  off by an exception - the decisions, the model calls and the rewrites of every evaluation that took place
  are in the lists, in their order and after what was in them, the refusing step's own included; and the
  request a completed run hands on is the caller's with the steps' changes applied in order.
\<close>
theorem a_run_leaves_every_evaluation:
  "run_pipeline_steps envs p rq decisions calls =
     (case performed envs 0 (pl_steps p) rq of
        (end, evs) \<Rightarrow> (end,
          \<lparr>ru_request = request_after rq evs, ru_decisions = decisions @ List.map_filter sv_decision evs,
           ru_calls = calls @ List.map_filter sv_call evs, ru_notices = notices_of evs,
           ru_rewrites = List.map_filter sv_rewrote evs\<rparr>))"
  by (simp add: run_pipeline_steps_def run_steps_performed)

lemma dry_steps_performed:
  "\<not> dy_blocked st \<Longrightarrow>
   dry_steps False envs i steps st =
     (case performed envs i steps (dy_current st) of
        (end, evs) \<Rightarrow>
          ((case end of Escaped e \<Rightarrow> Some e | _ \<Rightarrow> None),
           st\<lparr>dy_current := request_after (dy_current st) evs,
              dy_calls := dy_calls st @ List.map_filter sv_call evs,
              dy_trace := dy_trace st @ map (\<lambda>ev. \<lparr>te_type = sv_type ev, te_action = sv_action ev,
                te_detail = sv_detail ev, te_after_block = False\<rparr>) evs,
              dy_blocked := (case end of Rejected why t \<Rightarrow> True | _ \<Rightarrow> False),
              dy_reason := (case end of Rejected why t \<Rightarrow> Some why | _ \<Rightarrow> dy_reason st)\<rparr>))"
proof (induction False envs i steps st rule: dry_steps.induct)
  case (1 envs i st)
  then show ?case by (simp add: request_after_def List.map_filter_simps)
next
  case (2 envs i step steps st)
  show ?case
  proof (cases "evaluate (envs i) step (dy_current st)")
    case (Inl e)
    with 2 show ?thesis by (simp add: request_after_def List.map_filter_simps)
  next
    case (Inr ev)
    show ?thesis
    proof (cases "sv_block ev")
      case (Some why)
      with Inr "2.prems" show ?thesis
        by (auto simp: note_dry_def Let_def request_after_def List.map_filter_simps split: option.splits)
    next
      case None
      then have "\<not> dy_blocked (note_dry ev st)" using "2.prems" by (simp add: note_dry_def Let_def)
      from "2.hyps" [OF Inr _ this] Inr None "2.prems" show ?thesis
        by (auto simp: note_dry_def Let_def request_after_def List.map_filter_simps
            split: option.splits prod.splits run_end.splits)
    qed
  qed
qed

text \<open>
  C10: The answer of a dry run is production's: run on the same request against the same models, it is
  broken off by the same exception, else it reports a block exactly where production refuses, with
  production's reason, the model production would dispatch to and the calls production would have billed;
  and no entry of its trace is marked a simulation.
\<close>
theorem a_dry_run_answers_as_production:
  "case run_pipeline_steps envs p rq decisions calls of (end, st) \<Rightarrow>
     (case dry_run False envs p rq calls of
        (Inl e, spent) \<Rightarrow> end = Escaped e \<and> spent = ru_calls st
      | (Inr r, spent) \<Rightarrow>
          (\<forall>e. end \<noteq> Escaped e) \<and> spent = ru_calls st
          \<and> dr_effective_model r = rq_model (ru_request st)
          \<and> dr_blocked r = (\<exists>why t. end = Rejected why t)
          \<and> dr_block_reason r = (case end of Rejected why t \<Rightarrow> Some why | _ \<Rightarrow> None)
          \<and> \<not> list_ex te_after_block (dr_trace r)
          \<and> dr_fallback_models r = chain_for p KindGenerate)"
  by (auto simp: run_pipeline_steps_def run_steps_performed dry_run_def dry_steps_performed list_ex_iff
      split: prod.splits run_end.splits)

section \<open>Which models the steps reach\<close>

lemma run_steps_cong:
  "(\<And>j step rq. i \<le> j \<Longrightarrow> step \<in> set steps \<Longrightarrow> evaluate (envs' j) step rq = evaluate (envs j) step rq) \<Longrightarrow>
     run_steps envs' i steps st = run_steps envs i steps st"
proof (induction envs i steps st rule: run_steps.induct)
  case (2 envs i step steps st)
  then have "evaluate (envs' i) step (ru_request st) = evaluate (envs i) step (ru_request st)" by simp
  moreover have "run_steps envs' (Suc i) steps (note_evaluation ev st) = run_steps envs (Suc i) steps (note_evaluation ev st)"
    if "evaluate (envs i) step (ru_request st) = Inr ev" "sv_block ev = None" for ev
    using that "2.prems" by (intro "2.IH") auto
  ultimately show ?case by (auto split: sum.split option.split)
qed simp

text \<open>
  C8: No step of a pipeline reaches a model the installation withholds. Whatever the pipeline names, a run
  whose steps ask with the conditions of the request comes out the same however the adapters would answer
  for any model that is not governed - in a permitted region, approved, released to the use case, priced
  where spend is capped - or does not write text: no such model is asked anything, and no model is asked
  under an address.
\<close>
theorem steps_reach_only_governed_models:
  assumes permits: "\<And>i. se_permits (envs i) = Some (\<lambda>m. map_option (sentence i) (permits (step_requirements (conditions i)) m))"
    and agree: "\<And>i up sent. governed (conditions i) (rq_model sent) \<Longrightarrow> can (ce_catalog (conditions i) (rq_model sent)) Generate \<Longrightarrow>
      rq_addressing sent = [] \<Longrightarrow> answers i up sent = se_generate (envs i) up sent"
  shows "run_pipeline_steps (\<lambda>i. (envs i)\<lparr>se_generate := answers i\<rparr>) p rq decisions calls
    = run_pipeline_steps envs p rq decisions calls"
  unfolding run_pipeline_steps_def
proof (rule run_steps_cong, rule evaluate_frame)
  fix i step up sent assume asked: "may_ask (envs i) (ps_config step) up sent"
  then have "permits (step_requirements (conditions i)) (rq_model sent) = None"
    by (simp add: may_ask_def step_permits_def permits)
  then have "governed (conditions i) (rq_model sent)" "can (ce_catalog (conditions i) (rq_model sent)) Generate"
    by (auto simp: step_requirements_def permits_append generation_supported_def intro: installation_permits split: if_splits)
  with asked show "answers i up sent = se_generate (envs i) up sent" by (intro agree) (simp_all add: may_ask_def)
qed

section \<open>What is stored of a redacted request\<close>

lemma map_of_over_the_batch:
  "over_the_batch st evs notable = Some d \<Longrightarrow> \<exists>ev d'. notable = Some ev \<and> sv_decision ev = Some d'
     \<and> json_get d ''step'' = Some (JStr (step_type_value st)) \<and> json_get d ''action'' = json_get d' ''action''"
  by (auto simp: over_the_batch_def AList.update_conv' bind_eq_Some_conv split: option.splits if_splits)

lemma pii_evaluation:
  assumes "evaluate env step rq = Inr ev" "ps_type step = PiiFilter"
  shows "sv_type ev = PiiFilter \<and> (\<exists>d. sv_decision ev = Some d \<and> json_get d ''step'' = Some (JStr ''pii_filter'')
    \<and> json_get d ''action'' = Some (JStr (sv_action ev)))
    \<and> (sv_block ev \<noteq> None \<longrightarrow> sv_action ev \<notin> set applied_actions)"
proof -
  have "step = \<lparr>ps_type = PiiFilter, ps_config = ps_config step\<rparr>" using assms(2) by (cases step) simp
  with assms(1) have "evaluate env \<lparr>ps_type = PiiFilter, ps_config = ps_config step\<rparr> rq = Inr ev" by simp
  from evaluate_pii [OF this] show ?thesis
    by (auto simp: pii_failure_def redacted_evaluation_def Let_def applied_actions_def split: if_splits)
qed

lemma other_decision:
  assumes "evaluate env step rq = Inr ev" "ps_type step \<noteq> PiiFilter"
  shows "sv_type ev = ps_type step
    \<and> (\<exists>rest. sv_decision ev = Some ((''step'', JStr (step_type_value (ps_type step))) # rest))"
proof (cases "ps_type step")
  case InjectionFilter
  with assms(1) obtain cl unasked where "ev = filter_evaluation (ps_config step) cl unasked"
    by (auto simp: evaluate_injection_filter_def sum_bind_Inr_iff)
  with InjectionFilter show ?thesis by (simp add: filter_evaluation_def Let_def)
next
  case ModelRoute
  with assms(1) obtain r where "ev = not_asked_evaluation (ps_config step) rq r \<or> ev = routed_evaluation (ps_config step) rq r"
    unfolding evaluate.simps evaluate_model_route_def by (auto simp: sum_bind_Inr_iff) metis
  with ModelRoute show ?thesis by (elim disjE) (simp_all add: not_asked_evaluation_def routed_evaluation_def Let_def)
qed (use assms in simp)

lemma other_evaluation:
  assumes "evaluate env step rq = Inr ev" "ps_type step \<noteq> PiiFilter"
  shows "sv_type ev \<noteq> PiiFilter \<and> \<not> redaction_failed (case sv_decision ev of None \<Rightarrow> [] | Some d \<Rightarrow> [d])"
  using other_decision [OF assms] assms(2) by (cases "ps_type step") (auto simp: redaction_failed_def)

definition unapplied :: "evaluation \<Rightarrow> bool" where
  "unapplied ev \<longleftrightarrow> sv_type ev = PiiFilter \<and> sv_action ev \<notin> set applied_actions"

lemma evaluation_failed:
  "evaluate env step rq = Inr ev \<Longrightarrow>
     redaction_failed (case sv_decision ev of None \<Rightarrow> [] | Some d \<Rightarrow> [d]) = unapplied ev"
proof (cases "ps_type step = PiiFilter")
  case True
  assume "evaluate env step rq = Inr ev"
  from pii_evaluation [OF this True] show ?thesis by (auto simp: unapplied_def redaction_failed_def)
next
  case False
  assume "evaluate env step rq = Inr ev"
  from other_evaluation [OF this False] show ?thesis by (simp add: unapplied_def)
qed

lemma performed_failed:
  "performed envs i steps rq = (end, evs) \<Longrightarrow>
     redaction_failed (List.map_filter sv_decision evs) = list_ex unapplied evs"
proof (induction envs i steps rq arbitrary: "end" evs rule: performed.induct)
  case (1 envs i rq)
  then show ?case by (simp add: List.map_filter_simps redaction_failed_def)
next
  case (2 envs i step steps rq)
  show ?case
  proof (cases "evaluate (envs i) step rq")
    case (Inl e)
    with "2.prems" show ?thesis by (auto simp: List.map_filter_simps redaction_failed_def)
  next
    case (Inr ev)
    note ev = evaluation_failed [OF Inr]
    have split: "redaction_failed (List.map_filter sv_decision (ev # evs'))
        = (unapplied ev \<or> redaction_failed (List.map_filter sv_decision evs'))" for evs'
      using ev redaction_failed_append [of "[d]" for d]
      by (auto simp: List.map_filter_simps redaction_failed_def split: option.splits)
    show ?thesis
    proof (cases "sv_block ev")
      case (Some why)
      with Inr "2.prems" split [of "[]"] show ?thesis by (auto simp: List.map_filter_simps redaction_failed_def)
    next
      case None
      with Inr "2.prems" obtain evs' where run: "performed envs (Suc i) steps
          (case sv_request ev of None \<Rightarrow> rq | Some rq' \<Rightarrow> rq') = (end, evs')" and evs: "evs = ev # evs'"
        by (auto split: prod.splits)
      from "2.IH" [OF Inr None run] split [of evs'] show ?thesis by (simp add: evs)
    qed
  qed
qed


text \<open>
  C18: A redactor on a platform that has to be told where to send a request - its adapter answers nothing to
  one without an address, as an adapter of several regions does - fails every request that reaches it by an
  exception: no step sends an address, the step neither blocks nor degrades, and the record keeps the
  caller's body as it was sent.
\<close>
theorem an_unaddressed_redactor_fails_the_request:
  assumes "pl_steps p = step # steps" "ps_type step = PiiFilter" "py_strip (last_user_text rq) \<noteq> []"
    and "ca_found (models_for (envs 0) (ps_config step)) = (model, up) # cs" "thinking_for (envs 0) model = Inr setting"
    and unaddressed: "\<And>sent. rq_addressing sent = [] \<Longrightarrow> se_generate (envs 0) up sent = Inl (AmbiguousAddress why)"
    and "\<not> redaction_failed (at_decisions trail)"
  shows "serve_pipeline c envs (Some p) rq trail = (Inl (Escaped (CallEscaped (AmbiguousAddress why))), trail)"
proof -
  have "evaluate (envs 0) step rq = Inl (CallEscaped (AmbiguousAddress why))"
    using assms(2-5) by (simp add: evaluate_pii_filter_def ask_redactor_def with_thinking_def llm_redact_def unaddressed)
  with assms(1,7) show ?thesis
    by (simp add: serve_pipeline_def run_pipeline_steps_def keep_only_what_a_redactor_allows_def)
qed

section \<open>Batches of texts\<close>

lemma all_of_Inr: "all_of rs = Inr as \<longleftrightarrow> map Inr as = rs"
proof (induction rs arbitrary: as)
  case (Cons r rs)
  then show ?case by (cases as) (auto simp: sum_bind_Inr_iff)
qed auto

lemma evaluate_each_Inr:
  assumes "evaluate_each envs step texts model = Inr evs"
  shows "length evs = length texts"
    and "k < length texts \<Longrightarrow> evaluate (envs k) step (one_message (texts ! k) model) = Inr (evs ! k)"
proof -
  from assms have eq: "map Inr evs = map (\<lambda>(k, text). evaluate (envs k) step (one_message text model)) (List.enumerate 0 texts)"
    by (simp add: evaluate_each_def all_of_Inr)
  from arg_cong [OF eq, of length] show len: "length evs = length texts" by simp
  assume "k < length texts"
  with arg_cong [OF eq, of "\<lambda>xs. xs ! k"] len show "evaluate (envs k) step (one_message (texts ! k) model) = Inr (evs ! k)"
    by (simp add: nth_enumerate_eq)
qed

lemma worst_cases:
  "evs \<noteq> [] \<Longrightarrow> worst evs =
     (case List.find (\<lambda>ev. sv_block ev \<noteq> None) evs of
        Some ev \<Rightarrow> Some ev
      | None \<Rightarrow> (case List.find (\<lambda>ev. sv_action ev \<notin> set applied_actions) evs of
          Some ev \<Rightarrow> Some ev | None \<Rightarrow> Some (hd evs)))"
  by (auto simp: worst_def neq_Nil_conv split: option.split)

lemma worst_in: "worst evs = Some ev \<Longrightarrow> ev \<in> set evs"
proof (cases "evs = []")
  case False
  assume "worst evs = Some ev"
  with False show ?thesis unfolding worst_cases [OF False] by (auto simp: find_Some_iff split: option.splits)
qed (simp add: worst_def)

lemma worst_blocks: "Option.bind (worst evs) sv_block \<noteq> None \<longleftrightarrow> (\<exists>ev \<in> set evs. sv_block ev \<noteq> None)"
proof (cases "List.find (\<lambda>ev. sv_block ev \<noteq> None) evs")
  case None
  then have "\<forall>ev \<in> set evs. sv_block ev = None" by (simp add: find_None_iff)
  then show ?thesis using worst_in by (cases "worst evs") auto
next
  case (Some ev)
  then have "ev \<in> set evs" "sv_block ev \<noteq> None" by (auto simp: find_Some_iff)
  with Some show ?thesis by (cases evs) (auto simp: worst_def)
qed

lemma worst_unapplied:
  assumes "worst evs = Some w" "\<forall>ev \<in> set evs. sv_block ev \<noteq> None \<longrightarrow> sv_action ev \<notin> set applied_actions"
  shows "sv_action w \<notin> set applied_actions \<longleftrightarrow> (\<exists>ev \<in> set evs. sv_action ev \<notin> set applied_actions)"
proof (cases "List.find (\<lambda>ev. sv_block ev \<noteq> None) evs")
  case (Some ev)
  with assms(1) have "w = ev" by (auto simp: worst_def split: list.splits)
  moreover from Some have "ev \<in> set evs" "sv_block ev \<noteq> None" by (auto simp: find_Some_iff)
  ultimately show ?thesis using assms(2) by blast
next
  case None
  show ?thesis
  proof (cases "List.find (\<lambda>ev. sv_action ev \<notin> set applied_actions) evs")
    case (Some ev)
    with None assms(1) have "w = ev" by (auto simp: worst_def split: list.splits)
    moreover from Some have "ev \<in> set evs" "sv_action ev \<notin> set applied_actions" by (auto simp: find_Some_iff)
    ultimately show ?thesis by blast
  next
    case none: None
    then have "\<forall>ev \<in> set evs. sv_action ev \<in> set applied_actions" by (simp add: find_None_iff)
    with worst_in [OF assms(1)] show ?thesis by blast
  qed
qed

text \<open>
  A redactor over a batch tells of its worst text: the one decision it leaves says how many texts there
  were, reads as a failed redaction exactly where one of them was not redacted, wherever in the batch it
  stood, and refuses the request exactly where one of them was refused.
\<close>
theorem a_batch_tells_of_its_worst_text:
  assumes "evaluate_each envs step texts model = Inr evs" "ps_type step = PiiFilter" "texts \<noteq> []"
  shows "\<exists>d. over_the_batch PiiFilter evs (worst evs) = Some d \<and> json_get d ''texts'' = Some (JInt (int (length texts)))
    \<and> (redaction_failed [d] \<longleftrightarrow> (\<exists>ev \<in> set evs. sv_action ev \<notin> set applied_actions))
    \<and> (Option.bind (worst evs) sv_block \<noteq> None \<longleftrightarrow> (\<exists>ev \<in> set evs. sv_block ev \<noteq> None))"
proof -
  note each = evaluate_each_Inr [OF assms(1)]
  have all: "\<exists>d. sv_decision ev = Some d \<and> json_get d ''action'' = Some (JStr (sv_action ev))
      \<and> (sv_block ev \<noteq> None \<longrightarrow> sv_action ev \<notin> set applied_actions)" if "ev \<in> set evs" for ev
  proof -
    from that each obtain k where "evaluate (envs k) step (one_message (texts ! k) model) = Inr ev"
      by (auto simp: in_set_conv_nth)
    from pii_evaluation [OF this assms(2)] show ?thesis by blast
  qed
  from assms(3) each(1) have "evs \<noteq> []" by auto
  then obtain w where w: "worst evs = Some w" by (cases "worst evs") (auto simp: worst_cases split: option.splits)
  from all [OF worst_in [OF w]] obtain d' where d': "sv_decision w = Some d'"
    "json_get d' ''action'' = Some (JStr (sv_action w))" by blast
  with w \<open>evs \<noteq> []\<close> obtain d where d: "over_the_batch PiiFilter evs (worst evs) = Some d"
    by (auto simp: over_the_batch_def)
  from map_of_over_the_batch [OF d] w d' have "json_get d ''step'' = Some (JStr ''pii_filter'')"
    "json_get d ''action'' = Some (JStr (sv_action w))" by auto
  then have "redaction_failed [d] \<longleftrightarrow> sv_action w \<notin> set applied_actions" by (simp add: redaction_failed_def)
  moreover from all have "\<forall>ev \<in> set evs. sv_block ev \<noteq> None \<longrightarrow> sv_action ev \<notin> set applied_actions" by blast
  note worst_unapplied [OF w this]
  moreover have "json_get d ''texts'' = Some (JInt (int (length texts)))"
    using d w d' \<open>evs \<noteq> []\<close> each(1) by (auto simp: over_the_batch_def AList.update_conv')
  ultimately show ?thesis using d worst_blocks by blast
qed

lemma run_text_steps_alike:
  assumes "run_text_steps envs i model steps state = (Completed, st)" "run_text_steps envs i model steps state' = (Completed, st')"
    and "k < length (tx_texts state)" "k < length (tx_texts state')" "tx_texts state ! k = tx_texts state' ! k"
  shows "k < length (tx_texts st) \<and> k < length (tx_texts st') \<and> tx_texts st ! k = tx_texts st' ! k
    \<and> length (tx_texts st) = length (tx_texts state)"
  using assms
proof (induction steps arbitrary: i state state')
  case (Cons step steps)
  show ?case
  proof (cases "ps_type step \<in> set text_only_steps")
    case False
    with Cons.prems Cons.IH [of "Suc i" state state'] show ?thesis by simp
  next
    case True
    from Cons.prems(1) True obtain evs where evs: "evaluate_each (envs i) step (tx_texts state) model = Inr evs"
      and go: "run_text_steps envs (Suc i) model steps
        ((note_batch (ps_type step) evs state)\<lparr>tx_texts := map2 text_after (tx_texts state) evs\<rparr>) = (Completed, st)"
      by (auto simp: Let_def split: sum.splits option.splits)
    from Cons.prems(2) True obtain evs' where evs': "evaluate_each (envs i) step (tx_texts state') model = Inr evs'"
      and go': "run_text_steps envs (Suc i) model steps
        ((note_batch (ps_type step) evs' state')\<lparr>tx_texts := map2 text_after (tx_texts state') evs'\<rparr>) = (Completed, st')"
      by (auto simp: Let_def split: sum.splits option.splits)
    note each = evaluate_each_Inr [OF evs] evaluate_each_Inr [OF evs']
    from each(2) [of k] each(4) [of k] Cons.prems(3-5) have "evs ! k = evs' ! k" by simp
    with Cons.IH [OF go go'] Cons.prems(3-5) each(1,3) show ?thesis by simp
  qed
qed simp

text \<open>
  No text of a batch is another's: the texts a completed run hands on are as many as it was given, and
  what becomes of the one at a position depends on nothing but that text and what is asked about it -
  whatever the other texts are, and whether their redactions changed anything.
\<close>
theorem a_text_keeps_its_place:
  assumes "run_over_texts envs p texts model decisions calls = (Completed, st)"
    and "run_over_texts envs p texts' model decisions' calls' = (Completed, st')"
    and "k < length texts" "k < length texts'" "texts ! k = texts' ! k"
  shows "length (tx_texts st) = length texts \<and> tx_texts st ! k = tx_texts st' ! k"
  using run_text_steps_alike [OF assms(1,2) [unfolded run_over_texts_def]] assms(3-5) by simp

section \<open>What a batch costs\<close>

lemma summed_one_model:
  assumes "calls \<noteq> []" "\<forall>c \<in> set calls. mc_model c = model"
  shows "summed step calls = [\<lparr>mc_step = step, mc_model = model, mc_usage = usage_total calls\<rparr>]"
proof -
  from assms(2) have "map mc_model calls = map (\<lambda>_. model) calls" by simp
  then have "map mc_model calls = replicate (length calls) model" by (simp add: map_replicate_const)
  moreover have "keep_first (replicate (Suc n) model) = [model]" for n by (induction n) auto
  ultimately have "keep_first (map mc_model calls) = [model]" using assms(1) by (cases "length calls") auto
  moreover from assms(2) have "List.filter (\<lambda>c. mc_model c = model) calls = calls" by (auto intro: filter_True)
  ultimately show ?thesis by (simp add: summed_def)
qed


section \<open>Examples\<close>

definition sample_pii_step :: pipeline_step where
  "sample_pii_step = \<lparr>ps_type = PiiFilter, ps_config = [(''model'', JStr ''a''), (''on_failure'', JStr ''allow'')]\<rparr>"

definition sample_pipeline :: "pipeline_step \<Rightarrow> pipeline" where
  "sample_pipeline step = \<lparr>pl_steps = [step], pl_fallback_models = [], pl_embedding_fallback_models = [],
     pl_ranking_fallback_models = []\<rparr>"

definition sample_trail :: audit_trail where
  "sample_trail = \<lparr>at_operation = ''generateContent'', at_api = ''gemini'', at_requested_model = ''a'', at_model = None,
     at_selection = selection_direct, at_decisions = [], at_body = Some (JStr ''I am Al''), at_tools_declared = 0,
     at_tool_calls = [], at_model_calls = [], at_served_region = []\<rparr>"

definition sample_codec :: codec where
  "sample_codec = \<lparr>cd_dumps = (\<lambda>v. [CHR 0x22] @ json_str v @ [CHR 0x22]), cd_loads = (\<lambda>s. Some (JStr (butlast (tl s))))\<rparr>"

definition down :: "canonical_request \<Rightarrow> call_error + canonical_response" where
  "down sent = Inl (UpstreamFailure ''down'' None)"

lemma steps_reach_only_governed_models_witness:
  "run_pipeline_steps
      (\<lambda>i. (sample_step_env (\<lambda>_. sample_answer ''SAFE''))
         \<lparr>se_permits := Some (\<lambda>m. map_option (\<lambda>_. ''no'') (permits (step_requirements sample_env) m)),
          se_generate := (\<lambda>up sent. if rq_model sent = ''a'' then Inl (Unexpected ''asked'') else sample_answer ''SAFE'')\<rparr>)
      (sample_pipeline sample_pii_step) (sample_prompt User ''hi'') [] []
    = run_pipeline_steps
      (\<lambda>i. (sample_step_env (\<lambda>_. sample_answer ''SAFE''))
         \<lparr>se_permits := Some (\<lambda>m. map_option (\<lambda>_. ''no'') (permits (step_requirements sample_env) m))\<rparr>)
      (sample_pipeline sample_pii_step) (sample_prompt User ''hi'') [] []"
proof -
  let ?env = "(sample_step_env (\<lambda>_. sample_answer ''SAFE''))
    \<lparr>se_permits := Some (\<lambda>m. map_option (\<lambda>_. ''no'') (permits (step_requirements sample_env) m))\<rparr>"
  have a: "\<not> governed sample_env ''a''" by (simp add: governed_def sample_env_def is_test_double_def
      sample_reg_def sample_upstream_def provider_for_def)
  have "run_pipeline_steps (\<lambda>i. ?env\<lparr>se_generate := (\<lambda>up sent. if rq_model sent = ''a'' then Inl (Unexpected ''asked'')
        else sample_answer ''SAFE'')\<rparr>) (sample_pipeline sample_pii_step) (sample_prompt User ''hi'') [] []
    = run_pipeline_steps (\<lambda>i. ?env) (sample_pipeline sample_pii_step) (sample_prompt User ''hi'') [] []"
  proof (rule steps_reach_only_governed_models [of _ "\<lambda>_ _. ''no''" "\<lambda>_. sample_env"])
    show "(if rq_model sent = ''a'' then Inl (Unexpected ''asked'') else sample_answer ''SAFE'') = se_generate ?env up sent"
      if "governed sample_env (rq_model sent)" for up sent
      using that a by (auto simp: sample_step_env_def)
  qed simp_all
  then show ?thesis by simp
qed


lemma an_unaddressed_redactor_fails_the_request_witness:
  "at_body (snd (serve_pipeline sample_codec
      (\<lambda>_. sample_step_env (\<lambda>sent. if rq_addressing sent = [] then Inl (AmbiguousAddress ''no region'') else sample_answer ''ok''))
      (Some (sample_pipeline sample_pii_step)) (sample_prompt User ''I am Al'') sample_trail)) = Some (JStr ''I am Al'')"
proof -
  let ?env = "sample_step_env (\<lambda>sent. if rq_addressing sent = [] then Inl (AmbiguousAddress ''no region'') else sample_answer ''ok'')"
    and ?p = "sample_pipeline sample_pii_step"
  have found: "ca_found (models_for ?env (ps_config sample_pii_step)) = [(''a'', sample_upstream [])]"
    by (simp add: models_for_found step_names_def sample_pii_step_def config_list_def eligible_def step_provider_def
        step_permits_def sample_step_env_def sample_reg_def provider_for_def)
  have "serve_pipeline sample_codec (\<lambda>_. ?env) (Some ?p) (sample_prompt User ''I am Al'') sample_trail
      = (Inl (Escaped (CallEscaped (AmbiguousAddress ''no region''))), sample_trail)"
  proof (rule an_unaddressed_redactor_fails_the_request [OF _ _ _ found])
    show "py_strip (last_user_text (sample_prompt User ''I am Al'')) \<noteq> []" by code_simp
    show "thinking_for ?env ''a'' = Inr (Some thinking_off)" by (simp add: thinking_for_def sample_step_env_def)
  qed (simp_all add: sample_pipeline_def sample_pii_step_def sample_step_env_def sample_trail_def redaction_failed_def)
  then show ?thesis by (simp add: sample_trail_def)
qed

lemma a_batch_tells_of_its_worst_text_witness:
  "\<exists>evs d. evaluate_each (\<lambda>k. sample_step_env (if k = 1 then down else (\<lambda>_. sample_answer ''I am <PERSON>''))) sample_pii_step
       [''I am Al'', ''I am Bo''] ''a'' = Inr evs
     \<and> over_the_batch PiiFilter evs (worst evs) = Some d \<and> redaction_failed [d]"
proof -
  let ?envs = "\<lambda>k::nat. sample_step_env (if k = 1 then down else (\<lambda>_. sample_answer ''I am <PERSON>''))"
  have "case evaluate_each ?envs sample_pii_step [''I am Al'', ''I am Bo''] ''a'' of
      Inl e \<Rightarrow> False | Inr evs \<Rightarrow> list_ex (\<lambda>ev. sv_action ev \<notin> set applied_actions) evs"
    by code_simp
  then obtain evs where evs: "evaluate_each ?envs sample_pii_step [''I am Al'', ''I am Bo''] ''a'' = Inr evs"
    "list_ex (\<lambda>ev. sv_action ev \<notin> set applied_actions) evs" by (rule returnsE)
  from a_batch_tells_of_its_worst_text [OF evs(1)] evs show ?thesis
    by (auto simp: sample_pii_step_def list_ex_iff)
qed

lemma a_text_keeps_its_place_witness:
  "\<exists>st st'. run_over_texts (\<lambda>_ _. sample_step_env (\<lambda>_. sample_answer ''I am <PERSON>'')) (sample_pipeline sample_pii_step)
       [''I am Al'', ''x''] ''m'' [] [] = (Completed, st)
     \<and> run_over_texts (\<lambda>_ _. sample_step_env (\<lambda>_. sample_answer ''I am <PERSON>'')) (sample_pipeline sample_pii_step)
       [''I am Al'', ''y'', ''z''] ''m'' [] [] = (Completed, st') \<and> tx_texts st ! 0 = tx_texts st' ! 0"
proof -
  let ?run = "\<lambda>texts. run_over_texts (\<lambda>_ _. sample_step_env (\<lambda>_. sample_answer ''I am <PERSON>'')) (sample_pipeline sample_pii_step)
    texts ''m'' [] []"
  have "case fst (?run [''I am Al'', ''x'']) of Completed \<Rightarrow> True | _ \<Rightarrow> False"
    and "case fst (?run [''I am Al'', ''y'', ''z'']) of Completed \<Rightarrow> True | _ \<Rightarrow> False"
    by code_simp+
  then obtain st st' where runs: "?run [''I am Al'', ''x''] = (Completed, st)" "?run [''I am Al'', ''y'', ''z''] = (Completed, st')"
    by (cases "?run [''I am Al'', ''x'']"; cases "?run [''I am Al'', ''y'', ''z'']") (auto split: run_end.splits)
  from a_text_keeps_its_place [OF this, of 0] runs show ?thesis by auto
qed

definition sample_call :: model_call where
  "sample_call = \<lparr>mc_step = ''pii_filter'', mc_model = ''m'', mc_usage = \<lparr>prompt_tokens = 150, completion_tokens = 0,
     cached_input_tokens = 0, cache_write_tokens = 0, long_cache_write_tokens = 0, reasoning_tokens = 0\<rparr>\<rparr>"


end
