(* ===== verification/Consumer.thy ===== *)
theory Consumer
  imports Money Scopes Read_Models Pipeline_Config Audit_Trail "HOL-Library.Monad_Syntax"
    "HOL-Library.Sublist" "HOL-Library.List_Lexorder" "HOL-Library.Char_ord"
begin

text \<open>
  How Management's configuration reaches the gateway (\<open>gateway/src/aira_gateway/consumer/\<close>): the read model
  as one state, a handler per event type, and the consumer that applies one message after the other and
  survives those it cannot apply.

  A handler returns the state its session would commit, or nothing where it raises or the database refuses
  the row: the session is rolled back, so an event is applied whole or not at all. What a column makes of a
  JSON value (the driver refuses one of another type, the column one that is too long) is a parameter, as
  are the parsing of decimals and instants and the rendering of floats and containers by \<open>str\<close>.
\<close>

section \<open>The read model\<close>

record columns =
  cv_text :: "json \<Rightarrow> string option"
  cv_int :: "json \<Rightarrow> int option"
  cv_bool :: "json \<Rightarrow> bool option"
  cv_decimal :: "string \<Rightarrow> parsed_amount"
  cv_instant :: "string \<Rightarrow> instant option"
  cv_repr :: "json \<Rightarrow> string"

record api_key =
  k_key_hash :: string
  k_subject :: string
  k_issued_by :: "string option"
  k_use_case :: "string option"
  k_label :: "string option"
  k_is_active :: bool
  k_revoked_at :: "instant option"
  k_expires_at :: "instant option"

record role_read =
  ro_label :: string
  ro_group_path :: string
  ro_permissions :: "string list"
  ro_builtin :: bool

record read_model =
  rm_use_cases :: "string \<Rightarrow> use_case_read option"
  rm_members :: "string \<times> string \<Rightarrow> string option"
  rm_groups :: "string \<times> string \<Rightarrow> string option"
  rm_keys :: "string \<Rightarrow> api_key option"
  rm_pipelines :: "string \<Rightarrow> pipeline_read option"
  rm_budgets :: "int \<Rightarrow> budget_read option"
  rm_rate_limits :: "int \<Rightarrow> rate_limit_read option"
  rm_anomaly_rules :: "int \<Rightarrow> anomaly_rule_read option"
  rm_models :: "string \<Rightarrow> model_read option"
  rm_roles :: "string \<Rightarrow> role_read option"
  rm_usage :: usage_table

definition empty_read_model :: read_model where
  "empty_read_model =
     \<lparr>rm_use_cases = Map.empty, rm_members = Map.empty, rm_groups = Map.empty, rm_keys = Map.empty,
      rm_pipelines = Map.empty, rm_budgets = Map.empty, rm_rate_limits = Map.empty,
      rm_anomaly_rules = Map.empty, rm_models = Map.empty, rm_roles = Map.empty, rm_usage = Map.empty\<rparr>"

definition sweep :: "('v \<Rightarrow> bool) \<Rightarrow> ('k \<Rightarrow> 'v option) \<Rightarrow> 'k \<Rightarrow> 'v option" where
  \<comment> \<open>a \<open>delete\<close> by a condition on the row\<close>
  "sweep gone table = (\<lambda>k. case table k of None \<Rightarrow> None | Some v \<Rightarrow> if gone v then None else Some v)"

section \<open>Reading a payload\<close>

text \<open>\<open>int(value)\<close>: a numeral of digits, single underscores between them, a sign and blanks around.\<close>

definition digit_value :: "char \<Rightarrow> int option" where
  "digit_value c = (let n = of_char c :: int in if 48 \<le> n \<and> n \<le> 57 then Some (n - 48) else None)"

fun read_digits :: "int \<Rightarrow> bool \<Rightarrow> string \<Rightarrow> int option" where
  \<comment> \<open>\<open>after_digit\<close> holds where the last character read was a digit\<close>
  "read_digits acc after_digit [] = (if after_digit then Some acc else None)"
| "read_digits acc after_digit (c # cs) =
     (if c = CHR ''_'' then (if after_digit then read_digits acc False cs else None)
      else case digit_value c of None \<Rightarrow> None | Some d \<Rightarrow> read_digits (10 * acc + d) True cs)"

definition int_of_text :: "string \<Rightarrow> int option" where
  "int_of_text s =
     (case py_strip s of
        [] \<Rightarrow> None
      | c # cs \<Rightarrow>
          if length (List.filter (\<lambda>c. digit_value c \<noteq> None) (c # cs)) > 4300 then None
          else if c = CHR ''-'' then map_option uminus (read_digits 0 False cs)
          else if c = CHR ''+'' then read_digits 0 False cs
          else read_digits 0 False (c # cs))"

fun py_int :: "json \<Rightarrow> int option" where
  "py_int (JInt i) = Some i"
| "py_int (JBool b) = Some (if b then 1 else 0)"
| "py_int (JFloat x) = Some (if x < 0 then \<lceil>x\<rceil> else \<lfloor>x\<rfloor>)"
| "py_int (JStr s) = int_of_text s"
| "py_int _ = None"

definition py_str :: "columns \<Rightarrow> json \<Rightarrow> string" where
  "py_str cv v =
     (case v of
        JStr s \<Rightarrow> s
      | JInt i \<Rightarrow> show_int i
      | JBool b \<Rightarrow> if b then ''True'' else ''False''
      | JNull \<Rightarrow> ''None''
      | _ \<Rightarrow> cv_repr cv v)"

definition got_or :: "json_object \<Rightarrow> string \<Rightarrow> json \<Rightarrow> json" where
  \<comment> \<open>\<open>payload.get(key) or dflt\<close>\<close>
  "got_or payload key dflt = (let v = got payload key JNull in if json_truthy v then v else dflt)"

definition nullable :: "(json \<Rightarrow> 'a option) \<Rightarrow> json \<Rightarrow> 'a option option" where
  \<comment> \<open>a column that may be null\<close>
  "nullable column v = (if v = JNull then Some None else map_option Some (column v))"

definition price_nanos :: "columns \<Rightarrow> json \<Rightarrow> int option option" where
  \<comment> \<open>\<open>_price_nanos\<close>, into its column\<close>
  "price_nanos cv v =
     (if v = JNull then Some None
      else case to_nanos (cv_decimal cv (py_str cv v)) of
             Inl _ \<Rightarrow> None
           | Inr n \<Rightarrow> map_option Some (cv_int cv (JInt n)))"

fun tokens_stated :: "json \<Rightarrow> json" where
  \<comment> \<open>\<open>_tokens\<close>\<close>
  "tokens_stated (JInt n) = (if n \<le> 0 then JNull else JInt n)"
| "tokens_stated _ = JNull"

fun moment :: "columns \<Rightarrow> json \<Rightarrow> instant option" where
  "moment cv (JStr s) = (if s = [] then None else cv_instant cv s)"
| "moment cv _ = None"

fun released_models :: "json \<Rightarrow> string list option" where
  "released_models (JList names) = Some (sort (remdups (List.filter (\<lambda>n. n \<noteq> []) (strings names))))"
| "released_models _ = None"

text \<open>\<open>budget_mail_thresholds\<close> of \<open>libs/src/aira_common/mail.py\<close>; what is wrong with them is not told apart.\<close>

definition max_budget_mail_thresholds :: nat where "max_budget_mail_thresholds = 5"

fun threshold_of :: "json \<Rightarrow> int option" where
  "threshold_of (JInt n) = (if 1 \<le> n \<and> n \<le> 100 then Some n else None)"
| "threshold_of _ = None"

fun budget_mail_thresholds :: "json \<Rightarrow> int list option" where
  "budget_mail_thresholds (JList items) =
     (if length items > max_budget_mail_thresholds then None
      else if list_ex (\<lambda>v. threshold_of v = None) items then None
      else let ns = List.map_filter threshold_of items in
        if distinct ns then Some (sort ns) else None)"
| "budget_mail_thresholds _ = None"

definition mail_thresholds :: "json_object \<Rightarrow> int list option" where
  "mail_thresholds payload =
     (case map_of payload ''budget_mail_thresholds'' of None \<Rightarrow> None | Some v \<Rightarrow> budget_mail_thresholds v)"

definition visibilities :: "string list" where "visibilities = [''members'', ''own'', ''oversight'']"

definition payload_visibility :: "columns \<Rightarrow> json_object \<Rightarrow> string" where
  "payload_visibility cv payload =
     (let named = py_strip (py_str cv (got_or payload ''payload_visibility'' (JStr []))) in
      if named \<in> set visibilities then named
      else if named \<noteq> [] then ''oversight''
      else if json_truthy (got payload ''restrict_members_to_own_requests'' JNull) then ''own''
      else ''members'')"

definition default_retention_days :: int where "default_retention_days = 7"

section \<open>Use cases\<close>

definition usecase_fields :: "columns \<Rightarrow> json_object \<Rightarrow> string \<Rightarrow> instant option \<Rightarrow> use_case_read option" where
  \<comment> \<open>\<open>_usecase_fields\<close>, on the row of a slug\<close>
  "usecase_fields cv p slug deleted =
     do {
       name \<leftarrow> cv_text cv (got p ''name'' (JStr []));
       description \<leftarrow> cv_text cv (got p ''description'' (JStr []));
       notes \<leftarrow> cv_text cv (got p ''processing_notes'' (JStr []));
       ttl \<leftarrow> cv_text cv (JStr (py_str cv (got_or p ''prompt_cache_ttl'' (JStr ''5m''))));
       stated \<leftarrow> py_int (got_or p ''retention_days'' (JInt default_retention_days));
       days \<leftarrow> cv_int cv (JInt stated);
       Some \<lparr>uc_slug = slug, uc_name = name, uc_deleted_at = deleted, uc_description = description,
         uc_processing_notes = notes,
         uc_store_payloads = json_truthy (got p ''store_payloads'' (JBool True)),
         uc_retention_days = days,
         uc_payload_visibility = payload_visibility cv p,
         uc_tools_enabled = json_truthy (got p ''tools_enabled'' (JBool False)),
         uc_include_reasoning = json_truthy (got p ''include_reasoning'' (JBool True)),
         uc_prompt_caching_enabled = json_truthy (got p ''prompt_caching_enabled'' (JBool False)),
         uc_prompt_cache_ttl = ttl,
         uc_allowed_models = released_models (got p ''allowed_models'' JNull),
         uc_budget_mail_thresholds = mail_thresholds p,
         uc_mail_admins_on_anomalies = json_truthy (got p ''mail_admins_on_anomalies'' (JBool True))\<rparr>
     }"

type_synonym handler = "columns \<Rightarrow> instant \<Rightarrow> json_object \<Rightarrow> read_model \<Rightarrow> read_model option"

definition upsert_usecase :: handler where
  "upsert_usecase cv now p rm =
     do {
       v \<leftarrow> map_of p ''slug'';
       slug \<leftarrow> cv_text cv v;
       row \<leftarrow> usecase_fields cv p slug (Option.bind (rm_use_cases rm slug) uc_deleted_at);
       Some (rm\<lparr>rm_use_cases := (rm_use_cases rm)(slug \<mapsto> row)\<rparr>)
     }"

definition retired :: "read_model \<Rightarrow> string \<Rightarrow> bool" where
  "retired rm slug \<longleftrightarrow> (case rm_use_cases rm slug of None \<Rightarrow> False | Some row \<Rightarrow> uc_deleted_at row \<noteq> None)"

definition is_retired :: "columns \<Rightarrow> read_model \<Rightarrow> json \<Rightarrow> bool option" where
  "is_retired cv rm v = (if \<not> json_truthy v then Some False else map_option (retired rm) (cv_text cv v))"

definition counter_of :: "string \<Rightarrow> string \<Rightarrow> bool" where
  \<comment> \<open>the two conditions on \<open>scope_key\<close>; a slug holds neither of the wildcards of \<open>startswith\<close>\<close>
  "counter_of slug key \<longleftrightarrow> key = ''uc:'' @ slug \<or> prefix (''member:'' @ slug @ '':'') key"

definition deactivated :: "string \<Rightarrow> api_key \<Rightarrow> api_key" where
  "deactivated slug k = (if k_use_case k = Some slug then k\<lparr>k_is_active := False\<rparr> else k)"

definition swept :: "string \<Rightarrow> read_model \<Rightarrow> read_model" where
  \<comment> \<open>the children of a retired use case: its keys deactivated, everything else deleted\<close>
  "swept slug rm =
     rm\<lparr>rm_keys := (\<lambda>x. map_option (deactivated slug) (rm_keys rm x)),
        rm_budgets := sweep (\<lambda>b. b_use_case b = slug) (rm_budgets rm),
        rm_groups := (\<lambda>k. if fst k = slug then None else rm_groups rm k),
        rm_rate_limits := sweep (\<lambda>l. rl_use_case l = slug) (rm_rate_limits rm),
        rm_anomaly_rules := sweep (\<lambda>r. ar_use_case r = Some slug) (rm_anomaly_rules rm),
        rm_pipelines := (rm_pipelines rm)(slug := None),
        rm_usage := (\<lambda>k. if counter_of slug (fst k) then None else rm_usage rm k),
        rm_members := (\<lambda>k. if fst k = slug then None else rm_members rm k)\<rparr>"

definition retire_usecase :: handler where
  "retire_usecase cv now p rm =
     do {
       v \<leftarrow> map_of p ''slug'';
       slug \<leftarrow> cv_text cv v;
       row \<leftarrow> (case rm_use_cases rm slug of
                 Some row \<Rightarrow> Some (row\<lparr>uc_deleted_at := Some now\<rparr>)
               | None \<Rightarrow> usecase_fields cv p slug (Some now));
       Some ((swept slug rm)\<lparr>rm_use_cases := (rm_use_cases rm)(slug \<mapsto> row)\<rparr>)
     }"

definition compared :: "(json \<Rightarrow> 'a option) \<Rightarrow> json \<Rightarrow> 'a option option" where
  \<comment> \<open>what a key column is compared with; null matches no row\<close>
  "compared column v = (if v = JNull then Some None else map_option Some (column v))"

definition purge_usecase :: handler where
  "purge_usecase cv now p rm =
     do {
       v \<leftarrow> map_of p ''slug'';
       slug \<leftarrow> compared (cv_text cv) v;
       Some (case slug of None \<Rightarrow> rm | Some u \<Rightarrow> rm\<lparr>rm_use_cases := (rm_use_cases rm)(u := None)\<rparr>)
     }"

section \<open>Members, group grants and keys\<close>

text \<open>A handler of a use case's child: nothing is written for a retired one.\<close>

definition unless_retired :: "columns \<Rightarrow> read_model \<Rightarrow> json \<Rightarrow> read_model option \<Rightarrow> read_model option" where
  "unless_retired cv rm v written =
     (case is_retired cv rm v of None \<Rightarrow> None | Some True \<Rightarrow> Some rm | Some False \<Rightarrow> written)"

definition upsert_member :: handler where
  "upsert_member cv now p rm =
     do {
       v \<leftarrow> map_of p ''slug'';
       unless_retired cv rm v (do {
         slug \<leftarrow> cv_text cv v;
         w \<leftarrow> map_of p ''username'';
         member \<leftarrow> cv_text cv w;
         role \<leftarrow> cv_text cv (got p ''role'' (JStr ''user''));
         Some (rm\<lparr>rm_members := (rm_members rm)((slug, member) \<mapsto> role)\<rparr>)
       })
     }"

definition remove_member :: handler where
  "remove_member cv now p rm =
     do {
       v \<leftarrow> map_of p ''slug'';
       slug \<leftarrow> compared (cv_text cv) v;
       w \<leftarrow> map_of p ''username'';
       member \<leftarrow> compared (cv_text cv) w;
       Some (case (slug, member) of
               (Some u, Some m) \<Rightarrow> rm\<lparr>rm_members := (rm_members rm)((u, m) := None)\<rparr>
             | _ \<Rightarrow> rm)
     }"

definition upsert_group_grant :: handler where
  "upsert_group_grant cv now p rm =
     do {
       v \<leftarrow> map_of p ''slug'';
       unless_retired cv rm v (do {
         slug \<leftarrow> cv_text cv v;
         w \<leftarrow> map_of p ''group'';
         group \<leftarrow> cv_text cv w;
         role \<leftarrow> cv_text cv (got p ''role'' (JStr ''user''));
         Some (rm\<lparr>rm_groups := (rm_groups rm)((slug, group) \<mapsto> role)\<rparr>)
       })
     }"

definition remove_group_grant :: handler where
  "remove_group_grant cv now p rm =
     do {
       v \<leftarrow> map_of p ''slug'';
       slug \<leftarrow> compared (cv_text cv) v;
       w \<leftarrow> map_of p ''group'';
       group \<leftarrow> compared (cv_text cv) w;
       Some (case (slug, group) of
               (Some u, Some g) \<Rightarrow> rm\<lparr>rm_groups := (rm_groups rm)((u, g) := None)\<rparr>
             | _ \<Rightarrow> rm)
     }"

definition key_fields :: "columns \<Rightarrow> json_object \<Rightarrow> bool \<Rightarrow> instant option \<Rightarrow> api_key option" where
  \<comment> \<open>what an event states of a key, with what only the gateway decides\<close>
  "key_fields cv p active revoked =
     do {
       h \<leftarrow> map_of p ''key_hash'';
       hash \<leftarrow> cv_text cv h;
       owner \<leftarrow> cv_text cv (got p ''subject'' (JStr []));
       issuer \<leftarrow> nullable (cv_text cv) (got_or p ''issued_by'' JNull);
       use_case \<leftarrow> nullable (cv_text cv) (got p ''use_case'' JNull);
       label \<leftarrow> nullable (cv_text cv) (got p ''label'' JNull);
       Some \<lparr>k_key_hash = hash, k_subject = owner, k_issued_by = issuer, k_use_case = use_case, k_label = label,
         k_is_active = active, k_revoked_at = revoked, k_expires_at = moment cv (got p ''expires_at'' JNull)\<rparr>
     }"

definition upsert_api_key :: handler where
  "upsert_api_key cv now p rm =
     do {
       v \<leftarrow> map_of p ''prefix'';
       pre \<leftarrow> cv_text cv v;
       row \<leftarrow> (case rm_keys rm pre of
                 None \<Rightarrow> do {
                   gone \<leftarrow> is_retired cv rm (got p ''use_case'' JNull);
                   key_fields cv p (\<not> gone) None
                 }
               | Some k \<Rightarrow> key_fields cv p (k_is_active k) (k_revoked_at k));
       Some (rm\<lparr>rm_keys := (rm_keys rm)(pre \<mapsto> row)\<rparr>)
     }"

definition revoke_api_key :: handler where
  "revoke_api_key cv now p rm =
     do {
       v \<leftarrow> map_of p ''prefix'';
       pre \<leftarrow> compared (cv_text cv) v;
       Some (case Option.bind pre (rm_keys rm) of
               None \<Rightarrow> rm
             | Some k \<Rightarrow>
                 rm\<lparr>rm_keys := (rm_keys rm)(the pre \<mapsto>
                   k\<lparr>k_is_active := False,
                     k_revoked_at := (case k_revoked_at k of None \<Rightarrow> Some now | Some t \<Rightarrow> Some t)\<rparr>)\<rparr>)
     }"

section \<open>Pipelines, budgets, rate limits and anomaly rules\<close>

definition upsert_pipeline :: handler where
  "upsert_pipeline cv now p rm =
     do {
       v \<leftarrow> map_of p ''use_case'';
       unless_retired cv rm v (do {
         use_case \<leftarrow> cv_text cv v;
         Some (rm\<lparr>rm_pipelines := (rm_pipelines rm)(use_case \<mapsto>
           \<lparr>pr_steps = got p ''steps'' (JList []),
            pr_fallback_models = got_or p (chain_field KindGenerate) (JList []),
            pr_embedding_fallback_models = got_or p (chain_field KindEmbed) (JList []),
            pr_ranking_fallback_models = got_or p (chain_field KindRerank) (JList [])\<rparr>)\<rparr>)
       })
     }"

definition delete_pipeline :: handler where
  "delete_pipeline cv now p rm =
     do {
       v \<leftarrow> map_of p ''use_case'';
       use_case \<leftarrow> compared (cv_text cv) v;
       Some (case use_case of None \<Rightarrow> rm | Some u \<Rightarrow> rm\<lparr>rm_pipelines := (rm_pipelines rm)(u := None)\<rparr>)
     }"

definition budget_row :: "columns \<Rightarrow> json_object \<Rightarrow> json \<Rightarrow> budget_read option" where
  "budget_row cv p v =
     do {
       use_case \<leftarrow> cv_text cv v;
       s \<leftarrow> map_of p ''scope'';
       scope \<leftarrow> cv_text cv s;
       subject \<leftarrow> cv_text cv (got p ''subject'' (JStr []));
       w \<leftarrow> map_of p ''period'';
       period \<leftarrow> cv_text cv w;
       cost \<leftarrow> price_nanos cv (got p ''limit_cost'' JNull);
       tokens \<leftarrow> nullable (cv_int cv) (got p ''limit_tokens'' JNull);
       requests \<leftarrow> nullable (cv_int cv) (got p ''limit_requests'' JNull);
       enabled \<leftarrow> cv_bool cv (got p ''enabled'' (JBool True));
       i \<leftarrow> map_of p ''id'';
       ident \<leftarrow> cv_int cv i;
       Some \<lparr>b_id = ident, b_use_case = use_case, b_scope = scope, b_subject = subject, b_period = period,
         b_limit_cost_nanos = cost, b_limit_tokens = tokens, b_limit_requests = requests, b_enabled = enabled\<rparr>
     }"

definition upsert_budget :: handler where
  "upsert_budget cv now p rm =
     do {
       v \<leftarrow> map_of p ''use_case'';
       unless_retired cv rm v
         (map_option (\<lambda>row. rm\<lparr>rm_budgets := (rm_budgets rm)(b_id row \<mapsto> row)\<rparr>) (budget_row cv p v))
     }"

definition delete_budget :: handler where
  "delete_budget cv now p rm =
     do {
       v \<leftarrow> map_of p ''id'';
       ident \<leftarrow> compared (cv_int cv) v;
       Some (case ident of None \<Rightarrow> rm | Some i \<Rightarrow> rm\<lparr>rm_budgets := (rm_budgets rm)(i := None)\<rparr>)
     }"

definition rate_limit_row :: "columns \<Rightarrow> json_object \<Rightarrow> json \<Rightarrow> rate_limit_read option" where
  "rate_limit_row cv p v =
     do {
       use_case \<leftarrow> cv_text cv v;
       s \<leftarrow> map_of p ''scope'';
       scope \<leftarrow> cv_text cv s;
       subject \<leftarrow> cv_text cv (got p ''subject'' (JStr []));
       rpm \<leftarrow> py_int (got_or p ''limit_rpm'' (JInt 0));
       rpm' \<leftarrow> cv_int cv (JInt rpm);
       burst \<leftarrow> py_int (got_or p ''burst'' (JInt 0));
       burst' \<leftarrow> cv_int cv (JInt burst);
       enabled \<leftarrow> cv_bool cv (got p ''enabled'' (JBool True));
       i \<leftarrow> map_of p ''id'';
       ident \<leftarrow> cv_int cv i;
       Some \<lparr>rl_id = ident, rl_use_case = use_case, rl_scope = scope, rl_subject = subject,
         rl_limit_rpm = rpm', rl_burst = burst', rl_enabled = enabled\<rparr>
     }"

definition upsert_rate_limit :: handler where
  "upsert_rate_limit cv now p rm =
     do {
       v \<leftarrow> map_of p ''use_case'';
       unless_retired cv rm v
         (map_option (\<lambda>row. rm\<lparr>rm_rate_limits := (rm_rate_limits rm)(rl_id row \<mapsto> row)\<rparr>) (rate_limit_row cv p v))
     }"

definition delete_rate_limit :: handler where
  "delete_rate_limit cv now p rm =
     do {
       v \<leftarrow> map_of p ''id'';
       ident \<leftarrow> compared (cv_int cv) v;
       Some (case ident of None \<Rightarrow> rm | Some i \<Rightarrow> rm\<lparr>rm_rate_limits := (rm_rate_limits rm)(i := None)\<rparr>)
     }"

definition rule_row ::
  "columns \<Rightarrow> json_object \<Rightarrow> json \<Rightarrow> json \<Rightarrow> int \<Rightarrow> int \<Rightarrow> int \<Rightarrow> anomaly_rule_read option" where
  "rule_row cv p v kind window threshold sample =
     do {
       use_case \<leftarrow> nullable (cv_text cv) v;
       name \<leftarrow> cv_text cv (got p ''name'' (JStr []));
       kind' \<leftarrow> cv_text cv kind;
       window' \<leftarrow> cv_int cv (JInt window);
       threshold' \<leftarrow> cv_int cv (JInt threshold);
       parameter \<leftarrow> nullable (cv_int cv) (got p ''parameter'' JNull);
       sample' \<leftarrow> cv_int cv (JInt sample);
       action \<leftarrow> cv_text cv (got p ''action'' (JStr ''alert''));
       target \<leftarrow> cv_text cv (got p ''target'' (JStr ''subject''));
       minutes \<leftarrow> nullable (cv_int cv) (got p ''action_minutes'' JNull);
       throttle \<leftarrow> nullable (cv_int cv) (got p ''throttle_rpm'' JNull);
       i \<leftarrow> map_of p ''id'';
       ident \<leftarrow> cv_int cv i;
       Some \<lparr>ar_id = ident, ar_use_case = use_case, ar_name = name, ar_kind = kind', ar_window_minutes = window',
         ar_threshold = threshold', ar_parameter = parameter, ar_min_sample = sample', ar_action = action,
         ar_target = target, ar_action_minutes = minutes, ar_throttle_rpm = throttle,
         ar_enabled = json_truthy (got p ''enabled'' (JBool True))\<rparr>
     }"

definition upsert_anomaly_rule :: handler where
  \<comment> \<open>an event without a use case, not even a null one, is malformed and skipped\<close>
  "upsert_anomaly_rule cv now p rm =
     do {
       kind \<leftarrow> map_of p ''kind'';
       window \<leftarrow> py_int (got p ''window_minutes'' (JInt 15));
       t \<leftarrow> map_of p ''threshold'';
       threshold \<leftarrow> py_int t;
       sample \<leftarrow> py_int (got_or p ''min_sample'' (JInt 0));
       case map_of p ''use_case'' of
         None \<Rightarrow> Some rm
       | Some v \<Rightarrow> unless_retired cv rm v
           (map_option (\<lambda>row. rm\<lparr>rm_anomaly_rules := (rm_anomaly_rules rm)(ar_id row \<mapsto> row)\<rparr>)
             (rule_row cv p v kind window threshold sample))
     }"

definition delete_anomaly_rule :: handler where
  "delete_anomaly_rule cv now p rm =
     do {
       v \<leftarrow> map_of p ''id'';
       ident \<leftarrow> compared (cv_int cv) v;
       Some (case ident of None \<Rightarrow> rm | Some i \<Rightarrow> rm\<lparr>rm_anomaly_rules := (rm_anomaly_rules rm)(i := None)\<rparr>)
     }"

section \<open>The model catalogue and the roles\<close>

definition fresh_model :: "string \<Rightarrow> model_read" where
  \<comment> \<open>the defaults of the columns an event need not carry\<close>
  "fresh_model model =
     \<lparr>m_model = model, m_approved = True, m_display_name = [], m_provider = [],
      m_input_price_per_million_nanos = None, m_output_price_per_million_nanos = None,
      m_cached_input_price_per_million_nanos = None, m_cache_write_price_per_million_nanos = None,
      m_long_context_threshold = None, m_long_context_input_price_per_million_nanos = None,
      m_long_context_output_price_per_million_nanos = None,
      m_long_context_cached_input_price_per_million_nanos = None,
      m_long_context_cache_write_price_per_million_nanos = None,
      m_capabilities = None, m_publisher = [], m_platform = [], m_addressing = None, m_underlying_model = [],
      m_context_window = None, m_max_output_tokens = None, m_default_max_output_tokens = None, m_thinking = None,
      m_embedding = None, m_attachments = None, m_hosting = [], m_deprecated = False, m_fixed_sampling = False,
      m_default_sampling = None, m_numeric_id = None\<rparr>"

definition priced_row :: "columns \<Rightarrow> json_object \<Rightarrow> model_read \<Rightarrow> model_read option" where
  \<comment> \<open>the fields every model event sets\<close>
  "priced_row cv p row =
     do {
       display \<leftarrow> cv_text cv (got p ''display_name'' (JStr []));
       provider \<leftarrow> cv_text cv (got p ''provider'' (JStr []));
       input \<leftarrow> price_nanos cv (got p ''input_price_per_million'' JNull);
       cached \<leftarrow> price_nanos cv (got p ''cached_input_price_per_million'' JNull);
       writing \<leftarrow> price_nanos cv (got p ''cache_write_price_per_million'' JNull);
       output \<leftarrow> price_nanos cv (got p ''output_price_per_million'' JNull);
       threshold \<leftarrow> nullable (cv_int cv) (tokens_stated (got p ''long_context_threshold'' JNull));
       long_input \<leftarrow> price_nanos cv (got p ''long_context_input_price_per_million'' JNull);
       long_output \<leftarrow> price_nanos cv (got p ''long_context_output_price_per_million'' JNull);
       long_cached \<leftarrow> price_nanos cv (got p ''long_context_cached_input_price_per_million'' JNull);
       long_writing \<leftarrow> price_nanos cv (got p ''long_context_cache_write_price_per_million'' JNull);
       Some (row\<lparr>m_approved := json_truthy (got p ''approved'' (JBool True)), m_display_name := display,
         m_provider := provider, m_input_price_per_million_nanos := input,
         m_cached_input_price_per_million_nanos := cached, m_cache_write_price_per_million_nanos := writing,
         m_output_price_per_million_nanos := output, m_long_context_threshold := threshold,
         m_long_context_input_price_per_million_nanos := long_input,
         m_long_context_output_price_per_million_nanos := long_output,
         m_long_context_cached_input_price_per_million_nanos := long_cached,
         m_long_context_cache_write_price_per_million_nanos := long_writing\<rparr>)
     }"

definition declared :: "json_object \<Rightarrow> string \<Rightarrow> json \<Rightarrow> (json \<Rightarrow> 'a option) \<Rightarrow> 'a \<Rightarrow> 'a option" where
  \<comment> \<open>a field the event omits is left alone; one it carries as null is its default\<close>
  "declared p key dflt column old =
     (case map_of p key of None \<Rightarrow> Some old | Some v \<Rightarrow> column (if v = JNull then dflt else v))"

fun json_column :: "json \<Rightarrow> json option option" where
  "json_column JNull = Some None"
| "json_column v = Some (Some v)"

definition declared_row :: "columns \<Rightarrow> json_object \<Rightarrow> model_read \<Rightarrow> model_read option" where
  \<comment> \<open>\<open>_DECLARATION_DEFAULTS\<close>\<close>
  "declared_row cv p row =
     do {
       capabilities \<leftarrow> declared p ''capabilities'' JNull json_column (m_capabilities row);
       publisher \<leftarrow> declared p ''publisher'' (JStr []) (cv_text cv) (m_publisher row);
       platform \<leftarrow> declared p ''platform'' (JStr []) (cv_text cv) (m_platform row);
       addressing \<leftarrow> declared p ''addressing'' JNull json_column (m_addressing row);
       underlying \<leftarrow> declared p ''underlying_model'' (JStr []) (cv_text cv) (m_underlying_model row);
       window \<leftarrow> declared p ''context_window'' JNull (nullable (cv_int cv)) (m_context_window row);
       most \<leftarrow> declared p ''max_output_tokens'' JNull (nullable (cv_int cv)) (m_max_output_tokens row);
       usual \<leftarrow> declared p ''default_max_output_tokens'' JNull (nullable (cv_int cv)) (m_default_max_output_tokens row);
       thinking \<leftarrow> declared p ''thinking'' JNull json_column (m_thinking row);
       embedding \<leftarrow> declared p ''embedding'' JNull json_column (m_embedding row);
       attachments \<leftarrow> declared p ''attachments'' JNull json_column (m_attachments row);
       hosting \<leftarrow> declared p ''hosting'' (JStr []) (cv_text cv) (m_hosting row);
       deprecated \<leftarrow> declared p ''deprecated'' (JBool False) (cv_bool cv) (m_deprecated row);
       fixed \<leftarrow> declared p ''fixed_sampling'' (JBool False) (cv_bool cv) (m_fixed_sampling row);
       sampling \<leftarrow> declared p ''default_sampling'' JNull json_column (m_default_sampling row);
       numeric \<leftarrow> declared p ''numeric_id'' JNull (nullable (cv_int cv)) (m_numeric_id row);
       Some (row\<lparr>m_capabilities := capabilities, m_publisher := publisher, m_platform := platform,
         m_addressing := addressing, m_underlying_model := underlying, m_context_window := window,
         m_max_output_tokens := most, m_default_max_output_tokens := usual, m_thinking := thinking,
         m_embedding := embedding, m_attachments := attachments, m_hosting := hosting,
         m_deprecated := deprecated, m_fixed_sampling := fixed, m_default_sampling := sampling,
         m_numeric_id := numeric\<rparr>)
     }"

definition upsert_model :: handler where
  "upsert_model cv now p rm =
     do {
       v \<leftarrow> map_of p ''name'';
       model \<leftarrow> cv_text cv v;
       row \<leftarrow> priced_row cv p (case rm_models rm model of None \<Rightarrow> fresh_model model | Some row \<Rightarrow> row);
       row' \<leftarrow> declared_row cv p row;
       Some (rm\<lparr>rm_models := (rm_models rm)(model \<mapsto> row')\<rparr>)
     }"

definition delete_model :: handler where
  "delete_model cv now p rm =
     do {
       v \<leftarrow> map_of p ''name'';
       model \<leftarrow> compared (cv_text cv) v;
       Some (case model of None \<Rightarrow> rm | Some m \<Rightarrow> rm\<lparr>rm_models := (rm_models rm)(m := None)\<rparr>)
     }"

fun iterated_texts :: "json \<Rightarrow> string list option" where
  \<comment> \<open>\<open>[x for x in value or [] if isinstance(x, str)]\<close>\<close>
  "iterated_texts (JList vs) = Some (strings vs)"
| "iterated_texts (JStr s) = Some (map (\<lambda>c. [c]) s)"
| "iterated_texts (JObj es) = Some (map fst es)"
| "iterated_texts v = (if json_truthy v then None else Some [])"

definition upsert_role :: handler where
  "upsert_role cv now p rm =
     do {
       label \<leftarrow> cv_text cv (got p ''label'' (JStr []));
       group \<leftarrow> cv_text cv (got p ''group_path'' (JStr []));
       permissions \<leftarrow> iterated_texts (got p ''permissions'' JNull);
       v \<leftarrow> map_of p ''slug'';
       slug \<leftarrow> cv_text cv v;
       Some (rm\<lparr>rm_roles := (rm_roles rm)(slug \<mapsto>
         \<lparr>ro_label = label, ro_group_path = group, ro_permissions = permissions,
          ro_builtin = json_truthy (got p ''builtin'' (JBool False))\<rparr>)\<rparr>)
     }"

definition remove_role :: handler where
  "remove_role cv now p rm =
     do {
       v \<leftarrow> map_of p ''slug'';
       slug \<leftarrow> compared (cv_text cv) v;
       Some (case slug of None \<Rightarrow> rm | Some s \<Rightarrow> rm\<lparr>rm_roles := (rm_roles rm)(s := None)\<rparr>)
     }"

section \<open>One event, and the consumer\<close>

definition handlers :: "(string \<times> handler) list" where
  "handlers =
     [(''usecase.upserted'', upsert_usecase),
      (''usecase.deleted'', retire_usecase),
      (''usecase.purged'', purge_usecase),
      (''membership.upserted'', upsert_member),
      (''membership.removed'', remove_member),
      (''use_case_group.granted'', upsert_group_grant),
      (''use_case_group.revoked'', remove_group_grant),
      (''api_key.created'', upsert_api_key),
      (''api_key.revoked'', revoke_api_key),
      (''pipeline.upserted'', upsert_pipeline),
      (''pipeline.deleted'', delete_pipeline),
      (''budget.upserted'', upsert_budget),
      (''budget.deleted'', delete_budget),
      (''ratelimit.upserted'', upsert_rate_limit),
      (''ratelimit.deleted'', delete_rate_limit),
      (''anomaly_rule.upserted'', upsert_anomaly_rule),
      (''anomaly_rule.deleted'', delete_anomaly_rule),
      (''model.upserted'', upsert_model),
      (''model.deleted'', delete_model),
      (''role.upserted'', upsert_role),
      (''role.removed'', remove_role)]"

definition apply_event :: "columns \<Rightarrow> instant \<Rightarrow> string \<Rightarrow> json_object \<Rightarrow> read_model \<Rightarrow> read_model option" where
  \<comment> \<open>a type without a handler is tolerated\<close>
  "apply_event cv now event_type p rm =
     (case map_of handlers event_type of None \<Rightarrow> Some rm | Some handle \<Rightarrow> handle cv now p rm)"

text \<open>A message as it arrives: headers whose bytes may be absent or no text, and a value that may be no JSON.\<close>

record message_in =
  mi_headers :: "(string \<times> string option) list"
  mi_value :: "json option"

definition decode_event_type :: "(string \<times> string option) list \<Rightarrow> string option" where
  "decode_event_type headers = Option.bind (map_of headers ''event_type'') (\<lambda>v. v)"

definition event_payload :: "json option \<Rightarrow> json_object option" where
  "event_payload v = json_object_of v"

definition apply_one_message :: "columns \<Rightarrow> instant \<Rightarrow> message_in \<Rightarrow> read_model \<Rightarrow> string option \<times> read_model" where
  "apply_one_message cv now m rm =
     (case decode_event_type (mi_headers m) of
        None \<Rightarrow> (None, rm)
      | Some event_type \<Rightarrow>
          (case Option.bind (event_payload (mi_value m)) (\<lambda>p. apply_event cv now event_type p rm) of
             None \<Rightarrow> (None, rm)
           | Some rm' \<Rightarrow> (Some event_type, rm')))"

fun consume :: "columns \<Rightarrow> (instant \<times> message_in) list \<Rightarrow> read_model \<Rightarrow> nat \<times> read_model" where
  \<comment> \<open>\<open>consume_forever\<close>, with the moment each message is handled\<close>
  "consume cv [] rm = (0, rm)"
| "consume cv ((now, m) # ms) rm =
     (case consume cv ms (snd (apply_one_message cv now m rm)) of (seen, rm') \<Rightarrow> (Suc seen, rm'))"

section \<open>Redelivery\<close>

lemma unless_retired_Some:
  "unless_retired cv rm v w = Some rm' \<longleftrightarrow>
     is_retired cv rm v = Some True \<and> rm' = rm \<or> is_retired cv rm v = Some False \<and> w = Some rm'"
  by (auto simp: unless_retired_def split: option.split bool.split)

lemma is_retired_frame [simp]:
  "is_retired cv (rm\<lparr>rm_members := members\<rparr>) v = is_retired cv rm v"
  "is_retired cv (rm\<lparr>rm_groups := groups\<rparr>) v = is_retired cv rm v"
  "is_retired cv (rm\<lparr>rm_pipelines := pipelines\<rparr>) v = is_retired cv rm v"
  "is_retired cv (rm\<lparr>rm_budgets := budgets\<rparr>) v = is_retired cv rm v"
  "is_retired cv (rm\<lparr>rm_rate_limits := limits\<rparr>) v = is_retired cv rm v"
  "is_retired cv (rm\<lparr>rm_anomaly_rules := rules\<rparr>) v = is_retired cv rm v"
  by (simp_all add: is_retired_def retired_def [abs_def])

lemma upsert_usecase_again: "upsert_usecase cv now p rm = Some rm' \<Longrightarrow> upsert_usecase cv now' p rm' = Some rm'"
  unfolding upsert_usecase_def usecase_fields_def bind_eq_Some_conv by (elim exE conjE; clarsimp)

lemma upsert_member_again: "upsert_member cv now p rm = Some rm' \<Longrightarrow> upsert_member cv now' p rm' = Some rm'"
  unfolding upsert_member_def bind_eq_Some_conv unless_retired_Some by (elim exE conjE disjE; clarsimp)

lemma upsert_group_again: "upsert_group_grant cv now p rm = Some rm' \<Longrightarrow> upsert_group_grant cv now' p rm' = Some rm'"
  unfolding upsert_group_grant_def bind_eq_Some_conv unless_retired_Some by (elim exE conjE disjE; clarsimp)

lemma upsert_key_again: "upsert_api_key cv now p rm = Some rm' \<Longrightarrow> upsert_api_key cv now' p rm' = Some rm'"
  unfolding upsert_api_key_def key_fields_def bind_eq_Some_conv
  by (elim exE conjE) (cases "rm_keys rm (the (cv_text cv (the (map_of p ''prefix''))))"; simp add: bind_eq_Some_conv; elim exE conjE; clarsimp)

lemma upsert_pipeline_again: "upsert_pipeline cv now p rm = Some rm' \<Longrightarrow> upsert_pipeline cv now' p rm' = Some rm'"
  unfolding upsert_pipeline_def bind_eq_Some_conv unless_retired_Some by (elim exE conjE disjE; clarsimp)

lemma upsert_budget_again: "upsert_budget cv now p rm = Some rm' \<Longrightarrow> upsert_budget cv now' p rm' = Some rm'"
  unfolding upsert_budget_def bind_eq_Some_conv unless_retired_Some map_option_eq_Some
  by (elim exE conjE disjE; clarsimp)

lemma upsert_rate_limit_again: "upsert_rate_limit cv now p rm = Some rm' \<Longrightarrow> upsert_rate_limit cv now' p rm' = Some rm'"
  unfolding upsert_rate_limit_def bind_eq_Some_conv unless_retired_Some map_option_eq_Some
  by (elim exE conjE disjE; clarsimp)

lemma upsert_rule_again: "upsert_anomaly_rule cv now p rm = Some rm' \<Longrightarrow> upsert_anomaly_rule cv now' p rm' = Some rm'"
  unfolding upsert_anomaly_rule_def bind_eq_Some_conv
  by (elim exE conjE) (cases "map_of p ''use_case''"; simp add: unless_retired_Some; elim exE conjE disjE; clarsimp)

lemma upsert_role_again: "upsert_role cv now p rm = Some rm' \<Longrightarrow> upsert_role cv now' p rm' = Some rm'"
  unfolding upsert_role_def bind_eq_Some_conv by (elim exE conjE; clarsimp)

lemma removals_again:
  "purge_usecase cv now p rm = Some rm' \<Longrightarrow> purge_usecase cv now' p rm' = Some rm'"
  "remove_member cv now p rm = Some rm' \<Longrightarrow> remove_member cv now' p rm' = Some rm'"
  "remove_group_grant cv now p rm = Some rm' \<Longrightarrow> remove_group_grant cv now' p rm' = Some rm'"
  "delete_pipeline cv now p rm = Some rm' \<Longrightarrow> delete_pipeline cv now' p rm' = Some rm'"
  "delete_budget cv now p rm = Some rm' \<Longrightarrow> delete_budget cv now' p rm' = Some rm'"
  "delete_rate_limit cv now p rm = Some rm' \<Longrightarrow> delete_rate_limit cv now' p rm' = Some rm'"
  "delete_anomaly_rule cv now p rm = Some rm' \<Longrightarrow> delete_anomaly_rule cv now' p rm' = Some rm'"
  "delete_model cv now p rm = Some rm' \<Longrightarrow> delete_model cv now' p rm' = Some rm'"
  "remove_role cv now p rm = Some rm' \<Longrightarrow> remove_role cv now' p rm' = Some rm'"
  unfolding purge_usecase_def remove_member_def remove_group_grant_def delete_pipeline_def
    delete_budget_def delete_rate_limit_def delete_anomaly_rule_def delete_model_def remove_role_def bind_eq_Some_conv
  by (elim exE conjE, clarsimp split: option.splits)+

lemma revoke_key_again: "revoke_api_key cv now p rm = Some rm' \<Longrightarrow> revoke_api_key cv now' p rm' = Some rm'"
proof -
  assume "revoke_api_key cv now p rm = Some rm'"
  then obtain v pre where v: "map_of p ''prefix'' = Some v" "compared (cv_text cv) v = Some pre"
    and rm': "rm' = (case Option.bind pre (rm_keys rm) of None \<Rightarrow> rm | Some k \<Rightarrow>
      rm\<lparr>rm_keys := (rm_keys rm)(the pre \<mapsto> k\<lparr>k_is_active := False,
        k_revoked_at := (case k_revoked_at k of None \<Rightarrow> Some now | Some t \<Rightarrow> Some t)\<rparr>)\<rparr>)"
    unfolding revoke_api_key_def bind_eq_Some_conv by blast
  show ?thesis
  proof (cases "Option.bind pre (rm_keys rm)")
    case (Some k)
    then obtain x where "pre = Some x" "rm_keys rm x = Some k" by (auto simp: bind_eq_Some_conv)
    with v Some show ?thesis by (cases "k_revoked_at k") (simp_all add: revoke_api_key_def rm')
  qed (use v in \<open>simp add: revoke_api_key_def rm'\<close>)
qed

lemma priced_row_alike:
  assumes "priced_row cv p row = Some r"
  shows "priced_row cv p s = Some (s\<lparr>m_approved := m_approved r, m_display_name := m_display_name r,
     m_provider := m_provider r, m_input_price_per_million_nanos := m_input_price_per_million_nanos r,
     m_cached_input_price_per_million_nanos := m_cached_input_price_per_million_nanos r,
     m_cache_write_price_per_million_nanos := m_cache_write_price_per_million_nanos r,
     m_output_price_per_million_nanos := m_output_price_per_million_nanos r,
     m_long_context_threshold := m_long_context_threshold r,
     m_long_context_input_price_per_million_nanos := m_long_context_input_price_per_million_nanos r,
     m_long_context_output_price_per_million_nanos := m_long_context_output_price_per_million_nanos r,
     m_long_context_cached_input_price_per_million_nanos := m_long_context_cached_input_price_per_million_nanos r,
     m_long_context_cache_write_price_per_million_nanos := m_long_context_cache_write_price_per_million_nanos r\<rparr>)"
  using assms unfolding priced_row_def bind_eq_Some_conv by (elim exE conjE; clarsimp)

lemma declared_again: "declared p key dflt column old = Some v \<Longrightarrow> declared p key dflt column v = Some v"
  by (auto simp: declared_def split: option.splits)

lemma declared_row_fields:
  assumes "declared_row cv p row = Some r"
  shows "declared p ''capabilities'' JNull json_column (m_capabilities row) = Some (m_capabilities r)"
    "declared p ''publisher'' (JStr []) (cv_text cv) (m_publisher row) = Some (m_publisher r)"
    "declared p ''platform'' (JStr []) (cv_text cv) (m_platform row) = Some (m_platform r)"
    "declared p ''addressing'' JNull json_column (m_addressing row) = Some (m_addressing r)"
    "declared p ''underlying_model'' (JStr []) (cv_text cv) (m_underlying_model row) = Some (m_underlying_model r)"
    "declared p ''context_window'' JNull (nullable (cv_int cv)) (m_context_window row) = Some (m_context_window r)"
    "declared p ''max_output_tokens'' JNull (nullable (cv_int cv)) (m_max_output_tokens row) = Some (m_max_output_tokens r)"
    "declared p ''default_max_output_tokens'' JNull (nullable (cv_int cv)) (m_default_max_output_tokens row) = Some (m_default_max_output_tokens r)"
    "declared p ''thinking'' JNull json_column (m_thinking row) = Some (m_thinking r)"
    "declared p ''embedding'' JNull json_column (m_embedding row) = Some (m_embedding r)"
    "declared p ''attachments'' JNull json_column (m_attachments row) = Some (m_attachments r)"
    "declared p ''hosting'' (JStr []) (cv_text cv) (m_hosting row) = Some (m_hosting r)"
    "declared p ''deprecated'' (JBool False) (cv_bool cv) (m_deprecated row) = Some (m_deprecated r)"
    "declared p ''fixed_sampling'' (JBool False) (cv_bool cv) (m_fixed_sampling row) = Some (m_fixed_sampling r)"
    "declared p ''default_sampling'' JNull json_column (m_default_sampling row) = Some (m_default_sampling r)"
    "declared p ''numeric_id'' JNull (nullable (cv_int cv)) (m_numeric_id row) = Some (m_numeric_id r)"
  using assms unfolding declared_row_def bind_eq_Some_conv by (elim exE conjE; clarsimp)+

lemma declared_row_again:
  assumes "declared_row cv p row = Some r"
  shows "declared_row cv p r = Some r"
  unfolding declared_row_def by (simp add: declared_row_fields [OF assms, THEN declared_again])

lemma declared_row_prices:
  assumes "declared_row cv p row = Some r"
  shows "m_model r = m_model row \<and> m_approved r = m_approved row \<and> m_display_name r = m_display_name row
    \<and> m_provider r = m_provider row \<and> m_input_price_per_million_nanos r = m_input_price_per_million_nanos row
    \<and> m_cached_input_price_per_million_nanos r = m_cached_input_price_per_million_nanos row
    \<and> m_cache_write_price_per_million_nanos r = m_cache_write_price_per_million_nanos row
    \<and> m_output_price_per_million_nanos r = m_output_price_per_million_nanos row
    \<and> m_long_context_threshold r = m_long_context_threshold row
    \<and> m_long_context_input_price_per_million_nanos r = m_long_context_input_price_per_million_nanos row
    \<and> m_long_context_output_price_per_million_nanos r = m_long_context_output_price_per_million_nanos row
    \<and> m_long_context_cached_input_price_per_million_nanos r = m_long_context_cached_input_price_per_million_nanos row
    \<and> m_long_context_cache_write_price_per_million_nanos r = m_long_context_cache_write_price_per_million_nanos row"
  using assms unfolding declared_row_def bind_eq_Some_conv by (elim exE conjE; clarsimp)

lemma upsert_model_again:
  assumes "upsert_model cv now p rm = Some rm'"
  shows "upsert_model cv now' p rm' = Some rm'"
proof -
  from assms obtain v model row row' where name: "map_of p ''name'' = Some v" "cv_text cv v = Some model"
    and rows: "priced_row cv p (case rm_models rm model of None \<Rightarrow> fresh_model model | Some row \<Rightarrow> row) = Some row"
      "declared_row cv p row = Some row'"
    and rm': "rm' = rm\<lparr>rm_models := (rm_models rm)(model \<mapsto> row')\<rparr>"
    by (auto simp: upsert_model_def bind_eq_Some_conv)
  have "priced_row cv p row' = Some row'"
    unfolding priced_row_alike [OF rows(1)] using declared_row_prices [OF rows(2)] by simp
  with name declared_row_again [OF rows(2)] show ?thesis by (simp add: upsert_model_def rm')
qed

lemma in_handlers:
  assumes "map_of handlers event_type = Some h"
  obtains "event_type = ''usecase.upserted''" "h = upsert_usecase"
    | "event_type = ''usecase.deleted''" "h = retire_usecase"
    | "event_type = ''usecase.purged''" "h = purge_usecase"
    | "event_type = ''membership.upserted''" "h = upsert_member"
    | "event_type = ''membership.removed''" "h = remove_member"
    | "event_type = ''use_case_group.granted''" "h = upsert_group_grant"
    | "event_type = ''use_case_group.revoked''" "h = remove_group_grant"
    | "event_type = ''api_key.created''" "h = upsert_api_key"
    | "event_type = ''api_key.revoked''" "h = revoke_api_key"
    | "event_type = ''pipeline.upserted''" "h = upsert_pipeline"
    | "event_type = ''pipeline.deleted''" "h = delete_pipeline"
    | "event_type = ''budget.upserted''" "h = upsert_budget"
    | "event_type = ''budget.deleted''" "h = delete_budget"
    | "event_type = ''ratelimit.upserted''" "h = upsert_rate_limit"
    | "event_type = ''ratelimit.deleted''" "h = delete_rate_limit"
    | "event_type = ''anomaly_rule.upserted''" "h = upsert_anomaly_rule"
    | "event_type = ''anomaly_rule.deleted''" "h = delete_anomaly_rule"
    | "event_type = ''model.upserted''" "h = upsert_model"
    | "event_type = ''model.deleted''" "h = delete_model"
    | "event_type = ''role.upserted''" "h = upsert_role"
    | "event_type = ''role.removed''" "h = remove_role"
  using map_of_SomeD [OF assms] unfolding handlers_def set_simps insert_iff empty_iff prod.inject
  by (elim disjE conjE FalseE) (erule (1) that)+

definition timeless :: "read_model \<Rightarrow> read_model" where
  \<comment> \<open>the read model without the moments of its retirements\<close>
  "timeless rm = rm\<lparr>rm_use_cases := (\<lambda>u. map_option (\<lambda>row. row\<lparr>uc_deleted_at := map_option (\<lambda>_. 0) (uc_deleted_at row)\<rparr>)
     (rm_use_cases rm u))\<rparr>"

lemma sweep_again [simp]: "sweep gone (sweep gone table) = sweep gone table"
  by (rule ext) (simp add: sweep_def split: option.split)

lemma swept_sel [simp]: "rm_use_cases (swept slug rm) = rm_use_cases rm"
  by (simp add: swept_def)

lemma deactivated_again [simp]: "deactivated slug (deactivated slug k) = deactivated slug k"
  by (simp add: deactivated_def)

lemma swept_again: "swept slug ((swept slug rm)\<lparr>rm_use_cases := table\<rparr>) = (swept slug rm)\<lparr>rm_use_cases := table\<rparr>"
  by (rule read_model.equality) (simp_all add: swept_def option.map_comp comp_def cong: if_cong)

lemma retire_again:
  assumes "retire_usecase cv now p rm = Some rm'"
  shows "\<exists>rm''. retire_usecase cv now' p rm' = Some rm'' \<and> timeless rm'' = timeless rm'"
proof -
  from assms obtain v slug row where slug: "map_of p ''slug'' = Some v" "cv_text cv v = Some slug"
    and row: "(case rm_use_cases rm slug of Some row \<Rightarrow> Some (row\<lparr>uc_deleted_at := Some now\<rparr>)
      | None \<Rightarrow> usecase_fields cv p slug (Some now)) = Some row"
    and rm': "rm' = (swept slug rm)\<lparr>rm_use_cases := (rm_use_cases rm)(slug \<mapsto> row)\<rparr>"
    unfolding retire_usecase_def bind_eq_Some_conv by blast
  from row have "uc_deleted_at row = Some now"
    by (cases "rm_use_cases rm slug") (auto simp: usecase_fields_def bind_eq_Some_conv)
  with slug show ?thesis
    by (simp add: retire_usecase_def rm' swept_again timeless_def fun_eq_iff)
qed

lemma apply_event_again:
  assumes "apply_event cv now event_type p rm = Some rm'"
  shows "\<exists>rm''. apply_event cv now' event_type p rm' = Some rm'' \<and> timeless rm'' = timeless rm'
    \<and> (event_type \<noteq> ''usecase.deleted'' \<longrightarrow> rm'' = rm')"
proof (cases "map_of handlers event_type")
  case (Some h)
  with assms have h: "h cv now p rm = Some rm'" and to: "apply_event cv now' event_type p rm' = h cv now' p rm'"
    by (simp_all add: apply_event_def)
  show ?thesis
  proof (cases "event_type = ''usecase.deleted''")
    case True
    with Some have "h = retire_usecase" by (auto elim: in_handlers)
    with h True to retire_again show ?thesis by auto
  next
    case False
    from Some have "h cv now' p rm' = Some rm'"
      by (rule in_handlers) (use h False in \<open>simp_all add: upsert_usecase_again upsert_member_again upsert_group_again
        upsert_key_again revoke_key_again upsert_pipeline_again upsert_budget_again upsert_rate_limit_again
        upsert_rule_again upsert_model_again upsert_role_again removals_again\<close>)
    with to show ?thesis by simp
  qed
qed (use assms in \<open>simp add: apply_event_def\<close>)

text \<open>Only a retirement and a revocation write down when they happened.\<close>

lemma timeless_handlers:
  "upsert_usecase cv now = upsert_usecase cv now'"
  "purge_usecase cv now = purge_usecase cv now'"
  "upsert_member cv now = upsert_member cv now'"
  "remove_member cv now = remove_member cv now'"
  "upsert_group_grant cv now = upsert_group_grant cv now'"
  "remove_group_grant cv now = remove_group_grant cv now'"
  "upsert_api_key cv now = upsert_api_key cv now'"
  "upsert_pipeline cv now = upsert_pipeline cv now'"
  "delete_pipeline cv now = delete_pipeline cv now'"
  "upsert_budget cv now = upsert_budget cv now'"
  "delete_budget cv now = delete_budget cv now'"
  "upsert_rate_limit cv now = upsert_rate_limit cv now'"
  "delete_rate_limit cv now = delete_rate_limit cv now'"
  "upsert_anomaly_rule cv now = upsert_anomaly_rule cv now'"
  "delete_anomaly_rule cv now = delete_anomaly_rule cv now'"
  "upsert_model cv now = upsert_model cv now'"
  "delete_model cv now = delete_model cv now'"
  "upsert_role cv now = upsert_role cv now'"
  "remove_role cv now = remove_role cv now'"
  by (rule ext, rule ext, simp only: upsert_usecase_def purge_usecase_def upsert_member_def remove_member_def upsert_group_grant_def
    remove_group_grant_def upsert_api_key_def upsert_pipeline_def delete_pipeline_def upsert_budget_def
    delete_budget_def upsert_rate_limit_def delete_rate_limit_def upsert_anomaly_rule_def delete_anomaly_rule_def
    upsert_model_def delete_model_def upsert_role_def remove_role_def)+

lemma failing_has_no_time:
  assumes "apply_event cv now event_type p rm = None"
  shows "apply_event cv now' event_type p rm = None"
proof (cases "map_of handlers event_type")
  case (Some h)
  have late: "revoke_api_key cv now p rm = None \<Longrightarrow> revoke_api_key cv now' p rm = None"
    unfolding revoke_api_key_def bind_eq_None_conv by simp
  have "(usecase_fields cv p slug (Some now) = None) = (usecase_fields cv p slug (Some now') = None)" for slug
    unfolding usecase_fields_def bind_eq_None_conv by simp
  then have "retire_usecase cv now p rm = None \<Longrightarrow> retire_usecase cv now' p rm = None"
    unfolding retire_usecase_def bind_eq_None_conv by (auto split: option.splits)
  moreover from Some assms have h: "h cv now p rm = None" and to: "apply_event cv now' event_type p rm = h cv now' p rm"
    by (simp_all add: apply_event_def)
  ultimately have "h cv now' p rm = None"
    using Some late by (elim in_handlers) (simp_all add: timeless_handlers [of cv now now'])
  with to show ?thesis by simp
qed (use assms in \<open>simp add: apply_event_def\<close>)


section \<open>Retirement\<close>

text \<open>
  What the rest of the section takes from a text column: it takes texts, as they are (the driver refuses a
  value of another type).
\<close>

definition text_columns :: "columns \<Rightarrow> bool" where
  "text_columns cv \<longleftrightarrow> (\<forall>v s. cv_text cv v = Some s \<longrightarrow> v = JStr s)"

definition inert :: "string \<Rightarrow> read_model \<Rightarrow> bool" where
  \<comment> \<open>a tombstone, and nothing of a use case beside it: no member, grant, pipeline, budget, rate limit or rule,
     and no active key\<close>
  "inert slug rm \<longleftrightarrow>
     retired rm slug
     \<and> (\<forall>m. rm_members rm (slug, m) = None) \<and> (\<forall>g. rm_groups rm (slug, g) = None)
     \<and> rm_pipelines rm slug = None
     \<and> (\<forall>i b. rm_budgets rm i = Some b \<longrightarrow> b_use_case b \<noteq> slug)
     \<and> (\<forall>i l. rm_rate_limits rm i = Some l \<longrightarrow> rl_use_case l \<noteq> slug)
     \<and> (\<forall>i r. rm_anomaly_rules rm i = Some r \<longrightarrow> ar_use_case r \<noteq> Some slug)
     \<and> (\<forall>x k. rm_keys rm x = Some k \<longrightarrow> k_use_case k = Some slug \<longrightarrow> \<not> k_is_active k)"

definition keys_at_home :: "(string \<Rightarrow> string option) \<Rightarrow> read_model \<Rightarrow> bool" where
  "keys_at_home home rm \<longleftrightarrow> (\<forall>x k. rm_keys rm x = Some k \<longrightarrow> k_use_case k = home x)"

definition states_home :: "columns \<Rightarrow> (string \<Rightarrow> string option) \<Rightarrow> message_in \<Rightarrow> bool" where
  \<comment> \<open>a key's event names the use case the key was issued for\<close>
  "states_home cv home m \<longleftrightarrow>
     (case (decode_event_type (mi_headers m), event_payload (mi_value m)) of
        (Some t, Some p) \<Rightarrow>
          t = ''api_key.created'' \<longrightarrow>
          (\<forall>x u. Option.bind (map_of p ''prefix'') (cv_text cv) = Some x \<longrightarrow>
             nullable (cv_text cv) (got p ''use_case'' JNull) = Some u \<longrightarrow> u = home x)
      | _ \<Rightarrow> True)"

definition names_use_case :: "columns \<Rightarrow> string \<Rightarrow> message_in \<Rightarrow> bool" where
  "names_use_case cv slug m \<longleftrightarrow>
     (case event_payload (mi_value m) of
        None \<Rightarrow> False
      | Some p \<Rightarrow> Option.bind (map_of p ''slug'') (cv_text cv) = Some slug)"

lemma not_retired:
  assumes "text_columns cv" "is_retired cv rm v = Some False" "cv_text cv v = Some u" "u \<noteq> []"
  shows "\<not> retired rm u"
proof -
  from assms(1,3) have "v = JStr u" by (auto simp: text_columns_def)
  with assms show ?thesis by (simp add: is_retired_def)
qed

lemma usecase_fields_deleted: "usecase_fields cv p slug d = Some row \<Longrightarrow> uc_deleted_at row = d"
  unfolding usecase_fields_def bind_eq_Some_conv by (elim exE conjE; clarsimp)

lemma retired_upsert:
  assumes "upsert_usecase cv now p rm = Some rm'"
  shows "retired rm' u = retired rm u"
proof -
  from assms obtain slug row where "usecase_fields cv p slug (Option.bind (rm_use_cases rm slug) uc_deleted_at) = Some row"
    and rm': "rm' = rm\<lparr>rm_use_cases := (rm_use_cases rm)(slug \<mapsto> row)\<rparr>"
    unfolding upsert_usecase_def bind_eq_Some_conv by blast
  from usecase_fields_deleted [OF this(1)] show ?thesis
    by (cases "rm_use_cases rm slug") (auto simp: rm' retired_def)
qed

lemma inert_upserts:
  assumes "text_columns cv" "slug \<noteq> []" "inert slug rm"
  shows "upsert_member cv now p rm = Some rm' \<Longrightarrow> inert slug rm'"
    and "upsert_group_grant cv now p rm = Some rm' \<Longrightarrow> inert slug rm'"
    and "upsert_pipeline cv now p rm = Some rm' \<Longrightarrow> inert slug rm'"
    and "upsert_budget cv now p rm = Some rm' \<Longrightarrow> inert slug rm'"
    and "upsert_rate_limit cv now p rm = Some rm' \<Longrightarrow> inert slug rm'"
    and "upsert_anomaly_rule cv now p rm = Some rm' \<Longrightarrow> inert slug rm'"
proof -
  have other: "u \<noteq> slug" if "is_retired cv rm v = Some False" "cv_text cv v = Some u" for u v
    using not_retired [OF assms(1) that] assms(2,3) by (auto simp: inert_def)
  show "upsert_member cv now p rm = Some rm' \<Longrightarrow> inert slug rm'"
    unfolding upsert_member_def bind_eq_Some_conv unless_retired_Some
    by (elim exE conjE disjE; use assms(3) in \<open>clarsimp simp: inert_def retired_def\<close>; use other in blast)
  show "upsert_group_grant cv now p rm = Some rm' \<Longrightarrow> inert slug rm'"
    unfolding upsert_group_grant_def bind_eq_Some_conv unless_retired_Some
    by (elim exE conjE disjE; use assms(3) in \<open>clarsimp simp: inert_def retired_def\<close>; use other in blast)
  show "upsert_pipeline cv now p rm = Some rm' \<Longrightarrow> inert slug rm'"
    unfolding upsert_pipeline_def bind_eq_Some_conv unless_retired_Some
    by (elim exE conjE disjE; use assms(3) in \<open>clarsimp simp: inert_def retired_def\<close>; use other in blast)
  have "b_use_case b \<noteq> slug" if "is_retired cv rm v = Some False" "budget_row cv p v = Some b" for v b
    using that(2) unfolding budget_row_def bind_eq_Some_conv by (elim exE conjE) (use other [OF that(1)] in auto)
  with assms(3) show "upsert_budget cv now p rm = Some rm' \<Longrightarrow> inert slug rm'"
    unfolding upsert_budget_def bind_eq_Some_conv unless_retired_Some map_option_eq_Some
    by (elim exE conjE disjE; clarsimp simp: inert_def retired_def)
  have "rl_use_case l \<noteq> slug" if "is_retired cv rm v = Some False" "rate_limit_row cv p v = Some l" for v l
    using that(2) unfolding rate_limit_row_def bind_eq_Some_conv by (elim exE conjE) (use other [OF that(1)] in auto)
  with assms(3) show "upsert_rate_limit cv now p rm = Some rm' \<Longrightarrow> inert slug rm'"
    unfolding upsert_rate_limit_def bind_eq_Some_conv unless_retired_Some map_option_eq_Some
    by (elim exE conjE disjE; clarsimp simp: inert_def retired_def)
  have rule: "ar_use_case r \<noteq> Some slug"
    if "is_retired cv rm v = Some False" "rule_row cv p v kind window threshold sample = Some r" for v kind window threshold sample r
    using that(2) unfolding rule_row_def bind_eq_Some_conv
    by (elim exE conjE) (use other [OF that(1)] in \<open>auto simp: nullable_def split: if_splits\<close>)
  show "upsert_anomaly_rule cv now p rm = Some rm' \<Longrightarrow> inert slug rm'"
    unfolding upsert_anomaly_rule_def bind_eq_Some_conv
    by (elim exE conjE) (cases "map_of p ''use_case''"; use assms(3) rule in \<open>simp add: unless_retired_Some\<close>;
      elim exE conjE disjE; clarsimp simp: inert_def retired_def)
qed

lemma inert_removals:
  assumes "inert slug rm"
  shows "remove_member cv now p rm = Some rm' \<Longrightarrow> inert slug rm'"
    and "remove_group_grant cv now p rm = Some rm' \<Longrightarrow> inert slug rm'"
    and "delete_pipeline cv now p rm = Some rm' \<Longrightarrow> inert slug rm'"
    and "delete_budget cv now p rm = Some rm' \<Longrightarrow> inert slug rm'"
    and "delete_rate_limit cv now p rm = Some rm' \<Longrightarrow> inert slug rm'"
    and "delete_anomaly_rule cv now p rm = Some rm' \<Longrightarrow> inert slug rm'"
    and "upsert_model cv now p rm = Some rm' \<Longrightarrow> inert slug rm'"
    and "delete_model cv now p rm = Some rm' \<Longrightarrow> inert slug rm'"
    and "upsert_role cv now p rm = Some rm' \<Longrightarrow> inert slug rm'"
    and "remove_role cv now p rm = Some rm' \<Longrightarrow> inert slug rm'"
    and "upsert_usecase cv now p rm = Some rm' \<Longrightarrow> inert slug rm'"
  using assms retired_upsert [of cv now p rm rm' slug]
  unfolding remove_member_def remove_group_grant_def delete_pipeline_def delete_budget_def delete_rate_limit_def
    delete_anomaly_rule_def upsert_model_def delete_model_def upsert_role_def remove_role_def bind_eq_Some_conv
  by - (elim exE conjE, clarsimp simp: inert_def retired_def split: option.splits,
    (elim exE conjE, clarsimp simp: inert_def retired_def split: option.splits)+,
    (clarsimp simp: upsert_usecase_def bind_eq_Some_conv inert_def))

lemma inert_keys:
  assumes "text_columns cv" "slug \<noteq> []" "inert slug rm" "keys_at_home home rm"
  shows "revoke_api_key cv now p rm = Some rm' \<Longrightarrow> inert slug rm' \<and> keys_at_home home rm'"
    and "upsert_api_key cv now p rm = Some rm' \<Longrightarrow>
      (\<And>x u. Option.bind (map_of p ''prefix'') (cv_text cv) = Some x \<Longrightarrow>
        nullable (cv_text cv) (got p ''use_case'' JNull) = Some u \<Longrightarrow> u = home x) \<Longrightarrow>
      inert slug rm' \<and> keys_at_home home rm'"
proof -
  assume "revoke_api_key cv now p rm = Some rm'"
  then obtain pre where rm': "rm' = (case Option.bind pre (rm_keys rm) of None \<Rightarrow> rm | Some k \<Rightarrow>
      rm\<lparr>rm_keys := (rm_keys rm)(the pre \<mapsto> k\<lparr>k_is_active := False,
        k_revoked_at := (case k_revoked_at k of None \<Rightarrow> Some now | Some t \<Rightarrow> Some t)\<rparr>)\<rparr>)"
    unfolding revoke_api_key_def bind_eq_Some_conv by blast
  show "inert slug rm' \<and> keys_at_home home rm'"
  proof (cases "Option.bind pre (rm_keys rm)")
    case (Some k)
    then obtain x where "pre = Some x" "rm_keys rm x = Some k" by (auto simp: bind_eq_Some_conv)
    with Some assms(3,4) show ?thesis by (auto simp: rm' inert_def keys_at_home_def retired_def)
  qed (use assms in \<open>simp add: rm'\<close>)
next
  assume up: "upsert_api_key cv now p rm = Some rm'"
    and home: "\<And>x u. Option.bind (map_of p ''prefix'') (cv_text cv) = Some x \<Longrightarrow>
        nullable (cv_text cv) (got p ''use_case'' JNull) = Some u \<Longrightarrow> u = home x"
  from up obtain v x row where x: "map_of p ''prefix'' = Some v" "cv_text cv v = Some x"
    and row: "(case rm_keys rm x of
        None \<Rightarrow> Option.bind (is_retired cv rm (got p ''use_case'' JNull)) (\<lambda>gone. key_fields cv p (\<not> gone) None)
      | Some k \<Rightarrow> key_fields cv p (k_is_active k) (k_revoked_at k)) = Some row"
    and rm': "rm' = rm\<lparr>rm_keys := (rm_keys rm)(x \<mapsto> row)\<rparr>"
    unfolding upsert_api_key_def bind_eq_Some_conv by blast
  have fields: "nullable (cv_text cv) (got p ''use_case'' JNull) = Some (k_use_case r) \<and> k_is_active r = active"
    if "key_fields cv p active revoked = Some r" for active revoked r
    using that unfolding key_fields_def bind_eq_Some_conv by (elim exE conjE; clarsimp)
  from row fields have bound: "nullable (cv_text cv) (got p ''use_case'' JNull) = Some (k_use_case row)"
    by (auto simp: bind_eq_Some_conv split: option.splits)
  with home x have at_home: "k_use_case row = home x" by simp
  have "\<not> k_is_active row" if own: "k_use_case row = Some slug"
  proof (cases "rm_keys rm x")
    case None
    with row obtain gone where gone: "is_retired cv rm (got p ''use_case'' JNull) = Some gone"
      and "key_fields cv p (\<not> gone) None = Some row" by (auto simp: bind_eq_Some_conv)
    then have active: "k_is_active row = (\<not> gone)" using fields by blast
    from bound own have "cv_text cv (got p ''use_case'' JNull) = Some slug"
      by (auto simp: nullable_def split: if_splits)
    with gone not_retired [OF assms(1), of rm "got p ''use_case'' JNull" slug] assms(2,3)
    have "gone" by (cases gone) (auto simp: inert_def)
    with active show ?thesis by simp
  next
    case (Some k)
    with row have "key_fields cv p (k_is_active k) (k_revoked_at k) = Some row" by simp
    with fields have "k_is_active row = k_is_active k" by blast
    moreover from Some assms(4) at_home own have "k_use_case k = Some slug" by (auto simp: keys_at_home_def)
    ultimately show ?thesis using Some assms(3) by (auto simp: inert_def)
  qed
  with at_home assms(3,4) show "inert slug rm' \<and> keys_at_home home rm'"
    by (auto simp: rm' inert_def keys_at_home_def retired_def)
qed

lemma deactivated_sel [simp]:
  "k_use_case (deactivated slug k) = k_use_case k"
  "k_is_active (deactivated slug k) \<longleftrightarrow> k_is_active k \<and> k_use_case k \<noteq> Some slug"
  by (simp_all add: deactivated_def)

lemma inert_swept: "inert slug ((swept slug rm)\<lparr>rm_use_cases := (rm_use_cases rm)(slug \<mapsto> row)\<rparr>)" if "uc_deleted_at row \<noteq> None"
  using that by (auto simp: inert_def retired_def swept_def sweep_def split: option.splits if_splits)

lemma inert_swept_other:
  assumes "inert slug rm" "u \<noteq> slug"
  shows "inert slug ((swept u rm)\<lparr>rm_use_cases := (rm_use_cases rm)(u \<mapsto> row)\<rparr>)"
  using assms by (auto simp: inert_def retired_def swept_def sweep_def split: option.splits if_splits)

lemma swept_at_home: "keys_at_home home rm \<Longrightarrow> keys_at_home home ((swept slug rm)\<lparr>rm_use_cases := table\<rparr>)"
  by (auto simp: keys_at_home_def swept_def)

lemma swept_row: "inert slug ((swept u rm)\<lparr>rm_use_cases := (rm_use_cases rm)(u \<mapsto> row)\<rparr>)"
  if "uc_deleted_at row \<noteq> None" "u = slug \<or> inert slug rm"
  using that inert_swept inert_swept_other by metis

lemma inert_retire:
  assumes "inert slug rm" "retire_usecase cv now p rm = Some rm'"
  shows "inert slug rm'"
proof -
  from assms(2) obtain u row where row: "(case rm_use_cases rm u of Some row \<Rightarrow> Some (row\<lparr>uc_deleted_at := Some now\<rparr>)
      | None \<Rightarrow> usecase_fields cv p u (Some now)) = Some row"
    and rm': "rm' = (swept u rm)\<lparr>rm_use_cases := (rm_use_cases rm)(u \<mapsto> row)\<rparr>"
    unfolding retire_usecase_def bind_eq_Some_conv by blast
  from row have "uc_deleted_at row \<noteq> None"
    by (cases "rm_use_cases rm u") (auto dest: usecase_fields_deleted)
  with assms(1) show ?thesis unfolding rm' by (intro swept_row) simp_all
qed

lemma inert_purge:
  assumes "inert slug rm" "purge_usecase cv now p rm = Some rm'" "Option.bind (map_of p ''slug'') (cv_text cv) \<noteq> Some slug"
  shows "inert slug rm'"
proof -
  from assms(2) obtain v k where v: "map_of p ''slug'' = Some v" "compared (cv_text cv) v = Some k"
    and rm': "rm' = (case k of None \<Rightarrow> rm | Some u \<Rightarrow> rm\<lparr>rm_use_cases := (rm_use_cases rm)(u := None)\<rparr>)"
    unfolding purge_usecase_def bind_eq_Some_conv by blast
  show ?thesis
  proof (cases k)
    case (Some u)
    with v assms(3) have "u \<noteq> slug" by (auto simp: compared_def split: if_splits)
    then have "retired rm' slug = retired rm slug" by (simp add: rm' Some retired_def)
    with assms(1) show ?thesis by (simp add: rm' Some inert_def)
  qed (use assms(1) rm' in simp)
qed

lemma keys_frame:
  "upsert_usecase cv now p rm = Some rm' \<Longrightarrow> rm_keys rm' = rm_keys rm"
  "purge_usecase cv now p rm = Some rm' \<Longrightarrow> rm_keys rm' = rm_keys rm"
  "remove_member cv now p rm = Some rm' \<Longrightarrow> rm_keys rm' = rm_keys rm"
  "remove_group_grant cv now p rm = Some rm' \<Longrightarrow> rm_keys rm' = rm_keys rm"
  "delete_pipeline cv now p rm = Some rm' \<Longrightarrow> rm_keys rm' = rm_keys rm"
  "delete_budget cv now p rm = Some rm' \<Longrightarrow> rm_keys rm' = rm_keys rm"
  "delete_rate_limit cv now p rm = Some rm' \<Longrightarrow> rm_keys rm' = rm_keys rm"
  "delete_anomaly_rule cv now p rm = Some rm' \<Longrightarrow> rm_keys rm' = rm_keys rm"
  "upsert_model cv now p rm = Some rm' \<Longrightarrow> rm_keys rm' = rm_keys rm"
  "delete_model cv now p rm = Some rm' \<Longrightarrow> rm_keys rm' = rm_keys rm"
  "upsert_role cv now p rm = Some rm' \<Longrightarrow> rm_keys rm' = rm_keys rm"
  "remove_role cv now p rm = Some rm' \<Longrightarrow> rm_keys rm' = rm_keys rm"
  unfolding upsert_usecase_def purge_usecase_def remove_member_def remove_group_grant_def delete_pipeline_def delete_budget_def
    delete_rate_limit_def delete_anomaly_rule_def upsert_model_def delete_model_def upsert_role_def remove_role_def bind_eq_Some_conv
  by (elim exE conjE, clarsimp split: option.splits)+

lemma keys_frame_children:
  "upsert_member cv now p rm = Some rm' \<Longrightarrow> rm_keys rm' = rm_keys rm"
  "upsert_group_grant cv now p rm = Some rm' \<Longrightarrow> rm_keys rm' = rm_keys rm"
  "upsert_pipeline cv now p rm = Some rm' \<Longrightarrow> rm_keys rm' = rm_keys rm"
  "upsert_budget cv now p rm = Some rm' \<Longrightarrow> rm_keys rm' = rm_keys rm"
  "upsert_rate_limit cv now p rm = Some rm' \<Longrightarrow> rm_keys rm' = rm_keys rm"
  "upsert_anomaly_rule cv now p rm = Some rm' \<Longrightarrow> rm_keys rm' = rm_keys rm"
  unfolding upsert_member_def upsert_group_grant_def upsert_pipeline_def upsert_budget_def upsert_rate_limit_def
    bind_eq_Some_conv unless_retired_Some map_option_eq_Some
  by (elim exE conjE disjE; clarsimp)+
   (auto simp: upsert_anomaly_rule_def bind_eq_Some_conv unless_retired_Some split: option.splits)

lemma home_handlers:
  assumes "keys_at_home home rm" "map_of handlers t = Some h" "h cv now p rm = Some rm'"
    and "t \<noteq> ''api_key.created''" "t \<noteq> ''api_key.revoked''" "t \<noteq> ''usecase.deleted''"
  shows "keys_at_home home rm'"
proof -
  from assms(2) have "rm_keys rm' = rm_keys rm"
    by (rule in_handlers) (use assms(3-6) keys_frame [of cv now p rm rm'] keys_frame_children [of cv now p rm rm'] in simp_all)
  with assms(1) show ?thesis by (simp add: keys_at_home_def)
qed

lemma inert_event:
  assumes "text_columns cv" "slug \<noteq> []" "inert slug rm" "keys_at_home home rm"
    and event: "apply_event cv now t p rm = Some rm'"
    and "t = ''usecase.purged'' \<Longrightarrow> Option.bind (map_of p ''slug'') (cv_text cv) \<noteq> Some slug"
    and "\<And>x u. t = ''api_key.created'' \<Longrightarrow> Option.bind (map_of p ''prefix'') (cv_text cv) = Some x \<Longrightarrow>
      nullable (cv_text cv) (got p ''use_case'' JNull) = Some u \<Longrightarrow> u = home x"
  shows "inert slug rm' \<and> keys_at_home home rm'"
proof (cases "map_of handlers t")
  case None
  with event assms(3,4) show ?thesis by (simp add: apply_event_def)
next
  case (Some h)
  with event have h: "h cv now p rm = Some rm'" by (simp add: apply_event_def)
  consider (created) "t = ''api_key.created''" | (revoked) "t = ''api_key.revoked''" | (deleted) "t = ''usecase.deleted''"
    | (other) "t \<noteq> ''api_key.created''" "t \<noteq> ''api_key.revoked''" "t \<noteq> ''usecase.deleted''" by blast
  then show ?thesis
  proof cases
    case created
    with Some have "h = upsert_api_key" by (auto elim: in_handlers)
    with h inert_keys(2) [OF assms(1-4)] assms(7) created show ?thesis by blast
  next
    case revoked
    with Some have "h = revoke_api_key" by (auto elim: in_handlers)
    with h inert_keys(1) [OF assms(1-4)] show ?thesis by blast
  next
    case deleted
    with Some have ret: "h = retire_usecase" by (auto elim: in_handlers)
    from h [unfolded ret] have "\<exists>u table. rm' = (swept u rm)\<lparr>rm_use_cases := table\<rparr>"
      unfolding retire_usecase_def bind_eq_Some_conv by blast
    with swept_at_home [OF assms(4)] have "keys_at_home home rm'" by blast
    with inert_retire [OF assms(3)] h ret show ?thesis by blast
  next
    case other
    from Some have "inert slug rm'"
      by (rule in_handlers) (use h other assms(6) inert_upserts [OF assms(1-3)] inert_removals [OF assms(3)]
        inert_purge [OF assms(3)] in simp_all)
    with home_handlers [OF assms(4) Some h] other show ?thesis by simp
  qed
qed

lemma inert_message:
  assumes "text_columns cv" "slug \<noteq> []" "inert slug rm" "keys_at_home home rm" "states_home cv home m"
    and "decode_event_type (mi_headers m) \<noteq> Some ''usecase.purged'' \<or> \<not> names_use_case cv slug m"
  shows "inert slug (snd (apply_one_message cv now m rm)) \<and> keys_at_home home (snd (apply_one_message cv now m rm))"
proof (cases "fst (apply_one_message cv now m rm)")
  case None
  with assms(3,4) show ?thesis by (auto simp: apply_one_message_def split: option.splits)
next
  case (Some t)
  then obtain p where "decode_event_type (mi_headers m) = Some t" "event_payload (mi_value m) = Some p"
    "apply_event cv now t p rm = Some (snd (apply_one_message cv now m rm))"
    by (auto simp: apply_one_message_def bind_eq_Some_conv split: option.splits)
  with assms(5,6) show ?thesis
    by (intro inert_event [OF assms(1-4)]) (auto simp: states_home_def names_use_case_def)
qed

lemma inert_consume:
  assumes "text_columns cv" "slug \<noteq> []" "inert slug rm" "keys_at_home home rm"
    and "\<forall>(t, m) \<in> set ms. states_home cv home m
      \<and> (decode_event_type (mi_headers m) \<noteq> Some ''usecase.purged'' \<or> \<not> names_use_case cv slug m)"
  shows "inert slug (snd (consume cv ms rm))"
  using assms(3-5)
proof (induction ms arbitrary: rm)
  case (Cons e ms)
  obtain now m where e: "e = (now, m)" by (cases e)
  from Cons.prems e inert_message [OF assms(1,2), of rm home m now]
  have "inert slug (snd (apply_one_message cv now m rm))" "keys_at_home home (snd (apply_one_message cv now m rm))" by auto
  from Cons.IH [OF this] Cons.prems(3) show ?case by (simp add: e case_prod_beta)
qed simp

lemma retired_by:
  assumes "apply_one_message cv now m rm = (Some ''usecase.deleted'', rm')" "names_use_case cv slug m"
  shows "\<exists>row. rm' = (swept slug rm)\<lparr>rm_use_cases := (rm_use_cases rm)(slug \<mapsto> row)\<rparr> \<and> uc_deleted_at row = Some now"
proof -
  from assms obtain p where "event_payload (mi_value m) = Some p" "apply_event cv now ''usecase.deleted'' p rm = Some rm'"
    by (auto simp: apply_one_message_def bind_eq_Some_conv split: option.splits)
  moreover have "map_of handlers ''usecase.deleted'' = Some retire_usecase" by (simp add: handlers_def)
  ultimately have "retire_usecase cv now p rm = Some rm'" "Option.bind (map_of p ''slug'') (cv_text cv) = Some slug"
    using assms(2) by (simp_all add: apply_event_def names_use_case_def)
  then obtain row where row: "(case rm_use_cases rm slug of Some row \<Rightarrow> Some (row\<lparr>uc_deleted_at := Some now\<rparr>)
      | None \<Rightarrow> usecase_fields cv p slug (Some now)) = Some row"
    and rm': "rm' = (swept slug rm)\<lparr>rm_use_cases := (rm_use_cases rm)(slug \<mapsto> row)\<rparr>"
    by (auto simp: retire_usecase_def bind_eq_Some_conv)
  from row have "uc_deleted_at row = Some now"
    by (cases "rm_use_cases rm slug") (auto dest: usecase_fields_deleted)
  with rm' show ?thesis by blast
qed

text \<open>
  C20: Retirement is final. From the moment a use case is retired, whatever is delivered or delivered again - old
  events of the compacted topics, in any order, even events of the use case itself - the read model holds
  nothing that would grant it anything: no member, no group grant, no pipeline, budget, rate limit or rule,
  and no active key; only purging it ends that. A key's events are taken to name the use case the key was
  issued for.
\<close>
theorem a_retired_use_case_grants_nothing:
  assumes "text_columns cv" "slug \<noteq> []"
    and "apply_one_message cv now m rm = (Some ''usecase.deleted'', rm')" "names_use_case cv slug m"
    and "keys_at_home home rm"
    and "\<forall>(t, later) \<in> set ms. states_home cv home later
      \<and> (decode_event_type (mi_headers later) \<noteq> Some ''usecase.purged'' \<or> \<not> names_use_case cv slug later)"
  shows "inert slug (snd (consume cv ms rm'))"
proof -
  from retired_by [OF assms(3,4)] obtain row
    where rm': "rm' = (swept slug rm)\<lparr>rm_use_cases := (rm_use_cases rm)(slug \<mapsto> row)\<rparr>" "uc_deleted_at row = Some now" by blast
  then have "inert slug rm'" by (simp add: inert_swept)
  moreover from rm' assms(5) have "keys_at_home home rm'" by (simp add: swept_at_home)
  ultimately show ?thesis using inert_consume assms(1,2,6) by blast
qed

text \<open>
  C23: Retiring a use case takes nothing from another: every other use case's row, members, grants and pipeline,
  every budget, rate limit, rule and key that is not its own - the rules without a use case, which are
  everybody's, and the keys bound to none - are as they were, and of the usage counters exactly those of its
  scopes are gone, whatever its slug is a part of.
\<close>
theorem retirement_takes_only_its_own:
  assumes "apply_one_message cv now m rm = (Some ''usecase.deleted'', rm')" "names_use_case cv slug m"
    and "CHR '':'' \<notin> set slug" "slug \<noteq> []" "CHR '':'' \<notin> set (scope_use_case s)" "u \<noteq> slug"
  shows "rm_use_cases rm' u = rm_use_cases rm u \<and> rm_members rm' (u, x) = rm_members rm (u, x)
    \<and> rm_groups rm' (u, x) = rm_groups rm (u, x) \<and> rm_pipelines rm' u = rm_pipelines rm u
    \<and> (rm_budgets rm i \<noteq> rm_budgets rm' i \<longrightarrow> (\<exists>b. rm_budgets rm i = Some b \<and> b_use_case b = slug))
    \<and> (rm_rate_limits rm i \<noteq> rm_rate_limits rm' i \<longrightarrow> (\<exists>l. rm_rate_limits rm i = Some l \<and> rl_use_case l = slug))
    \<and> (rm_anomaly_rules rm i \<noteq> rm_anomaly_rules rm' i \<longrightarrow> (\<exists>r. rm_anomaly_rules rm i = Some r \<and> ar_use_case r = Some slug))
    \<and> (rm_keys rm y \<noteq> rm_keys rm' y \<longrightarrow> (\<exists>k. rm_keys rm y = Some k \<and> k_use_case k = Some slug))
    \<and> rm_models rm' = rm_models rm \<and> rm_roles rm' = rm_roles rm
    \<and> rm_usage rm' (usage_key s, period) = (if scope_use_case s = slug then None else rm_usage rm (usage_key s, period))"
proof -
  from retired_by [OF assms(1,2)] obtain row
    where rm': "rm' = (swept slug rm)\<lparr>rm_use_cases := (rm_use_cases rm)(slug \<mapsto> row)\<rparr>" by blast
  have rows: "\<exists>v. table i = Some v \<and> gone v" if "table i \<noteq> sweep gone table i" for gone and table :: "'k \<Rightarrow> 'v option" and i
    using that by (auto simp: sweep_def split: option.splits if_splits)
  have key: "\<exists>k. rm_keys rm y = Some k \<and> k_use_case k = Some slug" if "rm_keys rm y \<noteq> rm_keys rm' y"
    using that by (cases "rm_keys rm y") (auto simp: rm' swept_def deactivated_def split: if_splits)
  have counter: "counter_of slug (usage_key s) \<longleftrightarrow> scope_use_case s = slug"
  proof (cases "scope_member s")
    case None
    with assms(4) show ?thesis by (auto simp: counter_of_def usage_key_def)
  next
    case (Some x)
    have "prefix (slug @ '':'') (scope_use_case s @ '':'' @ x) \<longleftrightarrow> scope_use_case s = slug"
    proof
      assume "prefix (slug @ '':'') (scope_use_case s @ '':'' @ x)"
      then obtain y where "scope_use_case s @ '':'' @ x = slug @ '':'' @ y" by (auto simp: prefix_def)
      with split_at_colon [OF assms(5,3) this] show "scope_use_case s = slug" by simp
    qed (simp add: prefix_def)
    with Some show ?thesis by (simp add: counter_of_def usage_key_def)
  qed
  have sel: "rm_budgets rm' = sweep (\<lambda>b. b_use_case b = slug) (rm_budgets rm)"
    "rm_rate_limits rm' = sweep (\<lambda>l. rl_use_case l = slug) (rm_rate_limits rm)"
    "rm_anomaly_rules rm' = sweep (\<lambda>r. ar_use_case r = Some slug) (rm_anomaly_rules rm)"
    by (simp_all add: rm' swept_def)
  show ?thesis
  proof (intro conjI impI)
    show "\<exists>b. rm_budgets rm i = Some b \<and> b_use_case b = slug" if "rm_budgets rm i \<noteq> rm_budgets rm' i"
      using that unfolding sel by (rule rows)
    show "\<exists>l. rm_rate_limits rm i = Some l \<and> rl_use_case l = slug" if "rm_rate_limits rm i \<noteq> rm_rate_limits rm' i"
      using that unfolding sel by (rule rows)
    show "\<exists>r. rm_anomaly_rules rm i = Some r \<and> ar_use_case r = Some slug" if "rm_anomaly_rules rm i \<noteq> rm_anomaly_rules rm' i"
      using that unfolding sel by (rule rows)
  qed (use assms(6) key counter in \<open>simp_all add: rm' swept_def\<close>)
qed

section \<open>The order of topics\<close>

text \<open>A use case and its children arrive on different topics, in any order.\<close>

definition child_events :: "(string \<times> string) list" where
  \<comment> \<open>the events that write a child of a use case, and the field that names it\<close>
  "child_events =
     [(''membership.upserted'', ''slug''), (''use_case_group.granted'', ''slug''), (''api_key.created'', ''use_case''),
      (''pipeline.upserted'', ''use_case''), (''budget.upserted'', ''use_case''),
      (''ratelimit.upserted'', ''use_case''), (''anomaly_rule.upserted'', ''use_case'')]"

definition owned_ids :: "columns \<Rightarrow> string \<Rightarrow> json_object \<Rightarrow> read_model \<Rightarrow> bool" where
  \<comment> \<open>what an event's id or prefix already names belongs to the use case\<close>
  "owned_ids cv slug p rm \<longleftrightarrow>
     (\<forall>i. Option.bind (map_of p ''id'') (cv_int cv) = Some i \<longrightarrow>
        (\<forall>b. rm_budgets rm i = Some b \<longrightarrow> b_use_case b = slug)
        \<and> (\<forall>l. rm_rate_limits rm i = Some l \<longrightarrow> rl_use_case l = slug)
        \<and> (\<forall>r. rm_anomaly_rules rm i = Some r \<longrightarrow> ar_use_case r = Some slug))
     \<and> (\<forall>x k. Option.bind (map_of p ''prefix'') (cv_text cv) = Some x \<longrightarrow> rm_keys rm x = Some k \<longrightarrow>
          k_use_case k = Some slug)"

lemma retire_eq:
  assumes "Option.bind (map_of q ''slug'') (cv_text cv) = Some slug"
  shows "retire_usecase cv now q rm = map_option (\<lambda>row. (swept slug rm)\<lparr>rm_use_cases := (rm_use_cases rm)(slug \<mapsto> row)\<rparr>)
    (case rm_use_cases rm slug of Some row \<Rightarrow> Some (row\<lparr>uc_deleted_at := Some now\<rparr>) | None \<Rightarrow> usecase_fields cv q slug (Some now))"
  using assms by (auto simp: retire_usecase_def bind_eq_Some_conv map_conv_bind_option comp_def)

lemma retired_refused:
  assumes "text_columns cv" "cv_text cv v = Some slug" "slug \<noteq> []" "retired rm slug"
  shows "unless_retired cv rm v w = Some rm"
proof -
  from assms(1,2) have "v = JStr slug" by (auto simp: text_columns_def)
  with assms show ?thesis by (simp add: unless_retired_def is_retired_def)
qed

text \<open>What an event writes of a use case's children - keys apart - is what its retirement sweeps.\<close>

lemma child_swept:
  assumes "Option.bind (map_of p ''slug'') (cv_text cv) = Some slug"
  shows "upsert_member cv now p rm = Some rm' \<Longrightarrow> swept slug rm' = swept slug rm \<and> rm_use_cases rm' = rm_use_cases rm"
    and "upsert_group_grant cv now p rm = Some rm' \<Longrightarrow> swept slug rm' = swept slug rm \<and> rm_use_cases rm' = rm_use_cases rm"
  using assms unfolding upsert_member_def upsert_group_grant_def bind_eq_Some_conv unless_retired_Some
  by (elim exE conjE disjE; clarsimp; intro read_model.equality; clarsimp simp: swept_def fun_eq_iff)+

lemma fields_use_case:
  "budget_row cv p v = Some b \<Longrightarrow> cv_text cv v = Some (b_use_case b) \<and> Option.bind (map_of p ''id'') (cv_int cv) = Some (b_id b)"
  "rate_limit_row cv p v = Some l \<Longrightarrow> cv_text cv v = Some (rl_use_case l) \<and> Option.bind (map_of p ''id'') (cv_int cv) = Some (rl_id l)"
  "rule_row cv p v kind window threshold sample = Some r \<Longrightarrow>
     nullable (cv_text cv) v = Some (ar_use_case r) \<and> Option.bind (map_of p ''id'') (cv_int cv) = Some (ar_id r)"
  unfolding budget_row_def rate_limit_row_def rule_row_def bind_eq_Some_conv by (elim exE conjE; clarsimp)+

lemma sweep_put: "gone row \<Longrightarrow> (\<forall>v. table i = Some v \<longrightarrow> gone v) \<Longrightarrow> sweep gone (table(i \<mapsto> row)) = sweep gone table"
  by (rule ext) (auto simp: sweep_def split: option.split)

lemma child_row_swept:
  assumes "Option.bind (map_of p ''use_case'') (cv_text cv) = Some slug" "owned_ids cv slug p rm" "text_columns cv"
  shows "upsert_pipeline cv now p rm = Some rm' \<Longrightarrow> swept slug rm' = swept slug rm \<and> rm_use_cases rm' = rm_use_cases rm"
    and "upsert_budget cv now p rm = Some rm' \<Longrightarrow> swept slug rm' = swept slug rm \<and> rm_use_cases rm' = rm_use_cases rm"
    and "upsert_rate_limit cv now p rm = Some rm' \<Longrightarrow> swept slug rm' = swept slug rm \<and> rm_use_cases rm' = rm_use_cases rm"
    and "upsert_anomaly_rule cv now p rm = Some rm' \<Longrightarrow> swept slug rm' = swept slug rm \<and> rm_use_cases rm' = rm_use_cases rm"
proof -
  from assms(1) obtain v where v: "map_of p ''use_case'' = Some v" "cv_text cv v = Some slug" by (auto simp: bind_eq_Some_conv)
  with assms(3) have named: "v \<noteq> JNull" by (auto simp: text_columns_def)
  show "upsert_pipeline cv now p rm = Some rm' \<Longrightarrow> swept slug rm' = swept slug rm \<and> rm_use_cases rm' = rm_use_cases rm"
    using v unfolding upsert_pipeline_def bind_eq_Some_conv unless_retired_Some
    by (elim exE conjE disjE; clarsimp; intro read_model.equality; clarsimp simp: swept_def cong: if_cong)
  have put: "swept slug (rm\<lparr>rm_budgets := (rm_budgets rm)(b_id b \<mapsto> b)\<rparr>) = swept slug rm" if "budget_row cv p v = Some b" for b
    using fields_use_case(1) [OF that] v assms(2)
    by (intro read_model.equality) (simp_all add: swept_def owned_ids_def sweep_put cong: if_cong)
  show "upsert_budget cv now p rm = Some rm' \<Longrightarrow> swept slug rm' = swept slug rm \<and> rm_use_cases rm' = rm_use_cases rm"
    using v put unfolding upsert_budget_def bind_eq_Some_conv unless_retired_Some map_option_eq_Some
    by (elim exE conjE disjE; clarsimp)
  have put: "swept slug (rm\<lparr>rm_rate_limits := (rm_rate_limits rm)(rl_id l \<mapsto> l)\<rparr>) = swept slug rm" if "rate_limit_row cv p v = Some l" for l
    using fields_use_case(2) [OF that] v assms(2)
    by (intro read_model.equality) (simp_all add: swept_def owned_ids_def sweep_put cong: if_cong)
  show "upsert_rate_limit cv now p rm = Some rm' \<Longrightarrow> swept slug rm' = swept slug rm \<and> rm_use_cases rm' = rm_use_cases rm"
    using v put unfolding upsert_rate_limit_def bind_eq_Some_conv unless_retired_Some map_option_eq_Some
    by (elim exE conjE disjE; clarsimp)
  have put: "swept slug (rm\<lparr>rm_anomaly_rules := (rm_anomaly_rules rm)(ar_id r \<mapsto> r)\<rparr>) = swept slug rm"
    if "rule_row cv p v kind window threshold sample = Some r" for kind window threshold sample r
    using fields_use_case(3) [OF that] v named assms(2)
    by (intro read_model.equality) (simp_all add: swept_def owned_ids_def sweep_put nullable_def cong: if_cong)
  show "upsert_anomaly_rule cv now p rm = Some rm' \<Longrightarrow> swept slug rm' = swept slug rm \<and> rm_use_cases rm' = rm_use_cases rm"
    using v put unfolding upsert_anomaly_rule_def bind_eq_Some_conv
    by (elim exE conjE; clarsimp simp: unless_retired_Some; elim exE conjE disjE; clarsimp)
qed

lemma child_key:
  assumes "Option.bind (map_of p ''use_case'') (cv_text cv) = Some slug" "owned_ids cv slug p rm" "text_columns cv" "slug \<noteq> []"
    and "retired (rm\<lparr>rm_use_cases := table\<rparr>) slug"
  shows "case upsert_api_key cv now p rm of
      None \<Rightarrow> upsert_api_key cv now p ((swept slug rm)\<lparr>rm_use_cases := table\<rparr>) = None
    | Some rm' \<Rightarrow> rm_use_cases rm' = rm_use_cases rm
        \<and> upsert_api_key cv now p ((swept slug rm)\<lparr>rm_use_cases := table\<rparr>) = Some ((swept slug rm')\<lparr>rm_use_cases := table\<rparr>)"
proof -
  let ?rm = "(swept slug rm)\<lparr>rm_use_cases := table\<rparr>"
  from assms(1,3) have v: "got p ''use_case'' JNull = JStr slug" by (auto simp: bind_eq_Some_conv got_def text_columns_def)
  have gone: "is_retired cv ?rm (got p ''use_case'' JNull) = Some True"
    and known: "\<exists>g. is_retired cv rm (got p ''use_case'' JNull) = Some g"
    using assms(1,3,4,5) v by (auto simp: is_retired_def retired_def bind_eq_Some_conv text_columns_def)
  have fields: "key_fields cv p False revoked = map_option (deactivated slug) (key_fields cv p active revoked)" for active revoked
    using assms(1,3) v unfolding key_fields_def bind_eq_Some_conv
    by (auto simp: map_conv_bind_option deactivated_def nullable_def text_columns_def bind_eq_Some_conv
        intro!: Option.bind_cong [OF refl])
  show ?thesis
  proof (cases "Option.bind (map_of p ''prefix'') (cv_text cv)")
    case None
    then have "upsert_api_key cv now p a = None" for a
      by (cases "map_of p ''prefix''") (simp_all add: upsert_api_key_def)
    then show ?thesis by simp
  next
    case (Some x)
    then have up: "upsert_api_key cv now p a = map_option (\<lambda>row. a\<lparr>rm_keys := (rm_keys a)(x \<mapsto> row)\<rparr>)
      (case rm_keys a x of
         None \<Rightarrow> Option.bind (is_retired cv a (got p ''use_case'' JNull)) (\<lambda>gone. key_fields cv p (\<not> gone) None)
       | Some k \<Rightarrow> key_fields cv p (k_is_active k) (k_revoked_at k))" for a
      by (auto simp: upsert_api_key_def bind_eq_Some_conv map_conv_bind_option comp_def)
    have put: "(swept slug (rm\<lparr>rm_keys := (rm_keys rm)(x \<mapsto> row)\<rparr>))\<lparr>rm_use_cases := table\<rparr>
        = ?rm\<lparr>rm_keys := (rm_keys ?rm)(x \<mapsto> deactivated slug row)\<rparr>" for row
      by (rule read_model.equality) (auto simp: swept_def fun_eq_iff)
    show ?thesis
    proof (cases "rm_keys rm x")
      case None
      with known obtain g where "upsert_api_key cv now p rm = map_option (\<lambda>row. rm\<lparr>rm_keys := (rm_keys rm)(x \<mapsto> row)\<rparr>) (key_fields cv p (\<not> g) None)"
        unfolding up by auto
      moreover from None gone have "upsert_api_key cv now p ?rm = map_option (\<lambda>row. ?rm\<lparr>rm_keys := (rm_keys ?rm)(x \<mapsto> row)\<rparr>) (key_fields cv p False None)"
        unfolding up by (simp add: swept_def)
      ultimately show ?thesis using fields [of None "\<not> g"] put by (simp split: option.split)
    next
      case (Some k)
      with \<open>Option.bind (map_of p ''prefix'') (cv_text cv) = Some x\<close> assms(2) have "k_use_case k = Some slug"
        by (auto simp: owned_ids_def)
      with Some have "rm_keys ?rm x = Some (k\<lparr>k_is_active := False\<rparr>)" by (simp add: swept_def deactivated_def)
      then have "upsert_api_key cv now p ?rm = map_option (\<lambda>row. ?rm\<lparr>rm_keys := (rm_keys ?rm)(x \<mapsto> row)\<rparr>) (key_fields cv p False (k_revoked_at k))"
        unfolding up by simp
      moreover have "upsert_api_key cv now p rm = map_option (\<lambda>row. rm\<lparr>rm_keys := (rm_keys rm)(x \<mapsto> row)\<rparr>) (key_fields cv p (k_is_active k) (k_revoked_at k))"
        unfolding up Some by simp
      ultimately show ?thesis using fields [of "k_revoked_at k" "k_is_active k"] put by (simp split: option.split)
    qed
  qed
qed

lemma child_refused:
  assumes "text_columns cv" "cv_text cv v = Some slug" "slug \<noteq> []" "retired rm slug"
  shows "map_of p ''slug'' = Some v \<Longrightarrow> upsert_member cv now p rm = Some rm' \<Longrightarrow> rm' = rm"
    and "map_of p ''slug'' = Some v \<Longrightarrow> upsert_group_grant cv now p rm = Some rm' \<Longrightarrow> rm' = rm"
    and "map_of p ''use_case'' = Some v \<Longrightarrow> upsert_pipeline cv now p rm = Some rm' \<Longrightarrow> rm' = rm"
    and "map_of p ''use_case'' = Some v \<Longrightarrow> upsert_budget cv now p rm = Some rm' \<Longrightarrow> rm' = rm"
    and "map_of p ''use_case'' = Some v \<Longrightarrow> upsert_rate_limit cv now p rm = Some rm' \<Longrightarrow> rm' = rm"
    and "map_of p ''use_case'' = Some v \<Longrightarrow> upsert_anomaly_rule cv now p rm = Some rm' \<Longrightarrow> rm' = rm"
  using retired_refused [OF assms]
  by (auto simp: upsert_member_def upsert_group_grant_def upsert_pipeline_def upsert_budget_def upsert_rate_limit_def
      upsert_anomaly_rule_def bind_eq_Some_conv)


section \<open>A message that cannot be applied\<close>

lemma consume_append:
  "consume cv (xs @ ys) rm = (case consume cv xs rm of (seen, rm') \<Rightarrow> case consume cv ys rm' of (rest, rm'') \<Rightarrow> (seen + rest, rm''))"
  by (induction xs arbitrary: rm) (auto simp: case_prod_beta)

lemma unapplied_unchanged: "fst (apply_one_message cv now m rm) = None \<Longrightarrow> snd (apply_one_message cv now m rm) = rm"
  by (auto simp: apply_one_message_def split: option.splits)


section \<open>Samples\<close>

definition sample_columns :: columns where
  "sample_columns =
     \<lparr>cv_text = string_of_json, cv_int = (\<lambda>v. json_int (Some v)),
      cv_bool = (\<lambda>v. case v of JBool b \<Rightarrow> Some b | _ \<Rightarrow> None),
      cv_decimal = (\<lambda>_. NotANumber), cv_instant = (\<lambda>_. None), cv_repr = (\<lambda>_. [])\<rparr>"

definition sample_event :: "string \<Rightarrow> json_object \<Rightarrow> message_in" where
  "sample_event t p = \<lparr>mi_headers = [(''event_type'', Some t)], mi_value = Some (JObj p)\<rparr>"

definition sample_key_event :: message_in where
  "sample_key_event = sample_event ''api_key.created''
     [(''prefix'', JStr ''ab''), (''key_hash'', JStr ''h''), (''subject'', JStr ''ann''), (''use_case'', JStr ''hr'')]"

definition sample_member_event :: message_in where
  "sample_member_event = sample_event ''membership.upserted'' [(''slug'', JStr ''hr''), (''username'', JStr ''ann'')]"

definition sample_retirement :: message_in where
  "sample_retirement = sample_event ''usecase.deleted'' [(''slug'', JStr ''hr''), (''name'', JStr ''HR'')]"

definition sample_key :: "string \<Rightarrow> api_key" where
  "sample_key use_case = \<lparr>k_key_hash = ''h'', k_subject = ''ann'', k_issued_by = None, k_use_case = Some use_case,
     k_label = None, k_is_active = True, k_revoked_at = None, k_expires_at = None\<rparr>"

definition sample_model :: read_model where
  "sample_model = empty_read_model
     \<lparr>rm_members := [(''hr'', ''ann'') \<mapsto> ''user'', (''it'', ''bob'') \<mapsto> ''user''],
      rm_keys := [''ab'' \<mapsto> sample_key ''hr'', ''cd'' \<mapsto> sample_key ''it''],
      rm_usage := [(''member:hr:ann'', ''2026-01'') \<mapsto> \<lparr>bu_tokens = 1, bu_requests = 1, bu_cost_nanos = 1, bu_unpriced_requests = 0\<rparr>,
                   (''member:hr-it:ann'', ''2026-01'') \<mapsto> \<lparr>bu_tokens = 2, bu_requests = 1, bu_cost_nanos = 2, bu_unpriced_requests = 0\<rparr>]\<rparr>"

lemma sample_text_columns: "text_columns sample_columns"
  by (auto simp: text_columns_def sample_columns_def elim: string_of_json.elims)

lemma sample_retirement_applies:
  "apply_one_message sample_columns 7 sample_retirement sample_model =
     (Some ''usecase.deleted'', snd (apply_one_message sample_columns 7 sample_retirement sample_model))"
  "names_use_case sample_columns ''hr'' sample_retirement"
proof -
  have "fst (apply_one_message sample_columns 7 sample_retirement sample_model) = Some ''usecase.deleted''" by code_simp
  then show "apply_one_message sample_columns 7 sample_retirement sample_model =
     (Some ''usecase.deleted'', snd (apply_one_message sample_columns 7 sample_retirement sample_model))"
    by (simp add: prod_eq_iff)
  show "names_use_case sample_columns ''hr'' sample_retirement" by code_simp
qed

lemma a_retired_use_case_grants_nothing_witness:
  "inert ''hr'' (snd (consume sample_columns [(8, sample_key_event), (9, sample_member_event)]
     (snd (apply_one_message sample_columns 7 sample_retirement sample_model))))
   \<and> rm_members sample_model (''hr'', ''ann'') = Some ''user''"
proof -
  let ?home = "[''ab'' \<mapsto> ''hr'', ''cd'' \<mapsto> ''it'']"
  have home: "keys_at_home ?home sample_model"
    by (simp add: keys_at_home_def sample_model_def sample_key_def)
  have key: "states_home sample_columns ?home sample_key_event"
    by (simp add: states_home_def sample_key_event_def sample_event_def decode_event_type_def event_payload_def
        sample_columns_def nullable_def got_def)
  have member: "states_home sample_columns ?home sample_member_event"
    by (simp add: states_home_def sample_member_event_def sample_event_def decode_event_type_def event_payload_def)
  have later: "decode_event_type (mi_headers sample_key_event) \<noteq> Some ''usecase.purged''"
    "decode_event_type (mi_headers sample_member_event) \<noteq> Some ''usecase.purged''" by code_simp+
  have "rm_members sample_model (''hr'', ''ann'') = Some ''user''" by (simp add: sample_model_def)
  moreover have "inert ''hr'' (snd (consume sample_columns [(8, sample_key_event), (9, sample_member_event)]
     (snd (apply_one_message sample_columns 7 sample_retirement sample_model))))"
    by (rule a_retired_use_case_grants_nothing [OF sample_text_columns _ sample_retirement_applies home])
      (use key member later in simp_all)
  ultimately show ?thesis by blast
qed

lemma retirement_takes_only_its_own_witness:
  "rm_usage (snd (apply_one_message sample_columns 7 sample_retirement sample_model)) (''member:hr-it:ann'', ''2026-01'') \<noteq> None
   \<and> rm_members (snd (apply_one_message sample_columns 7 sample_retirement sample_model)) (''it'', ''bob'') = Some ''user''"
proof -
  let ?s = "\<lparr>scope_use_case = ''hr-it'', scope_member = Some ''ann''\<rparr>"
  have colon: "CHR '':'' \<notin> set ''hr''" "''hr'' \<noteq> []" "CHR '':'' \<notin> set (scope_use_case ?s)" "''it'' \<noteq> ''hr''" by simp_all
  have key: "usage_key ?s = ''member:hr-it:ann''" by (simp add: usage_key_def)
  have "rm_usage sample_model (''member:hr-it:ann'', ''2026-01'') \<noteq> None"
    "rm_members sample_model (''it'', ''bob'') = Some ''user''" by (simp_all add: sample_model_def)
  with retirement_takes_only_its_own [OF sample_retirement_applies colon, of "''bob''" _ _ "''2026-01''"] key
  show ?thesis by simp
qed



end
